(* ===== verification/FS_Prelude.thy ===== *)
theory FS_Prelude
  imports Main "HOL-Library.Word"
begin

text \<open>
  Shared vocabulary of the development: the machine integers and byte strings of the Rust
  sources, \<^verbatim>\<open>io::Result\<close> as a sum type, the checked arithmetic of the
  standard library, slices and \<^verbatim>\<open>copy_from_slice\<close>, little-endian
  encodings, and the state-and-error programs that model functions taking
  \<^verbatim>\<open>&mut impl BlockDevice\<close>.

  A \<^verbatim>\<open>usize\<close> is a natural number; the target is 64 bit, so its checked operations
  fail from \<open>2 ^ 64\<close> on and a conversion between \<^verbatim>\<open>usize\<close> and
  \<^verbatim>\<open>u64\<close> never fails. An \<^verbatim>\<open>io::Error\<close> is represented by its
  \<^verbatim>\<open>ErrorKind\<close>; its message is not modelled.
\<close>

section \<open>Types and errors\<close>

unbundle bit_operations_syntax

type_synonym u8 = "8 word"
type_synonym u16 = "16 word"
type_synonym u32 = "32 word"
type_synonym u64 = "64 word"
type_synonym bytes = "8 word list"

datatype io_error = InvalidInput | InvalidData | UnexpectedEof | NotFound | WouldBlock | OtherError

type_synonym 'a res = "io_error + 'a"

type_synonym ('d, 'a) io = "'d \<Rightarrow> 'a res \<times> 'd"

named_theorems io_simps "unfolding of state-and-error programs"
named_theorems slice_simps "reading slices of updated byte arrays"
named_theorems le_simps "little-endian encodings and their lengths"

section \<open>Results\<close>

fun bindR :: "'e + 'a \<Rightarrow> ('a \<Rightarrow> 'e + 'b) \<Rightarrow> 'e + 'b" where
  "bindR (Inl e) f = Inl e"
| "bindR (Inr x) f = f x"

definition ok_or :: "'e \<Rightarrow> 'a option \<Rightarrow> 'e + 'a" where
  "ok_or e x = (case x of None \<Rightarrow> Inl e | Some y \<Rightarrow> Inr y)"

definition map_err :: "('e \<Rightarrow> 'f) \<Rightarrow> 'e + 'a \<Rightarrow> 'f + 'a" where
  "map_err f r = (case r of Inl e \<Rightarrow> Inl (f e) | Inr x \<Rightarrow> Inr x)"

definition guardR :: "bool \<Rightarrow> 'e \<Rightarrow> 'e + unit" where
  "guardR c e = (if c then Inr () else Inl e)"

fun is_ok :: "'e + 'a \<Rightarrow> bool" where
  "is_ok (Inl e) = False"
| "is_ok (Inr x) = True"

text \<open>A loop with an early return: the first error stops it.\<close>

fun iterR :: "('a \<Rightarrow> 's \<Rightarrow> 'e + 's) \<Rightarrow> 'a list \<Rightarrow> 's \<Rightarrow> 'e + 's" where
  "iterR f [] s = Inr s"
| "iterR f (x # xs) s = bindR (f x s) (iterR f xs)"

section \<open>Programs over a device\<close>

definition io_return :: "'a \<Rightarrow> ('d, 'a) io" where
  "io_return x = (\<lambda>d. (Inr x, d))"

definition io_fail :: "io_error \<Rightarrow> ('d, 'a) io" where
  "io_fail e = (\<lambda>d. (Inl e, d))"

definition io_lift :: "'a res \<Rightarrow> ('d, 'a) io" where
  "io_lift r = (\<lambda>d. (r, d))"

text \<open>A fallible computation that only inspects the device.\<close>

definition io_look :: "('d \<Rightarrow> 'a res) \<Rightarrow> ('d, 'a) io" where
  "io_look f = (\<lambda>d. (f d, d))"

definition io_bind :: "('d, 'a) io \<Rightarrow> ('a \<Rightarrow> ('d, 'b) io) \<Rightarrow> ('d, 'b) io" where
  "io_bind m f = (\<lambda>d. case m d of (Inl e, d') \<Rightarrow> (Inl e, d') | (Inr x, d') \<Rightarrow> f x d')"

text \<open>\<^verbatim>\<open>for x in xs { f(x)?; }\<close>\<close>

fun io_iter :: "('a \<Rightarrow> ('d, unit) io) \<Rightarrow> 'a list \<Rightarrow> ('d, unit) io" where
  "io_iter f [] = io_return ()"
| "io_iter f (x # xs) = io_bind (f x) (\<lambda>_. io_iter f xs)"

text \<open>The same loop over a local variable that each round updates.\<close>

fun io_fold :: "('a \<Rightarrow> 's \<Rightarrow> ('d, 's) io) \<Rightarrow> 'a list \<Rightarrow> 's \<Rightarrow> ('d, 's) io" where
  "io_fold f [] s = io_return s"
| "io_fold f (x # xs) s = io_bind (f x s) (io_fold f xs)"

section \<open>Machine arithmetic\<close>

definition checked_add :: "'w::len word \<Rightarrow> 'w word \<Rightarrow> 'w word option" where
  "checked_add a b = (if unat a + unat b < 2 ^ LENGTH('w) then Some (a + b) else None)"

definition checked_mul :: "'w::len word \<Rightarrow> 'w word \<Rightarrow> 'w word option" where
  "checked_mul a b = (if unat a * unat b < 2 ^ LENGTH('w) then Some (a * b) else None)"

definition checked_sub :: "'w::len word \<Rightarrow> 'w word \<Rightarrow> 'w word option" where
  "checked_sub a b = (if b \<le> a then Some (a - b) else None)"

definition usize_add :: "nat \<Rightarrow> nat \<Rightarrow> nat option" where
  "usize_add a b = (if a + b < 2 ^ 64 then Some (a + b) else None)"

definition usize_mul :: "nat \<Rightarrow> nat \<Rightarrow> nat option" where
  "usize_mul a b = (if a * b < 2 ^ 64 then Some (a * b) else None)"

text \<open>\<^verbatim>\<open>u32::try_from(n: usize)\<close> and its kin: fails when the value does not fit.\<close>

definition word_try_from :: "nat \<Rightarrow> 'w::len word option" where
  "word_try_from n = (if n < 2 ^ LENGTH('w) then Some (word_of_nat n) else None)"

text \<open>The half-open range \<^verbatim>\<open>a..b\<close> of block numbers, as iterated.\<close>

definition u64_range :: "u64 \<Rightarrow> u64 \<Rightarrow> u64 list" where
  "u64_range a b = map word_of_nat [unat a..<unat b]"

section \<open>Byte arrays\<close>

text \<open>\<^verbatim>\<open>xs[a..b]\<close>\<close>

definition subslice :: "'a list \<Rightarrow> nat \<Rightarrow> nat \<Rightarrow> 'a list" where
  "subslice xs a b = take (b - a) (drop a xs)"

text \<open>\<^verbatim>\<open>xs[off..off + ys.len()].copy_from_slice(ys)\<close>\<close>

definition copy_slice :: "'a list \<Rightarrow> nat \<Rightarrow> 'a list \<Rightarrow> 'a list" where
  "copy_slice xs off ys = take off xs @ ys @ drop (off + length ys) xs"

text \<open>Several such copies in a row, each at its own offset.\<close>

definition copy_fields :: "bytes \<Rightarrow> (nat \<times> bytes) list \<Rightarrow> bytes" where
  "copy_fields xs fs = foldl (\<lambda>ys (off, f). copy_slice ys off f) xs fs"

definition all_zero :: "bytes \<Rightarrow> bool" where
  "all_zero bs = list_all (\<lambda>b. b = 0) bs"

primrec le_bytes :: "nat \<Rightarrow> nat \<Rightarrow> bytes" where
  "le_bytes 0 n = []"
| "le_bytes (Suc k) n = word_of_nat (n mod 256) # le_bytes k (n div 256)"

primrec le_nat :: "bytes \<Rightarrow> nat" where
  "le_nat [] = 0"
| "le_nat (b # bs) = unat b + 256 * le_nat bs"

definition to_le_bytes :: "'w::len word \<Rightarrow> bytes" where
  "to_le_bytes w = le_bytes (LENGTH('w) div 8) (unat w)"

definition from_le_bytes :: "bytes \<Rightarrow> 'w::len word" where
  "from_le_bytes bs = word_of_nat (le_nat bs)"

definition read_u16 :: "bytes \<Rightarrow> nat \<Rightarrow> u16" where
  "read_u16 bs off = from_le_bytes (subslice bs off (off + 2))"

definition read_u32 :: "bytes \<Rightarrow> nat \<Rightarrow> u32" where
  "read_u32 bs off = from_le_bytes (subslice bs off (off + 4))"

definition read_u64 :: "bytes \<Rightarrow> nat \<Rightarrow> u64" where
  "read_u64 bs off = from_le_bytes (subslice bs off (off + 8))"

section \<open>Lemmas on results and programs\<close>

lemma bindR_Inr_iff: "bindR r f = Inr y \<longleftrightarrow> (\<exists>x. r = Inr x \<and> f x = Inr y)"
  by (cases r) auto

lemma bindR_Inl_iff: "bindR r f = Inl e \<longleftrightarrow> r = Inl e \<or> (\<exists>x. r = Inr x \<and> f x = Inl e)"
  by (cases r) auto

lemma bindR_cong: "(\<And>x. r = Inr x \<Longrightarrow> f x = g x) \<Longrightarrow> bindR r f = bindR r g"
  by (cases r) simp_all

lemma bindR_assoc: "bindR (bindR r f) g = bindR r (\<lambda>x. bindR (f x) g)"
  by (cases r) simp_all

lemma ok_or_Inr_iff [simp]: "ok_or e x = Inr y \<longleftrightarrow> x = Some y"
  by (auto simp: ok_or_def split: option.splits)

lemma ok_or_simps [simp]: "ok_or e (Some y) = Inr y" "ok_or e None = Inl e"
  by (simp_all add: ok_or_def)

lemma map_err_simps [simp]: "map_err f (Inl e) = Inl (f e)" "map_err f (Inr x) = Inr x"
  by (simp_all add: map_err_def)

lemma map_err_Inr_iff [simp]: "map_err f r = Inr y \<longleftrightarrow> r = Inr y"
  by (cases r) auto

lemma is_ok_iff: "is_ok r \<longleftrightarrow> (\<exists>x. r = Inr x)"
  by (cases r) auto

lemma io_bind_fail [io_simps]: "m d = (Inl e, d') \<Longrightarrow> io_bind m f d = (Inl e, d')"
  by (simp add: io_bind_def)

lemma io_bind_ok [io_simps]: "m d = (Inr x, d') \<Longrightarrow> io_bind m f d = f x d'"
  by (simp add: io_bind_def)

lemma io_bind_lift_Inr [simp]: "io_bind (io_lift (Inr x)) f = f x"
  by (simp add: io_bind_def io_lift_def)

lemma io_bind_return [simp]: "io_bind (io_return x) f = f x"
  by (simp add: io_bind_def io_return_def)

lemma io_bind_assoc: "io_bind (io_bind m f) g = io_bind m (\<lambda>x. io_bind (f x) g)"
  by (auto simp: io_bind_def fun_eq_iff split: prod.splits sum.splits)

lemma io_iter_snoc: "io_iter f (xs @ [x]) = io_bind (io_iter f xs) (\<lambda>_. f x)"
  by (induction xs) (auto simp: io_bind_def io_return_def fun_eq_iff split: prod.splits sum.splits)

lemma io_iter_cong: "(\<And>x. x \<in> set xs \<Longrightarrow> f x = g x) \<Longrightarrow> io_iter f xs = io_iter g xs"
  by (induction xs) simp_all

lemma io_iter_map: "io_iter f (map g xs) = io_iter (\<lambda>x. f (g x)) xs"
  by (induction xs) simp_all

lemma io_fold_map: "io_fold f (map g xs) = io_fold (\<lambda>x. f (g x)) xs"
  by (induction xs; rule ext; simp)

lemma io_fold_cong: "(\<And>x. x \<in> set xs \<Longrightarrow> f x = g x) \<Longrightarrow> io_fold f xs = io_fold g xs"
  by (induction xs; rule ext; simp)

lemma io_apply [io_simps]:
  "io_return x d = (Inr x, d)" "io_fail e d = (Inl e, d)" "io_lift r d = (r, d)"
  "io_look g d = (g d, d)"
  by (simp_all add: io_return_def io_fail_def io_lift_def io_look_def)

section \<open>Lemmas on checked arithmetic\<close>

lemma checked_add_Some_iff:
  "checked_add a b = Some c \<longleftrightarrow> unat a + unat b < 2 ^ LENGTH('w) \<and> c = a + b"
  for a b c :: "'w::len word"
  by (auto simp: checked_add_def)

lemma unat_add_no_overflow:
  "unat a + unat b < 2 ^ LENGTH('w) \<Longrightarrow> unat (a + b) = unat a + unat b"
  for a b :: "'w::len word"
  by (simp add: unat_word_ariths)

lemma checked_add_unat:
  "checked_add a b = Some c \<Longrightarrow> unat c = unat a + unat b"
  for a b c :: "'w::len word"
  by (auto simp: checked_add_Some_iff unat_add_no_overflow)

lemma checked_mul_unat:
  "checked_mul a b = Some c \<Longrightarrow> unat c = unat a * unat b"
  for a b c :: "'w::len word"
  by (auto simp: checked_mul_def unat_word_ariths split: if_splits)

lemma usize_add_Some_iff: "usize_add a b = Some c \<longleftrightarrow> a + b < 2 ^ 64 \<and> c = a + b"
  by (auto simp: usize_add_def)

lemma usize_mul_Some_iff: "usize_mul a b = Some c \<longleftrightarrow> a * b < 2 ^ 64 \<and> c = a * b"
  by (auto simp: usize_mul_def)

lemma unat_lt2p: "unat w < 2 ^ LENGTH('w)" for w :: "'w::len word"
  by (rule unsigned_less)

lemma unat_lt_64: "unat (w :: u64) < 18446744073709551616"
  using unat_lt2p [of w] by simp

lemma unat_lt_32: "unat (w :: u32) < 4294967296"
  using unat_lt2p [of w] by simp

lemma unat_u64_of_nat [simp]: "n < 2 ^ 64 \<Longrightarrow> unat (word_of_nat n :: u64) = n"
  by (simp add: unat_of_nat)

lemma unat_word_of_nat_id: "n < 2 ^ LENGTH('w) \<Longrightarrow> unat (word_of_nat n :: 'w::len word) = n"
  by (simp add: unat_of_nat)

lemma word_try_from_Some_iff:
  "word_try_from n = Some (w :: 'w::len word) \<longleftrightarrow> n < 2 ^ LENGTH('w) \<and> w = word_of_nat n"
  by (auto simp: word_try_from_def)

lemma u64_range_eq_iff: "x \<in> set (u64_range a b) \<longleftrightarrow> a \<le> x \<and> x < b"
proof
  assume "x \<in> set (u64_range a b)"
  then obtain n where n: "unat a \<le> n" "n < unat b" "x = word_of_nat n"
    by (auto simp: u64_range_def)
  have "n < 2 ^ 64" using n(2) unat_lt_64 [of b] by simp
  then have "unat x = n" unfolding n(3) by (rule unat_u64_of_nat)
  with n(1,2) show "a \<le> x \<and> x < b"
    unfolding word_le_nat_alt word_less_nat_alt by simp
next
  assume "a \<le> x \<and> x < b"
  then have "unat x \<in> set [unat a..<unat b]"
    unfolding word_le_nat_alt word_less_nat_alt by simp
  then have "word_of_nat (unat x) \<in> set (u64_range a b)"
    unfolding u64_range_def set_map by (rule imageI)
  then show "x \<in> set (u64_range a b)" by simp
qed

lemma length_u64_range [simp]: "length (u64_range a b) = unat b - unat a"
  by (simp add: u64_range_def)

lemma u64_range_nth: "i < unat b - unat a \<Longrightarrow> u64_range a b ! i = a + word_of_nat i"
  unfolding u64_range_def by (simp del: upt_Suc)

lemma distinct_u64_range: "distinct (u64_range a b)"
proof -
  have "inj_on (word_of_nat :: nat \<Rightarrow> u64) (set [unat a..<unat b])"
  proof (rule inj_onI)
    fix x y
    assume "x \<in> set [unat a..<unat b]" "y \<in> set [unat a..<unat b]"
      and eq: "(word_of_nat x :: u64) = word_of_nat y"
    then have "x < 2 ^ 64" "y < 2 ^ 64"
      using unat_lt_64 [of b] by simp_all
    then show "x = y" using arg_cong [OF eq, of unat] by (simp only: unat_u64_of_nat)
  qed
  then show ?thesis by (simp add: u64_range_def distinct_map)
qed

section \<open>Lemmas on slices\<close>

lemma length_slice [simp]: "length (subslice xs a b) = min (b - a) (length xs - a)"
  by (simp add: subslice_def)

lemma slice_all [simp]: "subslice xs 0 (length xs) = xs"
  by (simp add: subslice_def)

lemma slice_empty [simp]: "subslice xs a a = []"
  by (simp add: subslice_def)

lemma slice_split: "a \<le> b \<Longrightarrow> b \<le> c \<Longrightarrow> subslice xs a c = subslice xs a b @ subslice xs b c"
proof -
  assume "a \<le> b" "b \<le> c"
  then have "c - a = (b - a) + (c - b)" by simp
  moreover have "drop b xs = drop (b - a) (drop a xs)" using \<open>a \<le> b\<close> by simp
  ultimately show ?thesis unfolding subslice_def by (simp only: take_add)
qed

lemma drop_slice_split: "a \<le> b \<Longrightarrow> drop a xs = subslice xs a b @ drop b xs"
  by (metis append_take_drop_id drop_drop le_add_diff_inverse2 subslice_def)

lemma slice_to_end: "subslice xs a (length xs) = drop a xs"
  by (simp add: subslice_def)

lemma slice_0: "subslice xs 0 b = take b xs"
  by (simp add: subslice_def)

lemma slice_append_left [slice_simps]:
  "b \<le> length xs \<Longrightarrow> subslice (xs @ ys) a b = subslice xs a b"
  by (simp add: subslice_def)

lemma slice_append_right [slice_simps]:
  "length xs \<le> a \<Longrightarrow> subslice (xs @ ys) a b = subslice ys (a - length xs) (b - length xs)"
  by (simp add: subslice_def)

lemma slice_Cons [slice_simps]:
  "0 < a \<Longrightarrow> subslice (x # xs) a b = subslice xs (a - 1) (b - 1)"
  "0 < b \<Longrightarrow> subslice (x # xs) 0 b = x # subslice xs 0 (b - 1)"
  by (auto simp: subslice_def take_Cons' drop_Cons')

lemma slice_nth: "i < b - a \<Longrightarrow> b \<le> length xs \<Longrightarrow> subslice xs a b ! i = xs ! (a + i)"
  by (simp add: subslice_def)

lemma slice_update: "\<not> (a \<le> i \<and> i < b) \<Longrightarrow> subslice (xs[i := x]) a b = subslice xs a b"
  by (rule nth_equalityI) (auto simp: subslice_def nth_list_update)

lemma length_copy_slice [simp]:
  "off + length ys \<le> length xs \<Longrightarrow> length (copy_slice xs off ys) = length xs"
  by (simp add: copy_slice_def)

lemma slice_copy_same:
  "off + length ys \<le> length xs \<Longrightarrow> n = off + length ys \<Longrightarrow> subslice (copy_slice xs off ys) off n = ys"
  by (simp add: subslice_def copy_slice_def)

lemma slice_copy_before:
  "b \<le> off \<Longrightarrow> off \<le> length xs \<Longrightarrow> subslice (copy_slice xs off ys) a b = subslice xs a b"
  by (rule nth_equalityI) (simp_all add: subslice_def copy_slice_def nth_append)

lemma slice_copy_after:
  "off + length ys \<le> a \<Longrightarrow> off + length ys \<le> length xs \<Longrightarrow>
   subslice (copy_slice xs off ys) a b = subslice xs a b"
  by (simp add: subslice_def copy_slice_def min_def)

lemma copy_slice_nth:
  "off + length ys \<le> length xs \<Longrightarrow> i < length xs \<Longrightarrow>
   copy_slice xs off ys ! i = (if off \<le> i \<and> i < off + length ys then ys ! (i - off) else xs ! i)"
  by (auto simp: copy_slice_def nth_append min_def)

lemma copy_slice_update:
  "off + length ys \<le> i \<Longrightarrow> i < length xs \<Longrightarrow> copy_slice (xs[i := x]) off ys = (copy_slice xs off ys)[i := x]"
  by (rule nth_equalityI) (auto simp: copy_slice_nth nth_list_update)

lemma copy_slice_twice:
  "length ys = length zs \<Longrightarrow> off + length ys \<le> length xs \<Longrightarrow>
   copy_slice (copy_slice xs off ys) off zs = copy_slice xs off zs"
  by (simp add: copy_slice_def)

lemma copy_slice_self:
  "b \<le> length xs \<Longrightarrow> a \<le> b \<Longrightarrow> copy_slice xs a (subslice xs a b) = xs"
  by (rule nth_equalityI) (auto simp: copy_slice_nth slice_nth)

lemma take_copy_slice_after:
  "off + length ys \<le> n \<Longrightarrow> off + length ys \<le> length xs \<Longrightarrow>
   take n (copy_slice xs off ys) = copy_slice (take n xs) off ys"
  by (rule nth_equalityI) (simp_all add: copy_slice_def nth_append)

lemma drop_copy_slice_after:
  "off + length ys \<le> n \<Longrightarrow> off + length ys \<le> length xs \<Longrightarrow>
   drop n (copy_slice xs off ys) = drop n xs"
  by (simp add: copy_slice_def min_def)

text \<open>
  Filling a zeroed array with fields at ascending offsets yields their concatenation, with
  zeros in the gaps.
\<close>

fun lay_fields :: "nat \<Rightarrow> nat \<Rightarrow> (nat \<times> bytes) list \<Rightarrow> bytes" where
  "lay_fields i n [] = replicate (n - i) 0"
| "lay_fields i n ((off, f) # fs) = replicate (off - i) 0 @ f @ lay_fields (off + length f) n fs"

fun ascending :: "nat \<Rightarrow> nat \<Rightarrow> (nat \<times> bytes) list \<Rightarrow> bool" where
  "ascending i n [] = (i \<le> n)"
| "ascending i n ((off, f) # fs) = (i \<le> off \<and> ascending (off + length f) n fs)"

lemma ascending_le: "ascending i n fs \<Longrightarrow> i \<le> n"
  by (induction fs arbitrary: i) fastforce+

lemma copy_slice_gap:
  assumes "i \<le> off" and "off + length f \<le> n"
  shows "copy_slice (ps @ replicate (n - i) 0) (length ps + (off - i)) f =
    (ps @ replicate (off - i) 0 @ f) @ replicate (n - (off + length f)) 0"
  using assms by (simp add: copy_slice_def min_def)

lemma copy_fields_lay_aux:
  "ascending i n fs \<Longrightarrow> length ps = i \<Longrightarrow>
   copy_fields (ps @ replicate (n - i) 0) fs = ps @ lay_fields i n fs"
proof (induction fs arbitrary: i ps)
  case Nil
  then show ?case by (simp add: copy_fields_def)
next
  case (Cons x fs)
  obtain off f where x: "x = (off, f)" by (cases x)
  with Cons.prems have asc: "i \<le> off" "ascending (off + length f) n fs" and len: "length ps = i"
    by simp_all
  let ?ps = "ps @ replicate (off - i) 0 @ f"
  have "copy_slice (ps @ replicate (n - i) 0) off f = ?ps @ replicate (n - (off + length f)) 0"
    using copy_slice_gap [OF asc(1), of f n ps] ascending_le [OF asc(2)] asc(1) len by simp
  moreover have "copy_fields (?ps @ replicate (n - (off + length f)) 0) fs =
      ?ps @ lay_fields (off + length f) n fs"
    by (rule Cons.IH [OF asc(2)]) (use asc(1) len in simp)
  ultimately show ?case by (simp add: copy_fields_def x)
qed

lemma copy_fields_lay:
  "ascending 0 n fs \<Longrightarrow> copy_fields (replicate n 0) fs = lay_fields 0 n fs"
  using copy_fields_lay_aux [of 0 n fs "[]"] by simp

lemma length_lay_fields: "ascending i n fs \<Longrightarrow> length (lay_fields i n fs) = n - i"
proof (induction fs arbitrary: i)
  case (Cons x fs)
  then show ?case by (cases x) (auto dest: ascending_le)
qed simp

lemma slice_whole [slice_simps]: "n = length xs \<Longrightarrow> subslice xs 0 n = xs"
  by simp

text \<open>
  Two byte strings are equal when they agree on consecutive fields. Used to show that a decoder
  accepts only what the encoder produces.
\<close>

fun same_fields :: "'a list \<Rightarrow> 'a list \<Rightarrow> nat \<Rightarrow> nat list \<Rightarrow> bool" where
  "same_fields xs ys i [] = (drop i xs = drop i ys)"
| "same_fields xs ys i (j # js) =
     (i \<le> j \<and> subslice xs i j = subslice ys i j \<and> same_fields xs ys j js)"

lemma same_fields_drop: "same_fields xs ys i js \<Longrightarrow> drop i xs = drop i ys"
proof (induction js arbitrary: i)
  case Nil
  then show ?case by simp
next
  case (Cons j js)
  then have ij: "i \<le> j" and sl: "subslice xs i j = subslice ys i j" and dr: "drop j xs = drop j ys"
    by simp_all
  have "drop i zs = subslice zs i j @ drop j zs" for zs :: "'a list"
  proof -
    have "drop j zs = drop (j - i) (drop i zs)" using ij by simp
    then show ?thesis unfolding subslice_def by (simp only: append_take_drop_id)
  qed
  with sl dr show ?case by metis
qed

lemma same_fields_eq: "same_fields xs ys 0 js \<Longrightarrow> xs = ys"
  using same_fields_drop [of xs ys 0 js] by simp

lemma all_zero_replicate [simp]: "all_zero (replicate n 0)"
  by (simp add: all_zero_def list_all_iff)

lemma all_zero_iff: "all_zero bs \<longleftrightarrow> bs = replicate (length bs) 0"
  unfolding all_zero_def list_all_iff by (metis in_set_replicate replicate_eqI)

lemma all_zero_Nil [simp]: "all_zero []"
  by (simp add: all_zero_def)

section \<open>Lemmas on little-endian integers\<close>

lemma length_le_bytes [simp, le_simps]: "length (le_bytes k n) = k"
  by (induction k arbitrary: n) simp_all

lemma le_nat_le_bytes: "le_nat (le_bytes k n) = n mod 256 ^ k"
proof (induction k arbitrary: n)
  case 0
  then show ?case by simp
next
  case (Suc k)
  have "unat (word_of_nat (n mod 256) :: u8) = n mod 256"
    by (simp add: unat_of_nat)
  with Suc.IH [of "n div 256"] show ?case
    by (simp add: mod_mult2_eq mult.commute)
qed

lemma le_bytes_le_nat: "length bs = k \<Longrightarrow> le_bytes k (le_nat bs) = bs"
proof (induction bs arbitrary: k)
  case Nil
  then show ?case by simp
next
  case (Cons b bs)
  have lt: "unat b < 256" using unat_lt2p [of b] by simp
  then have "(unat b + 256 * le_nat bs) mod 256 = unat b"
    and "(unat b + 256 * le_nat bs) div 256 = le_nat bs"
    by simp_all
  with Cons show ?case by auto
qed

lemma le_nat_bound: "le_nat bs < 256 ^ length bs"
proof (induction bs)
  case Nil
  then show ?case by simp
next
  case (Cons b bs)
  have "unat b < 256" using unat_lt2p [of b] by simp
  with Cons show ?case by simp
qed

lemma length_to_le_bytes [le_simps]: "length (to_le_bytes (w :: 'w::len word)) = LENGTH('w) div 8"
  by (simp add: to_le_bytes_def)

lemma length_to_le_bytes_u16 [simp]: "length (to_le_bytes (w :: u16)) = 2"
  by (simp add: to_le_bytes_def)

lemma length_to_le_bytes_u32 [simp]: "length (to_le_bytes (w :: u32)) = 4"
  by (simp add: to_le_bytes_def)

lemma length_to_le_bytes_u64 [simp]: "length (to_le_bytes (w :: u64)) = 8"
  by (simp add: to_le_bytes_def)

lemma pow256: "(256 :: nat) ^ k = 2 ^ (8 * k)"
  by (simp add: power_mult)

lemma from_to_le_bytes [simp]:
  "8 dvd LENGTH('w) \<Longrightarrow> from_le_bytes (to_le_bytes (w :: 'w::len word)) = w"
  using unat_lt2p [of w]
  by (simp add: from_le_bytes_def to_le_bytes_def le_nat_le_bytes pow256 mod_less)

lemma to_from_le_bytes:
  assumes "8 * length bs = LENGTH('w)"
  shows "to_le_bytes (from_le_bytes bs :: 'w::len word) = bs"
proof -
  have "le_nat bs < 2 ^ LENGTH('w)"
    using le_nat_bound [of bs] assms by (simp add: pow256)
  then have "unat (word_of_nat (le_nat bs) :: 'w word) = le_nat bs"
    by (rule unat_word_of_nat_id)
  moreover have "LENGTH('w) div 8 = length bs" using assms by simp
  ultimately show ?thesis
    by (simp add: to_le_bytes_def from_le_bytes_def le_bytes_le_nat)
qed

lemma to_le_bytes_inj:
  "8 dvd LENGTH('w) \<Longrightarrow> to_le_bytes a = to_le_bytes (b :: 'w::len word) \<longleftrightarrow> a = b"
  by (metis from_to_le_bytes)

lemma le_bytes_0 [simp]: "le_bytes k 0 = replicate k 0"
  by (induction k) simp_all

lemma to_le_bytes_0 [simp]: "to_le_bytes (0 :: 'w::len word) = replicate (LENGTH('w) div 8) 0"
  by (simp add: to_le_bytes_def)

lemma read_u16_eq_iff: "off + 2 \<le> length bs \<Longrightarrow> read_u16 bs off = w \<longleftrightarrow> subslice bs off (off + 2) = to_le_bytes w"
  using to_from_le_bytes [of "subslice bs off (off + 2)", where 'w = 16]
  by (auto simp: read_u16_def)

lemma read_u32_eq_iff: "off + 4 \<le> length bs \<Longrightarrow> read_u32 bs off = w \<longleftrightarrow> subslice bs off (off + 4) = to_le_bytes w"
  using to_from_le_bytes [of "subslice bs off (off + 4)", where 'w = 32]
  by (auto simp: read_u32_def)

lemma read_u64_eq_iff: "off + 8 \<le> length bs \<Longrightarrow> read_u64 bs off = w \<longleftrightarrow> subslice bs off (off + 8) = to_le_bytes w"
  using to_from_le_bytes [of "subslice bs off (off + 8)", where 'w = 64]
  by (auto simp: read_u64_def)

lemmas read_eq_iffs = read_u16_eq_iff read_u32_eq_iff read_u64_eq_iff

lemma slice_reads:
  "j = i + 2 \<Longrightarrow> j \<le> length bs \<Longrightarrow> subslice bs i j = to_le_bytes (read_u16 bs i)"
  "j = i + 4 \<Longrightarrow> j \<le> length bs \<Longrightarrow> subslice bs i j = to_le_bytes (read_u32 bs i)"
  "j = i + 8 \<Longrightarrow> j \<le> length bs \<Longrightarrow> subslice bs i j = to_le_bytes (read_u64 bs i)"
  by (metis read_u16_eq_iff read_u32_eq_iff read_u64_eq_iff)+

lemma slice_two: "j = i + 2 \<Longrightarrow> j \<le> length bs \<Longrightarrow> subslice bs i j = [bs ! i, bs ! Suc i]"
  by (rule nth_equalityI) (auto simp: slice_nth less_2_cases_iff nth_Cons split: nat.splits)

section \<open>Loops with early return\<close>

text \<open>An invariant over the elements already processed, for a loop whose rounds cannot fail.\<close>

lemma iterR_inv:
  assumes init: "I [] s"
    and step: "\<And>done x todo s. xs = done @ x # todo \<Longrightarrow> I done s \<Longrightarrow> \<exists>s'. f x s = Inr s' \<and> I (done @ [x]) s'"
  shows "\<exists>s'. iterR f xs s = Inr s' \<and> I xs s'"
proof -
  have "xs = pre @ post \<Longrightarrow> I pre s \<Longrightarrow> \<exists>s'. iterR f post s = Inr s' \<and> I xs s'" for pre post s
  proof (induction post arbitrary: pre s)
    case (Cons x post)
    obtain s' where "f x s = Inr s'" "I (pre @ [x]) s'" using step [OF Cons.prems] by blast
    with Cons.IH [of "pre @ [x]" s'] Cons.prems(1) show ?case by simp
  qed simp
  from this [of "[]" xs s] init show ?thesis by simp
qed

text \<open>The same for a loop that is known to return.\<close>

lemma iterR_result:
  assumes "iterR f xs s = Inr s'" and "I s" and "\<And>x s s'. x \<in> set xs \<Longrightarrow> I s \<Longrightarrow> f x s = Inr s' \<Longrightarrow> I s'"
  shows "I s'"
  using assms
proof (induction xs arbitrary: s)
  case (Cons x xs)
  obtain s1 where "f x s = Inr s1" "iterR f xs s1 = Inr s'" using Cons.prems(1) by (auto simp: bindR_Inr_iff)
  then show ?case using Cons by auto
qed simp

lemma iterR_check:
  "iterR (\<lambda>x _. if P x then Inl e else Inr ()) xs () = (if \<exists>x \<in> set xs. P x then Inl e else Inr ())"
  by (induction xs) simp_all

lemma iterR_append: "iterR f (xs @ ys) s = bindR (iterR f xs s) (iterR f ys)"
proof (induction xs arbitrary: s)
  case (Cons x xs)
  show ?case by (cases "f x s") (simp_all add: Cons.IH)
qed simp

lemma iterR_nested:
  "iterR (\<lambda>x. iterR (h x) (g x)) xs s = iterR (\<lambda>(x, y). h x y) (concat (map (\<lambda>x. map (Pair x) (g x)) xs)) s"
proof (induction xs arbitrary: s)
  case (Cons x xs)
  have "iterR (\<lambda>(x, y). h x y) (map (Pair x) ys) s = iterR (h x) ys s" for ys s
  proof (induction ys arbitrary: s)
    case (Cons y ys)
    then show ?case by (cases "h x y s") simp_all
  qed simp
  then show ?case
    by (cases "iterR (h x) (g x) s") (simp_all add: iterR_append Cons.IH)
qed simp

lemma iterR_cong: "(\<And>x s. x \<in> set xs \<Longrightarrow> f x s = g x s) \<Longrightarrow> iterR f xs s = iterR g xs s"
proof (induction xs arbitrary: s)
  case (Cons x xs)
  have "iterR f xs = iterR g xs" by (rule ext) (use Cons in simp)
  then show ?case using Cons.prems [of x s] by simp
qed simp

end
