(* ===== verification/FS_IO.thy ===== *)
theory FS_IO
  imports FS_Prelude
begin

text \<open>
  A weakest-precondition calculus for the state-and-error programs of the prelude. A program
  that fails keeps the device state it has reached, so a postcondition has two parts: one for
  a returned value and one for an error. Every rule is an equation, so that \<open>simp\<close> computes
  the precondition of a straight-line program; loops take an invariant.
\<close>

definition wp ::
  "('d, 'a) io \<Rightarrow> ('a \<Rightarrow> 'd \<Rightarrow> bool) \<Rightarrow> (io_error \<Rightarrow> 'd \<Rightarrow> bool) \<Rightarrow> 'd \<Rightarrow> bool" where
  "wp m Q E d = (case m d of (Inl e, d') \<Rightarrow> E e d' | (Inr x, d') \<Rightarrow> Q x d')"

named_theorems wp_simps "weakest preconditions of the program constructs"

text \<open>The equations are between functions of the state, so that they also apply under a binder.\<close>

lemma wp_return [wp_simps]: "wp (io_return x) Q E = Q x"
  by (simp add: wp_def io_return_def fun_eq_iff)

lemma wp_fail [wp_simps]: "wp (io_fail e) Q E = E e"
  by (simp add: wp_def io_fail_def fun_eq_iff)

lemma wp_lift [wp_simps]: "wp (io_lift r) Q E = (\<lambda>d. case r of Inl e \<Rightarrow> E e d | Inr x \<Rightarrow> Q x d)"
  by (simp add: wp_def io_lift_def fun_eq_iff split: sum.splits)

lemma wp_look [wp_simps]: "wp (io_look f) Q E = (\<lambda>d. case f d of Inl e \<Rightarrow> E e d | Inr x \<Rightarrow> Q x d)"
  by (simp add: wp_def io_look_def fun_eq_iff split: sum.splits)

lemma wp_bind [wp_simps]: "wp (io_bind m f) Q E = wp m (\<lambda>x. wp (f x) Q E) E"
  by (simp add: wp_def io_bind_def fun_eq_iff split: prod.splits sum.splits)

lemma wp_if [wp_simps]: "wp (if c then m else n) Q E = (\<lambda>d. if c then wp m Q E d else wp n Q E d)"
  by simp

lemma wp_iter_Nil [wp_simps]: "wp (io_iter f []) Q E = Q ()"
  by (simp add: wp_return)

lemma wp_iter_Cons [wp_simps]:
  "wp (io_iter f (x # xs)) Q E = wp (f x) (\<lambda>_. wp (io_iter f xs) Q E) E"
  by (simp add: wp_bind)

lemma wp_iter_append [wp_simps]:
  "wp (io_iter f (xs @ ys)) Q E = wp (io_iter f xs) (\<lambda>_. wp (io_iter f ys) Q E) E"
  by (induction xs) (simp_all add: wp_return wp_bind)

lemma wp_mono:
  assumes "wp m Q E d"
    and "\<And>x d'. m d = (Inr x, d') \<Longrightarrow> Q x d' \<Longrightarrow> Q' x d'"
    and "\<And>e d'. m d = (Inl e, d') \<Longrightarrow> E e d' \<Longrightarrow> E' e d'"
  shows "wp m Q' E' d"
  using assms by (auto simp: wp_def split: prod.splits sum.splits)

lemma wp_conj:
  "wp m (\<lambda>x d'. Q x d' \<and> Q' x d') (\<lambda>e d'. E e d' \<and> E' e d') d \<longleftrightarrow> wp m Q E d \<and> wp m Q' E' d"
  by (auto simp: wp_def split: prod.splits sum.splits)

lemma wpI:
  assumes "\<And>x d'. m d = (Inr x, d') \<Longrightarrow> Q x d'"
    and "\<And>e d'. m d = (Inl e, d') \<Longrightarrow> E e d'"
  shows "wp m Q E d"
  using assms by (auto simp: wp_def split: prod.splits sum.splits)

lemma wp_ok: "wp m Q E d \<Longrightarrow> m d = (Inr x, d') \<Longrightarrow> Q x d'"
  by (simp add: wp_def)

lemma wp_err: "wp m Q E d \<Longrightarrow> m d = (Inl e, d') \<Longrightarrow> E e d'"
  by (simp add: wp_def)

lemma wp_total:
  assumes "wp m Q (\<lambda>_ _. False) d"
  obtains x d' where "m d = (Inr x, d')" and "Q x d'"
  using assms by (auto simp: wp_def split: prod.splits sum.splits)

text \<open>
  The rule for loops: an invariant over the elements already processed. When no round can
  fail, \<open>E\<close> is instantiated with \<^term>\<open>\<lambda>_ _. False\<close>.
\<close>

lemma wp_iter_inv:
  assumes init: "I [] d"
    and step: "\<And>done x todo d. xs = done @ x # todo \<Longrightarrow> I done d \<Longrightarrow>
      wp (f x) (\<lambda>_. I (done @ [x])) E d"
  shows "wp (io_iter f xs) (\<lambda>_. I xs) E d"
proof -
  have "xs = pre @ post \<Longrightarrow> I pre d \<Longrightarrow> wp (io_iter f post) (\<lambda>_. I xs) E d" for pre post d
  proof (induction post arbitrary: pre d)
    case Nil
    then show ?case by (simp add: wp_simps)
  next
    case (Cons x post)
    have "wp (f x) (\<lambda>_. I (pre @ [x])) E d"
      by (rule step [OF Cons.prems])
    then have "wp (f x) (\<lambda>_. wp (io_iter f post) (\<lambda>_. I xs) E) E d"
      by (rule wp_mono) (use Cons in simp_all)
    then show ?case by (simp add: wp_simps)
  qed
  from this [of "[]" xs d] init show ?thesis by simp
qed

lemma wp_fold_inv:
  assumes init: "I [] s d"
    and step: "\<And>done x todo s d. xs = done @ x # todo \<Longrightarrow> I done s d \<Longrightarrow>
      wp (f x s) (I (done @ [x])) E d"
  shows "wp (io_fold f xs s) (I xs) E d"
proof -
  have "xs = pre @ post \<Longrightarrow> I pre s d \<Longrightarrow> wp (io_fold f post s) (I xs) E d" for pre post s d
  proof (induction post arbitrary: pre s d)
    case Nil
    then show ?case by (simp add: wp_simps)
  next
    case (Cons x post)
    have "wp (f x s) (I (pre @ [x])) E d"
      by (rule step [OF Cons.prems])
    then have "wp (f x s) (\<lambda>s'. wp (io_fold f post s') (I xs) E) E d"
      by (rule wp_mono) (use Cons in simp_all)
    then show ?case by (simp add: wp_simps)
  qed
  from this [of "[]" xs s d] init show ?thesis by simp
qed

end
