(* ===== verification/FS_Block.thy ===== *)
theory FS_Block
  imports FS_IO
begin

text \<open>
  The block layer, \<^verbatim>\<open>src/block.rs\<close>. The trait \<^verbatim>\<open>BlockDevice\<close> is a
  record of operations over a device state \<open>'d\<close>; a function generic over
  \<^verbatim>\<open>impl BlockDevice\<close> takes that record as its first argument. The contract of
  the trait is stated by one locale: what a successful operation does to the visible and to the
  durable contents, that a failing operation changes nothing, and when operations may fail. \<^verbatim>\<open>FileBlockDevice\<close> is
  modelled over an in-memory \<^verbatim>\<open>std::fs::File\<close> and shown to meet the contract.
\<close>

section \<open>The trait\<close>

definition BLOCK_SIZE :: nat where "BLOCK_SIZE = 4096"

definition BLOCK_SIZE_U64 :: u64 where "BLOCK_SIZE_U64 = 4096"

lemmas block_size_simps [simp] = BLOCK_SIZE_def BLOCK_SIZE_U64_def

record 'd block_device =
  block_count :: "'d \<Rightarrow> u64"
  read_block :: "u64 \<Rightarrow> ('d, bytes) io"
  write_block :: "u64 \<Rightarrow> bytes \<Rightarrow> ('d, unit) io"
  flush :: "('d, unit) io"

abbreviation zero_block :: bytes where "zero_block \<equiv> replicate 4096 0"

section \<open>Files\<close>

text \<open>
  The part of \<^verbatim>\<open>std::fs::File\<close> the block layer uses: contents, the
  contents already synchronised with the storage device, and the cursor. Failures of the host
  file system are outside the model; reading past the end is the \<^verbatim>\<open>UnexpectedEof\<close>
  of \<^verbatim>\<open>read_exact\<close>.
\<close>

record fs_file =
  file_data :: bytes
  file_synced :: bytes
  file_pos :: nat

definition file_seek :: "nat \<Rightarrow> (fs_file, unit) io" where
  "file_seek off = (\<lambda>f. (Inr (), f\<lparr>file_pos := off\<rparr>))"

definition file_read_exact :: "nat \<Rightarrow> (fs_file, bytes) io" where
  "file_read_exact n = (\<lambda>f.
     if file_pos f + n \<le> length (file_data f)
     then (Inr (subslice (file_data f) (file_pos f) (file_pos f + n)),
           f\<lparr>file_pos := file_pos f + n\<rparr>)
     else (Inl UnexpectedEof, f\<lparr>file_pos := max (file_pos f) (length (file_data f))\<rparr>))"

definition file_write_all :: "bytes \<Rightarrow> (fs_file, unit) io" where
  "file_write_all bs = (\<lambda>f.
     (Inr (),
      f\<lparr>file_data :=
          copy_slice (file_data f @ replicate (file_pos f - length (file_data f)) 0) (file_pos f) bs,
        file_pos := file_pos f + length bs\<rparr>))"

definition file_sync_data :: "(fs_file, unit) io" where
  "file_sync_data = (\<lambda>f. (Inr (), f\<lparr>file_synced := file_data f\<rparr>))"

definition file_set_len :: "nat \<Rightarrow> fs_file \<Rightarrow> fs_file" where
  "file_set_len n f =
     f\<lparr>file_data := take n (file_data f) @ replicate (n - length (file_data f)) 0\<rparr>"

section \<open>FileBlockDevice\<close>

record file_block_device =
  fbd_file :: fs_file
  fbd_blocks :: u64

definition fbd_from_file :: "fs_file \<Rightarrow> file_block_device res" where
  "fbd_from_file f =
     (let len = length (file_data f) in
      if len mod BLOCK_SIZE \<noteq> 0 then Inl InvalidData
      else Inr \<lparr>fbd_file = f, fbd_blocks = word_of_nat (len div BLOCK_SIZE)\<rparr>)"

text \<open>\<^verbatim>\<open>opened\<close> is what the host's \<^verbatim>\<open>OpenOptions::open\<close> returned.\<close>

definition fbd_open :: "fs_file res \<Rightarrow> file_block_device res" where
  "fbd_open opened = bindR opened fbd_from_file"

definition fbd_create :: "fs_file res \<Rightarrow> u64 \<Rightarrow> file_block_device res" where
  "fbd_create opened blocks =
     bindR (ok_or InvalidInput (checked_mul blocks BLOCK_SIZE_U64)) (\<lambda>len.
     bindR opened (\<lambda>f.
       fbd_from_file (file_set_len (unat len) (f\<lparr>file_data := [], file_pos := 0\<rparr>))))"

definition fbd_block_offset :: "file_block_device \<Rightarrow> u64 \<Rightarrow> u64 res" where
  "fbd_block_offset dev b =
     (if fbd_blocks dev \<le> b then Inl UnexpectedEof
      else ok_or InvalidInput (checked_mul b BLOCK_SIZE_U64))"

text \<open>Running a file operation on the file inside the device.\<close>

definition on_file :: "(fs_file, 'a) io \<Rightarrow> (file_block_device, 'a) io" where
  "on_file m = (\<lambda>dev. case m (fbd_file dev) of (r, f) \<Rightarrow> (r, dev\<lparr>fbd_file := f\<rparr>))"

definition fbd_read_block :: "u64 \<Rightarrow> (file_block_device, bytes) io" where
  "fbd_read_block b =
     io_bind (io_look (\<lambda>dev. fbd_block_offset dev b)) (\<lambda>offset.
     io_bind (on_file (file_seek (unat offset))) (\<lambda>_.
       on_file (file_read_exact BLOCK_SIZE)))"

definition fbd_write_block :: "u64 \<Rightarrow> bytes \<Rightarrow> (file_block_device, unit) io" where
  "fbd_write_block b buf =
     io_bind (io_look (\<lambda>dev. fbd_block_offset dev b)) (\<lambda>offset.
     io_bind (on_file (file_seek (unat offset))) (\<lambda>_.
       on_file (file_write_all buf)))"

definition fbd_flush :: "(file_block_device, unit) io" where
  "fbd_flush = on_file file_sync_data"

definition file_device :: "file_block_device block_device" where
  "file_device =
     \<lparr>block_count = fbd_blocks, read_block = fbd_read_block, write_block = fbd_write_block,
      flush = fbd_flush\<rparr>"

section \<open>The contract of the trait\<close>

text \<open>
  A device state is described by its size \<open>n\<close>, the contents \<open>v\<close> that reads return, and the
  contents \<open>u\<close> that survive a power failure.
\<close>

definition dev_at ::
  "'d block_device \<Rightarrow> ('d \<Rightarrow> bool) \<Rightarrow> ('d \<Rightarrow> u64 \<Rightarrow> bytes) \<Rightarrow> ('d \<Rightarrow> u64 \<Rightarrow> bytes) \<Rightarrow>
   u64 \<Rightarrow> (u64 \<Rightarrow> bytes) \<Rightarrow> (u64 \<Rightarrow> bytes) \<Rightarrow> 'd \<Rightarrow> bool" where
  "dev_at D dinv view durable n v u d \<longleftrightarrow>
     dinv d \<and> block_count D d = n \<and> view d = v \<and> durable d = u"

text \<open>
  A read inside the device succeeds and returns the block. A successful write changes exactly
  its block, and only what reads return; a flush makes the visible contents durable (when
  \<open>syncs\<close>). An operation that fails changes nothing. Inside the device writes and flushes fail
  only when the device is \<open>faulty\<close>.
\<close>

locale block_dev =
  fixes D :: "'d block_device"
    and dinv :: "'d \<Rightarrow> bool"
    and view :: "'d \<Rightarrow> u64 \<Rightarrow> bytes"
    and durable :: "'d \<Rightarrow> u64 \<Rightarrow> bytes"
    and faulty :: bool
    and syncs :: bool
  assumes view_length: "dev_at D dinv view durable n v u d \<Longrightarrow> b < n \<Longrightarrow> length (v b) = BLOCK_SIZE"
    and read_law: "dev_at D dinv view durable n v u d \<Longrightarrow>
      wp (read_block D b)
        (\<lambda>x d'. dev_at D dinv view durable n v u d' \<and> b < n \<and> x = v b)
        (\<lambda>_ d'. dev_at D dinv view durable n v u d' \<and> \<not> b < n) d"
    and write_law: "dev_at D dinv view durable n v u d \<Longrightarrow> length x = BLOCK_SIZE \<Longrightarrow>
      wp (write_block D b x)
        (\<lambda>_ d'. dev_at D dinv view durable n (v(b := x)) u d' \<and> b < n)
        (\<lambda>_ d'. dev_at D dinv view durable n v u d' \<and> (b < n \<longrightarrow> faulty)) d"
    and flush_law: "dev_at D dinv view durable n v u d \<Longrightarrow>
      wp (flush D)
        (\<lambda>_ d'. dev_at D dinv view durable n v (if syncs then v else u) d')
        (\<lambda>_ d'. dev_at D dinv view durable n v u d' \<and> faulty) d"
begin

abbreviation at :: "u64 \<Rightarrow> (u64 \<Rightarrow> bytes) \<Rightarrow> (u64 \<Rightarrow> bytes) \<Rightarrow> 'd \<Rightarrow> bool" where
  "at \<equiv> dev_at D dinv view durable"

lemma at_current: "dinv d \<Longrightarrow> at (block_count D d) (view d) (durable d) d"
  by (simp add: dev_at_def)

end

section \<open>FileBlockDevice meets the contract\<close>

definition fbd_inv :: "file_block_device \<Rightarrow> bool" where
  "fbd_inv dev \<longleftrightarrow>
     length (file_data (fbd_file dev)) = unat (fbd_blocks dev) * 4096 \<and>
     unat (fbd_blocks dev) * 4096 < 2 ^ 64"

definition fbd_view :: "file_block_device \<Rightarrow> u64 \<Rightarrow> bytes" where
  "fbd_view dev b = subslice (file_data (fbd_file dev)) (unat b * 4096) (unat b * 4096 + 4096)"

definition fbd_durable :: "file_block_device \<Rightarrow> u64 \<Rightarrow> bytes" where
  "fbd_durable dev b = subslice (file_synced (fbd_file dev)) (unat b * 4096) (unat b * 4096 + 4096)"

lemmas fbd_defs = file_device_def fbd_read_block_def fbd_write_block_def fbd_flush_def on_file_def
  file_seek_def file_read_exact_def file_write_all_def file_sync_data_def

lemma fbd_block_offset_in_range:
  assumes "fbd_inv dev" and "b < fbd_blocks dev"
  shows "\<exists>off. fbd_block_offset dev b = Inr off \<and> unat off = unat b * 4096"
proof -
  have "unat b < unat (fbd_blocks dev)" using assms(2) by (simp add: word_less_nat_alt)
  then have "unat b * 4096 < 2 ^ 64"
    using assms(1) by (simp add: fbd_inv_def)
  then have "checked_mul b BLOCK_SIZE_U64 = Some (b * BLOCK_SIZE_U64)"
    by (simp add: checked_mul_def BLOCK_SIZE_U64_def)
  moreover from this have "unat (b * BLOCK_SIZE_U64) = unat b * 4096"
    by (auto dest: checked_mul_unat simp: BLOCK_SIZE_U64_def)
  ultimately show ?thesis
    using assms(2) by (simp add: fbd_block_offset_def)
qed

lemma fbd_block_offset_out_of_range:
  "\<not> b < fbd_blocks dev \<Longrightarrow> fbd_block_offset dev b = Inl UnexpectedEof"
  by (simp add: fbd_block_offset_def not_less)

lemma fbd_fits:
  assumes "fbd_inv dev" and "b < fbd_blocks dev"
  shows "unat b * 4096 + 4096 \<le> length (file_data (fbd_file dev))"
proof -
  have "Suc (unat b) * 4096 \<le> unat (fbd_blocks dev) * 4096"
    using assms(2) unfolding word_less_nat_alt by (intro mult_le_mono1) simp
  then show ?thesis using assms(1) by (simp add: fbd_inv_def)
qed

lemma fbd_read_eq:
  assumes "fbd_inv dev"
  shows "fbd_read_block b dev =
    (if b < fbd_blocks dev
     then (Inr (fbd_view dev b), dev\<lparr>fbd_file := (fbd_file dev)\<lparr>file_pos := unat b * 4096 + 4096\<rparr>\<rparr>)
     else (Inl UnexpectedEof, dev))"
proof (cases "b < fbd_blocks dev")
  case True
  then obtain off where off: "fbd_block_offset dev b = Inr off" "unat off = unat b * 4096"
    using fbd_block_offset_in_range [OF assms True] by blast
  then show ?thesis
    using True fbd_fits [OF assms True]
    by (simp add: fbd_defs io_bind_def io_look_def fbd_view_def BLOCK_SIZE_def)
next
  case False
  then show ?thesis
    by (simp add: fbd_defs io_bind_def io_look_def fbd_block_offset_out_of_range)
qed

lemma fbd_write_eq:
  assumes "fbd_inv dev"
  shows "fbd_write_block b x dev =
    (if b < fbd_blocks dev
     then (Inr (), dev\<lparr>fbd_file := (fbd_file dev)
             \<lparr>file_data := copy_slice (file_data (fbd_file dev)) (unat b * 4096) x,
              file_pos := unat b * 4096 + length x\<rparr>\<rparr>)
     else (Inl UnexpectedEof, dev))"
proof (cases "b < fbd_blocks dev")
  case True
  then obtain off where off: "fbd_block_offset dev b = Inr off" "unat off = unat b * 4096"
    using fbd_block_offset_in_range [OF assms True] by blast
  then show ?thesis
    using True fbd_fits [OF assms True]
    by (simp add: fbd_defs io_bind_def io_look_def)
next
  case False
  then show ?thesis
    by (simp add: fbd_defs io_bind_def io_look_def fbd_block_offset_out_of_range)
qed

lemma fbd_view_write:
  assumes "fbd_inv dev" and "b < fbd_blocks dev" and "length x = 4096"
  shows "fbd_view (dev\<lparr>fbd_file := (fbd_file dev)
           \<lparr>file_data := copy_slice (file_data (fbd_file dev)) (unat b * 4096) x, file_pos := p\<rparr>\<rparr>)
         = (fbd_view dev)(b := x)"
proof
  fix c
  let ?fd = "file_data (fbd_file dev)"
  have fits: "unat b * 4096 + 4096 \<le> length ?fd" by (rule fbd_fits [OF assms(1,2)])
  consider "c = b" | "unat c < unat b" | "unat b < unat c"
    by (metis linorder_neqE_nat word_unat_eq_iff)
  then show "fbd_view (dev\<lparr>fbd_file := (fbd_file dev)
        \<lparr>file_data := copy_slice ?fd (unat b * 4096) x, file_pos := p\<rparr>\<rparr>) c = ((fbd_view dev)(b := x)) c"
  proof cases
    case 1
    then show ?thesis using fits assms(3) by (simp add: fbd_view_def slice_copy_same)
  next
    case 2
    then have "c \<noteq> b" by auto
    moreover have "unat c * 4096 + 4096 \<le> unat b * 4096" using 2 by simp
    ultimately show ?thesis using fits by (simp add: fbd_view_def slice_copy_before)
  next
    case 3
    then have "c \<noteq> b" by auto
    moreover have "unat b * 4096 + 4096 \<le> unat c * 4096" using 3 by simp
    ultimately show ?thesis using fits assms(3) by (simp add: fbd_view_def slice_copy_after)
  qed
qed

interpretation file_dev: block_dev file_device fbd_inv fbd_view fbd_durable False True
proof
  fix n :: u64 and v u :: "u64 \<Rightarrow> bytes" and d b and x :: bytes
  assume "dev_at file_device fbd_inv fbd_view fbd_durable n v u d"
  then have inv: "fbd_inv d" and n: "n = fbd_blocks d" and v: "v = fbd_view d" and u: "u = fbd_durable d"
    by (auto simp: dev_at_def file_device_def)
  show "b < n \<Longrightarrow> length (v b) = BLOCK_SIZE"
    using fbd_fits [OF inv, of b] by (simp add: n v fbd_view_def)
  show "wp (read_block file_device b)
      (\<lambda>x d'. dev_at file_device fbd_inv fbd_view fbd_durable n v u d' \<and> b < n \<and> x = v b)
      (\<lambda>_ d'. dev_at file_device fbd_inv fbd_view fbd_durable n v u d' \<and> \<not> b < n) d"
    using inv by (simp add: wp_def file_device_def fbd_read_eq dev_at_def n v u)
      (simp add: fbd_inv_def fbd_view_def fbd_durable_def fun_eq_iff)
  show "wp (flush file_device)
      (\<lambda>_ d'. dev_at file_device fbd_inv fbd_view fbd_durable n v (if True then v else u) d')
      (\<lambda>_ d'. dev_at file_device fbd_inv fbd_view fbd_durable n v u d' \<and> False) d"
    using inv by (simp add: wp_def fbd_defs dev_at_def n v fbd_inv_def fbd_view_def fbd_durable_def
        fun_eq_iff)
  assume len: "length x = BLOCK_SIZE"
  show "wp (write_block file_device b x)
      (\<lambda>_ d'. dev_at file_device fbd_inv fbd_view fbd_durable n (v(b := x)) u d' \<and> b < n)
      (\<lambda>_ d'. dev_at file_device fbd_inv fbd_view fbd_durable n v u d' \<and> (b < n \<longrightarrow> False)) d"
  proof (cases "b < fbd_blocks d")
    case True
    then show ?thesis
      using inv len fbd_fits [OF inv True] fbd_view_write [OF inv True, of x]
      by (simp add: wp_def file_device_def fbd_write_eq dev_at_def n v u)
        (simp add: fbd_inv_def fbd_durable_def fun_eq_iff)
  next
    case False
    then show ?thesis
      using inv by (simp add: wp_def file_device_def fbd_write_eq dev_at_def n v u)
  qed
qed

text \<open>A file-backed device of \<open>n\<close> zero blocks.\<close>

definition blank_device :: "u64 \<Rightarrow> file_block_device" where
  "blank_device n =
     \<lparr>fbd_file = \<lparr>file_data = replicate (unat n * 4096) 0, file_synced = replicate (unat n * 4096) 0,
        file_pos = 0\<rparr>, fbd_blocks = n\<rparr>"

lemma blank_device_inv: "unat n * 4096 < 2 ^ 64 \<Longrightarrow> fbd_inv (blank_device n)"
  by (simp add: blank_device_def fbd_inv_def)

end
