(* ===== verification/FS_Region.thy ===== *)
theory FS_Region
  imports FS_Block
begin

text \<open>
  Multi-block regions. Every metadata region (allocation bitmap, inode table, directory table)
  is one byte image spread over consecutive blocks. The sources carry the same three helpers in
  each module, \<^verbatim>\<open>read_region\<close>, \<^verbatim>\<open>write_region\<close> and
  \<^verbatim>\<open>write_image_block\<close>: tail blocks are written in descending order and the
  first block, which holds the header, last. Here they are modelled once over the list of block
  numbers, and reduced to a plain sequence of block writes whose effect on a device is proved
  from the device contract alone.
\<close>

section \<open>The helpers\<close>

type_synonym writes = "(u64 \<times> bytes) list"

definition write_image_block :: "'d block_device \<Rightarrow> u64 \<Rightarrow> bytes \<Rightarrow> nat \<Rightarrow> ('d, unit) io" where
  "write_image_block D b img index =
     io_bind (io_lift (ok_or InvalidInput (usize_mul index BLOCK_SIZE))) (\<lambda>start.
       let end = start + BLOCK_SIZE in write_block D b (subslice img start end))"

definition write_region_blocks :: "'d block_device \<Rightarrow> u64 list \<Rightarrow> bytes \<Rightarrow> ('d, unit) io" where
  "write_region_blocks D blocks img =
     io_bind (io_iter (\<lambda>index. write_image_block D (blocks ! index) img index)
                (rev [1..<length blocks])) (\<lambda>_.
       case blocks of [] \<Rightarrow> io_return () | first # _ \<Rightarrow> write_image_block D first img 0)"

definition read_region_blocks ::
  "'d block_device \<Rightarrow> io_error \<Rightarrow> u64 list \<Rightarrow> nat \<Rightarrow> ('d, bytes) io" where
  "read_region_blocks D err blocks len =
     io_fold
       (\<lambda>(index, b) img.
          io_bind (io_lift (ok_or err (usize_mul index BLOCK_SIZE))) (\<lambda>start.
          io_bind (read_block D b) (\<lambda>data. io_return (copy_slice img start data))))
       (enumerate 0 blocks) (replicate len 0)"

text \<open>A plain sequence of block writes, and the contents it leaves.\<close>

definition write_all :: "'d block_device \<Rightarrow> writes \<Rightarrow> ('d, unit) io" where
  "write_all D ws = io_iter (\<lambda>(b, x). write_block D b x) ws"

definition apply_writes :: "writes \<Rightarrow> (u64 \<Rightarrow> 'b) \<Rightarrow> (bytes \<Rightarrow> 'b) \<Rightarrow> u64 \<Rightarrow> 'b" where
  "apply_writes ws v emb = foldl (\<lambda>v (b, x). v(b := emb x)) v ws"

definition chunk :: "bytes \<Rightarrow> nat \<Rightarrow> bytes" where
  "chunk img i = subslice img (i * BLOCK_SIZE) (i * BLOCK_SIZE + BLOCK_SIZE)"

definition region_writes :: "u64 list \<Rightarrow> bytes \<Rightarrow> writes" where
  "region_writes blocks img =
     map (\<lambda>i. (blocks ! i, chunk img i)) (rev [0..<length blocks])"

definition region_bytes :: "(u64 \<Rightarrow> bytes) \<Rightarrow> u64 list \<Rightarrow> bytes" where
  "region_bytes v blocks = concat (map v blocks)"

section \<open>Sequences of writes\<close>

lemma apply_writes_Nil [simp]: "apply_writes [] v emb = v"
  by (simp add: apply_writes_def)

lemma apply_writes_Cons [simp]:
  "apply_writes ((b, x) # ws) v emb = apply_writes ws (v(b := emb x)) emb"
  by (simp add: apply_writes_def)

lemma apply_writes_append:
  "apply_writes (ws @ ws') v emb = apply_writes ws' (apply_writes ws v emb) emb"
  by (simp add: apply_writes_def)

lemma apply_writes_other: "b \<notin> fst ` set ws \<Longrightarrow> apply_writes ws v emb b = v b"
  by (induction ws arbitrary: v) auto

lemma apply_writes_cong:
  "(\<And>c. c \<notin> fst ` set ws \<Longrightarrow> u c = v c) \<Longrightarrow> apply_writes ws u emb = apply_writes ws v emb"
proof (induction ws arbitrary: u v)
  case Nil
  then show ?case by auto
next
  case (Cons w ws)
  obtain b x where w: "w = (b, x)" by (cases w)
  show ?case unfolding w apply_writes_Cons
    by (rule Cons.IH) (use Cons.prems w in auto)
qed

text \<open>Writes that are all repeated later leave no trace; so repeating a sequence, or a part of
  it first, changes nothing.\<close>

lemma apply_writes_overwrite:
  assumes "fst ` set ws \<subseteq> fst ` set ws'"
  shows "apply_writes ws' (apply_writes ws v emb) emb = apply_writes ws' v emb"
  by (rule apply_writes_cong) (use assms in \<open>auto intro!: apply_writes_other\<close>)

lemma apply_writes_idem: "apply_writes ws (apply_writes ws v emb) emb = apply_writes ws v emb"
  by (rule apply_writes_overwrite) simp

lemma apply_writes_redo_prefix:
  "apply_writes ws (apply_writes (take k ws) v emb) emb = apply_writes ws v emb"
  by (rule apply_writes_overwrite) (auto dest: in_set_takeD)

lemma apply_writes_distinct:
  assumes "distinct (map fst ws)" and "(b, x) \<in> set ws"
  shows "apply_writes ws v emb b = emb x"
  using assms
proof (induction ws arbitrary: v)
  case Nil
  then show ?case by simp
next
  case (Cons w ws)
  show ?case
  proof (cases "(b, x) = w")
    case True
    then show ?thesis
      using Cons.prems by (auto simp: apply_writes_other rev_image_eqI)
  next
    case False
    then show ?thesis using Cons by (cases w) auto
  qed
qed

section \<open>Images and their blocks\<close>

lemma block_end: "(i :: nat) < n \<Longrightarrow> i * 4096 + 4096 \<le> n * 4096"
  using mult_le_mono1 [of "Suc i" n 4096] by simp

lemma length_chunk:
  "length img = n * 4096 \<Longrightarrow> i < n \<Longrightarrow> length (chunk img i) = 4096"
  using block_end [of i n] by (simp add: chunk_def)

lemma concat_chunks:
  "length img = n * 4096 \<Longrightarrow> concat (map (chunk img) [0..<n]) = img"
proof (induction n arbitrary: img)
  case 0
  then show ?case by simp
next
  case (Suc n)
  let ?img = "take (n * 4096) img"
  have cut: "chunk img i = chunk ?img i" if "i < n" for i
    using block_end [OF that] by (simp add: chunk_def subslice_def drop_take min_def)
  have "concat (map (chunk img) [0..<n]) = concat (map (chunk ?img) [0..<n])"
    by (rule arg_cong [where f = concat]) (simp add: cut)
  also have "\<dots> = ?img"
    using Suc.prems by (intro Suc.IH) simp
  finally have "concat (map (chunk img) [0..<n]) = ?img" .
  moreover have "chunk img n = drop (n * 4096) img"
    using Suc.prems by (simp add: chunk_def subslice_def)
  ultimately show ?case by simp
qed

lemma map_fst_region_writes: "map fst (region_writes blocks img) = rev blocks"
  by (simp add: region_writes_def comp_def rev_map [symmetric] map_nth)

lemma region_writes_blocks [simp]:
  "fst ` set (region_writes blocks img) = set blocks"
  using arg_cong [OF map_fst_region_writes [of blocks img], of set] by simp

lemma region_writes_lengths:
  "length img = length blocks * 4096 \<Longrightarrow> (b, x) \<in> set (region_writes blocks img) \<Longrightarrow> length x = 4096"
  by (auto simp: region_writes_def length_chunk)

lemma distinct_region_writes: "distinct blocks \<Longrightarrow> distinct (map fst (region_writes blocks img))"
  by (simp add: map_fst_region_writes)

lemma region_bytes_writes:
  assumes "distinct blocks" and "length img = length blocks * 4096"
  shows "region_bytes (apply_writes (region_writes blocks img) v id) blocks = img"
proof -
  let ?v = "apply_writes (region_writes blocks img) v id"
  have "map ?v blocks = map (chunk img) [0..<length blocks]"
  proof (rule nth_equalityI)
    fix i assume "i < length (map ?v blocks)"
    then have "(blocks ! i, chunk img i) \<in> set (region_writes blocks img)" and "i < length blocks"
      by (auto simp: region_writes_def)
    then show "map ?v blocks ! i = map (chunk img) [0..<length blocks] ! i"
      using apply_writes_distinct [OF distinct_region_writes [OF assms(1)],
          of "blocks ! i" "chunk img i" img v id] by simp
  qed simp
  then show ?thesis using concat_chunks [OF assms(2)] by (simp add: region_bytes_def)
qed

lemma region_bytes_other:
  "set blocks \<inter> fst ` set ws = {} \<Longrightarrow> region_bytes (apply_writes ws v id) blocks = region_bytes v blocks"
  unfolding region_bytes_def
  by (rule arg_cong [where f = concat]) (auto intro!: apply_writes_other)

lemma region_bytes_cong:
  "(\<And>b. b \<in> set blocks \<Longrightarrow> v b = v' b) \<Longrightarrow> region_bytes v blocks = region_bytes v' blocks"
  unfolding region_bytes_def by (simp cong: map_cong)

lemma length_region_bytes:
  "(\<And>b. b \<in> set blocks \<Longrightarrow> length (v b) = 4096) \<Longrightarrow> length (region_bytes v blocks) = length blocks * 4096"
  unfolding region_bytes_def by (induction blocks) auto

text \<open>The whole image determines every block of the region.\<close>

lemma region_bytes_eq_blocks:
  assumes "region_bytes v blocks = region_bytes v' blocks"
    and "\<And>b. b \<in> set blocks \<Longrightarrow> length (v b) = 4096" and "\<And>b. b \<in> set blocks \<Longrightarrow> length (v' b) = 4096"
  shows "b \<in> set blocks \<Longrightarrow> v b = v' b"
  using assms unfolding region_bytes_def by (induction blocks) auto

lemma write_region_blocks_eq:
  assumes "length blocks * 4096 < 2 ^ 64"
  shows "write_region_blocks D blocks img = write_all D (region_writes blocks img)"
proof (cases blocks)
  case Nil
  then show ?thesis
    by (simp add: write_region_blocks_def write_all_def region_writes_def io_bind_def io_return_def)
next
  case (Cons b bs)
  have one: "write_image_block D c img i = write_block D c (chunk img i)" if "i < length blocks" for c i
  proof -
    have "i * 4096 < 2 ^ 64" using block_end [OF that] assms by simp
    then show ?thesis
      by (simp add: write_image_block_def usize_mul_def chunk_def io_bind_def io_lift_def)
  qed
  have "[0..<length blocks] = 0 # [1..<length blocks]"
    using Cons upt_conv_Cons [of 0 "length blocks"] by (simp del: upt_Suc)
  then have "region_writes blocks img =
      map (\<lambda>i. (blocks ! i, chunk img i)) (rev [1..<length blocks]) @ [(b, chunk img 0)]"
    using Cons by (simp add: region_writes_def del: upt_Suc)
  moreover have "io_iter (\<lambda>i. write_image_block D (blocks ! i) img i) is =
      io_iter (\<lambda>(b, x). write_block D b x) (map (\<lambda>i. (blocks ! i, chunk img i)) is)"
    if "\<forall>i \<in> set is. i < length blocks" for "is"
    using that by (induction "is") (simp_all add: one)
  moreover have "\<forall>i \<in> set (rev [1..<length blocks]). i < length blocks" by simp
  moreover have "write_region_blocks D blocks img =
      io_bind (io_iter (\<lambda>i. write_image_block D (blocks ! i) img i) (rev [1..<length blocks]))
        (\<lambda>_. write_block D b (chunk img 0))"
    using Cons one [of 0 b] by (simp add: write_region_blocks_def del: upt_Suc)
  ultimately show ?thesis
    by (simp only: write_all_def io_iter_snoc prod.case)
qed

section \<open>What the contract gives\<close>

context block_dev
begin

lemma read_region_wp:
  assumes "at n v u d" and "length blocks * 4096 < 2 ^ 64"
  shows "wp (read_region_blocks D err blocks (length blocks * 4096))
    (\<lambda>img d'. at n v u d' \<and> img = region_bytes v blocks \<and> list_all (\<lambda>b. b < n) blocks)
    (\<lambda>_ d'. at n v u d' \<and> \<not> list_all (\<lambda>b. b < n) blocks) d"
proof -
  let ?n = "length blocks"
  let ?I = "\<lambda>done img d'. at n v u d' \<and> list_all (\<lambda>b. b < n) (map snd done) \<and>
    img = region_bytes v (map snd done) @ replicate ((?n - length done) * 4096) 0"
  have "wp (read_region_blocks D err blocks (?n * 4096)) (?I (enumerate 0 blocks))
      (\<lambda>_ d'. at n v u d' \<and> \<not> list_all (\<lambda>b. b < n) blocks) d"
    unfolding read_region_blocks_def
  proof (rule wp_fold_inv)
    show "?I [] (replicate (?n * 4096) 0) d"
      using assms(1) by (simp add: region_bytes_def)
  next
    fix pre x post img d1
    assume split: "enumerate 0 blocks = pre @ x # post" and I: "?I pre img d1"
    have len: "length pre < ?n" using arg_cong [OF split, of length] by simp
    have x: "x = (length pre, blocks ! length pre)"
      using arg_cong [OF split, of "\<lambda>xs. xs ! length pre"] len by (simp add: nth_enumerate_eq)
    have off: "usize_mul (length pre) BLOCK_SIZE = Some (length pre * 4096)"
      using block_end [OF len] assms(2) by (simp add: usize_mul_def)
    have read: "length (region_bytes v (map snd pre)) = length pre * 4096"
      using length_region_bytes [of "map snd pre" v] I view_length [OF assms(1)]
      by (auto simp: list_all_iff)
    have rest: "(?n - length pre) * 4096 = 4096 + (?n - Suc (length pre)) * 4096"
      using len by (simp add: Suc_diff_Suc [symmetric])
    have d1: "at n v u d1" using I by simp
    have "wp (read_block D (blocks ! length pre))
        (\<lambda>data d'. ?I (pre @ [x]) (copy_slice img (length pre * 4096) data) d')
        (\<lambda>_ d'. at n v u d' \<and> \<not> list_all (\<lambda>b. b < n) blocks) d1"
      by (rule wp_mono [OF read_law [OF d1]])
        (use I x nth_mem [OF len] read rest view_length [OF d1, of "blocks ! length pre"] in
          \<open>auto simp: region_bytes_def copy_slice_def list_all_iff\<close>)
    then show "wp ((case x of (index, b) \<Rightarrow> \<lambda>img.
          io_bind (io_lift (ok_or err (usize_mul index BLOCK_SIZE))) (\<lambda>start.
          io_bind (read_block D b) (\<lambda>data. io_return (copy_slice img start data)))) img)
        (?I (pre @ [x])) (\<lambda>_ d'. at n v u d' \<and> \<not> list_all (\<lambda>b. b < n) blocks) d1"
      unfolding x prod.case off by (simp add: wp_simps)
  qed
  then show ?thesis by (rule wp_mono) simp_all
qed

lemma write_all_wp:
  assumes "at n v u d" and "\<forall>(b, x) \<in> set ws. length x = BLOCK_SIZE"
  shows "wp (write_all D ws)
    (\<lambda>_ d'. at n (apply_writes ws v id) u d' \<and> list_all (\<lambda>(b, x). b < n) ws)
    (\<lambda>_ d'. (\<exists>k. at n (apply_writes (take k ws) v id) u d') \<and>
       (list_all (\<lambda>(b, x). b < n) ws \<longrightarrow> faulty)) d"
proof -
  let ?I = "\<lambda>done d'. at n (apply_writes done v id) u d' \<and> list_all (\<lambda>(b, x). b < n) done"
  show ?thesis
    unfolding write_all_def
  proof (rule wp_iter_inv [where I = ?I])
    show "?I [] d" using assms(1) by simp
  next
    fix pre w post d1
    assume split: "ws = pre @ w # post" and I: "?I pre d1"
    obtain b x where w: "w = (b, x)" by (cases w)
    have d1: "at n (apply_writes pre v id) u d1" "length x = BLOCK_SIZE"
      using I assms(2) split w by auto
    show "wp (case w of (b, x) \<Rightarrow> write_block D b x) (\<lambda>_. ?I (pre @ [w]))
        (\<lambda>_ d'. (\<exists>k. at n (apply_writes (take k ws) v id) u d') \<and>
          (list_all (\<lambda>(b, x). b < n) ws \<longrightarrow> faulty)) d1"
      unfolding w prod.case
      by (rule wp_mono [OF write_law [OF d1]])
        (use I split w in \<open>auto simp: apply_writes_append intro: exI [of _ "length pre"]\<close>)
  qed
qed

lemma write_flush_wp:
  assumes "at n v u d" and "\<forall>(b, x) \<in> set ws. length x = BLOCK_SIZE"
  shows "wp (io_bind (write_all D ws) (\<lambda>_. flush D))
    (\<lambda>_ d'. at n (apply_writes ws v id) (if syncs then apply_writes ws v id else u) d' \<and>
       list_all (\<lambda>(b, x). b < n) ws)
    (\<lambda>_ d'. (\<exists>k. at n (apply_writes (take k ws) v id) u d') \<and>
       (list_all (\<lambda>(b, x). b < n) ws \<longrightarrow> faulty)) d"
  unfolding wp_bind
  by (rule wp_mono [OF write_all_wp [OF assms]])
    (auto intro!: wp_mono [OF flush_law] exI [of _ "length ws"])

end

end
