(* ===== verification/FS_Journal.thy ===== *)
theory FS_Journal
  imports FS_Region
begin

text \<open>
  The logical write-ahead log, \<^verbatim>\<open>src/journal.rs\<close>: journal entries, the log a running
  file system appends to, and the replay of a durable image into a map of home blocks.
  \<open>committed\<close> is the abstract meaning of an image, the writes of its committed transactions in
  log order; replay is shown to apply exactly these. \<open>log_step\<close> is the state machine of the log
  handle, and a crash prefix of a log built from whole transactions exposes a prefix of them.
\<close>

section \<open>Entries and images\<close>

datatype journal_entry =
    Begin u64
  | Write u64 u64 bytes
  | Commit u64

record journal_image =
  image_entries :: "journal_entry list"

type_synonym home_map = "u64 \<rightharpoonup> bytes"

record replay_state =
  rp_active :: "u64 option"
  rp_pending :: writes
  rp_replayed :: nat

definition home_insert :: "u64 \<times> bytes \<Rightarrow> (home_map, unit) io" where
  "home_insert w = (\<lambda>home. (Inr (), home(fst w \<mapsto> snd w)))"

fun replay_step :: "journal_entry \<Rightarrow> replay_state \<Rightarrow> (home_map, replay_state) io" where
  "replay_step (Begin txid) st =
     (if rp_active st \<noteq> None then io_fail InvalidData
      else io_return (st\<lparr>rp_active := Some txid, rp_pending := []\<rparr>))"
| "replay_step (Write txid b data) st =
     (if rp_active st \<noteq> Some txid then io_fail InvalidData
      else io_return (st\<lparr>rp_pending := rp_pending st @ [(b, data)]\<rparr>))"
| "replay_step (Commit txid) st =
     (if rp_active st \<noteq> Some txid then io_fail InvalidData
      else
        io_bind (io_iter home_insert (rp_pending st)) (\<lambda>_.
        io_bind (io_lift (ok_or InvalidData (usize_add (rp_replayed st) 1))) (\<lambda>n.
          io_return (st\<lparr>rp_pending := [], rp_active := None, rp_replayed := n\<rparr>))))"

definition replay_into :: "journal_image \<Rightarrow> (home_map, nat) io" where
  "replay_into img =
     io_bind
       (io_fold replay_step (image_entries img)
          \<lparr>rp_active = None, rp_pending = [], rp_replayed = 0\<rparr>)
       (\<lambda>st. io_return (rp_replayed st))"

definition image_validate :: "journal_image \<Rightarrow> unit res" where
  "image_validate img =
     (case replay_into img Map.empty of (Inl e, _) \<Rightarrow> Inl e | (Inr _, _) \<Rightarrow> Inr ())"

section \<open>The log handle\<close>

record journal_log =
  log_entries :: "journal_entry list"
  log_active :: "u64 option"
  next_txid :: u64

definition log_new :: journal_log where
  "log_new = \<lparr>log_entries = [], log_active = None, next_txid = 0\<rparr>"

definition require_active :: "u64 \<Rightarrow> journal_log \<Rightarrow> unit res" where
  "require_active txid log = (if log_active log \<noteq> Some txid then Inl InvalidInput else Inr ())"

definition log_begin :: "(journal_log, u64) io" where
  "log_begin = (\<lambda>log.
     if log_active log \<noteq> None then (Inl WouldBlock, log)
     else
       (let txid = next_txid log in
        case checked_add txid 1 of
          None \<Rightarrow> (Inl OtherError, log)
        | Some n \<Rightarrow>
            (Inr txid,
             log\<lparr>next_txid := n, log_entries := log_entries log @ [Begin txid],
                 log_active := Some txid\<rparr>)))"

definition log_write :: "u64 \<Rightarrow> u64 \<Rightarrow> bytes \<Rightarrow> (journal_log, unit) io" where
  "log_write txid b data =
     io_bind (io_look (require_active txid)) (\<lambda>_ log.
       (Inr (), log\<lparr>log_entries := log_entries log @ [Write txid b data]\<rparr>))"

definition log_commit :: "u64 \<Rightarrow> (journal_log, unit) io" where
  "log_commit txid =
     io_bind (io_look (require_active txid)) (\<lambda>_ log.
       (Inr (), log\<lparr>log_entries := log_entries log @ [Commit txid], log_active := None\<rparr>))"

definition crash_prefix :: "journal_log \<Rightarrow> nat \<Rightarrow> journal_image res" where
  "crash_prefix log n =
     (if n > length (log_entries log) then Inl InvalidInput
      else Inr \<lparr>image_entries = take n (log_entries log)\<rparr>)"

definition durable_image :: "journal_log \<Rightarrow> journal_image" where
  "durable_image log = \<lparr>image_entries = log_entries log\<rparr>"

section \<open>What an image means\<close>

text \<open>Begin, writes and commit alternate, with one identifier per transaction.\<close>

fun tx_ordered :: "u64 option \<Rightarrow> journal_entry list \<Rightarrow> bool" where
  "tx_ordered act [] = True"
| "tx_ordered act (Begin txid # es) = (act = None \<and> tx_ordered (Some txid) es)"
| "tx_ordered act (Write txid b data # es) = (act = Some txid \<and> tx_ordered act es)"
| "tx_ordered act (Commit txid # es) = (act = Some txid \<and> tx_ordered None es)"

text \<open>The writes of the committed transactions, in log order.\<close>

fun committed :: "writes \<Rightarrow> journal_entry list \<Rightarrow> writes" where
  "committed pend [] = []"
| "committed pend (Begin txid # es) = committed [] es"
| "committed pend (Write txid b data # es) = committed (pend @ [(b, data)]) es"
| "committed pend (Commit txid # es) = pend @ committed [] es"

fun is_commit :: "journal_entry \<Rightarrow> bool" where
  "is_commit (Commit txid) = True"
| "is_commit _ = False"

definition commits :: "journal_entry list \<Rightarrow> nat" where
  "commits es = length (filter is_commit es)"

text \<open>One transaction as it is recorded, and the log of a sequence of transactions.\<close>

definition tx_entries :: "u64 \<Rightarrow> writes \<Rightarrow> journal_entry list" where
  "tx_entries txid ws = Begin txid # map (\<lambda>(b, x). Write txid b x) ws @ [Commit txid]"

fun history :: "u64 \<Rightarrow> writes list \<Rightarrow> journal_entry list" where
  "history txid [] = []"
| "history txid (ws # txs) = tx_entries txid ws @ history (txid + 1) txs"

definition log_tx :: "writes \<Rightarrow> (journal_log, unit) io" where
  "log_tx ws =
     io_bind log_begin (\<lambda>txid.
     io_bind (io_iter (\<lambda>(b, x). log_write txid b x) ws) (\<lambda>_. log_commit txid))"

section \<open>The state machine of the log handle\<close>

inductive log_step :: "journal_log \<Rightarrow> journal_log \<Rightarrow> bool" where
  step_begin: "log_begin l = (r, l') \<Longrightarrow> log_step l l'"
| step_write: "length data = BLOCK_SIZE \<Longrightarrow> log_write txid b data l = (r, l') \<Longrightarrow> log_step l l'"
| step_commit: "log_commit txid l = (r, l') \<Longrightarrow> log_step l l'"

inductive log_reachable :: "journal_log \<Rightarrow> bool" where
  reach_new: "log_reachable log_new"
| reach_step: "log_reachable l \<Longrightarrow> log_step l l' \<Longrightarrow> log_reachable l'"

inductive_cases log_stepE: "log_step l l'"

text \<open>The open transaction after a sequence of entries.\<close>

fun open_tx :: "u64 option \<Rightarrow> journal_entry list \<Rightarrow> u64 option" where
  "open_tx act [] = act"
| "open_tx act (Begin txid # es) = open_tx (Some txid) es"
| "open_tx act (Write txid b data # es) = open_tx act es"
| "open_tx act (Commit txid # es) = open_tx None es"

fun begin_ids :: "journal_entry list \<Rightarrow> u64 list" where
  "begin_ids [] = []"
| "begin_ids (Begin txid # es) = txid # begin_ids es"
| "begin_ids (Write txid b data # es) = begin_ids es"
| "begin_ids (Commit txid # es) = begin_ids es"

definition log_inv :: "journal_log \<Rightarrow> bool" where
  "log_inv l \<longleftrightarrow>
     tx_ordered None (log_entries l) \<and> open_tx None (log_entries l) = log_active l \<and>
     begin_ids (log_entries l) = map word_of_nat [0..<unat (next_txid l)]"

section \<open>Ordering\<close>

lemma tx_ordered_append:
  "tx_ordered act (xs @ ys) \<longleftrightarrow> tx_ordered act xs \<and> tx_ordered (open_tx act xs) ys"
  by (induction act xs rule: tx_ordered.induct) auto

lemma open_tx_append: "open_tx act (xs @ ys) = open_tx (open_tx act xs) ys"
  by (induction act xs rule: open_tx.induct) simp_all

lemma begin_ids_append: "begin_ids (xs @ ys) = begin_ids xs @ begin_ids ys"
  by (induction xs rule: begin_ids.induct) simp_all

lemma tx_ordered_take: "tx_ordered act es \<Longrightarrow> tx_ordered act (take n es)"
  by (metis append_take_drop_id tx_ordered_append)

lemma commits_simps [simp]:
  "commits [] = 0" "commits (Begin t # es) = commits es" "commits (Write t b x # es) = commits es"
  "commits (Commit t # es) = Suc (commits es)"
  by (simp_all add: commits_def)

lemma commits_le_length: "commits es \<le> length es"
  by (simp add: commits_def)

lemma commits_append: "commits (xs @ ys) = commits xs + commits ys"
  by (simp add: commits_def)

section \<open>Replay applies the committed writes\<close>

lemma home_insert_iter:
  "io_iter home_insert ws home = (Inr (), apply_writes ws home Some)"
proof (induction ws arbitrary: home)
  case Nil
  then show ?case by (simp add: io_simps)
next
  case (Cons w ws)
  then show ?case
    by (cases w) (simp add: io_bind_def home_insert_def)
qed

lemma replay_fold:
  assumes "tx_ordered (rp_active st) es" and "rp_replayed st + commits es < 2 ^ 64"
    and "rp_active st = None \<Longrightarrow> rp_pending st = []"
  shows "\<exists>st'. io_fold replay_step es st home =
      (Inr st', apply_writes (committed (rp_pending st) es) home Some) \<and>
      rp_replayed st' = rp_replayed st + commits es"
  using assms
proof (induction es arbitrary: st home)
  case Nil
  then show ?case by (simp add: io_simps)
next
  case (Cons e es)
  show ?case
  proof (cases e)
    case (Begin txid)
    then show ?thesis
      using Cons.IH [of "st\<lparr>rp_active := Some txid, rp_pending := []\<rparr>" home] Cons.prems
      by (simp add: io_bind_def io_return_def)
  next
    case (Write txid b data)
    then show ?thesis
      using Cons.IH [of "st\<lparr>rp_pending := rp_pending st @ [(b, data)]\<rparr>" home] Cons.prems
      by (auto simp: io_bind_def io_return_def)
  next
    case (Commit txid)
    have "usize_add (rp_replayed st) 1 = Some (rp_replayed st + 1)"
      using Cons.prems(2) Commit by (simp add: usize_add_Some_iff)
    then show ?thesis
      using Commit Cons.prems
        Cons.IH [of "st\<lparr>rp_pending := [], rp_active := None, rp_replayed := rp_replayed st + 1\<rparr>"
          "apply_writes (rp_pending st) home Some"]
      by (simp add: io_bind_def io_return_def io_lift_def home_insert_iter apply_writes_append)
  qed
qed

lemma replay_into_ordered:
  assumes "tx_ordered None es" and "length es < 2 ^ 64"
  shows "replay_into \<lparr>image_entries = es\<rparr> home =
    (Inr (commits es), apply_writes (committed [] es) home Some)"
proof -
  let ?st = "\<lparr>rp_active = None, rp_pending = [], rp_replayed = 0\<rparr>"
  have "rp_replayed ?st + commits es < 2 ^ 64"
    using assms(2) commits_le_length [of es] by simp
  then obtain st' where "io_fold replay_step es ?st home =
      (Inr st', apply_writes (committed [] es) home Some)" and "rp_replayed st' = commits es"
    using replay_fold [of ?st es home] assms(1) by auto
  then show ?thesis by (simp add: replay_into_def io_bind_def io_return_def)
qed

lemma replay_fold_unordered:
  assumes "\<not> tx_ordered (rp_active st) es"
  shows "\<exists>home'. io_fold replay_step es st home = (Inl InvalidData, home')"
  using assms
proof (induction es arbitrary: st home)
  case Nil
  then show ?case by simp
next
  case (Cons e es)
  show ?case
  proof (cases e)
    case (Begin txid)
    then show ?thesis
      using Cons by (auto simp: io_bind_def io_return_def io_fail_def)
  next
    case (Write txid b data)
    then show ?thesis
      using Cons by (auto simp: io_bind_def io_return_def io_fail_def)
  next
    case (Commit txid)
    then show ?thesis
      using Cons.prems
        Cons.IH [of "st\<lparr>rp_pending := [], rp_active := None, rp_replayed := rp_replayed st + 1\<rparr>"
          "apply_writes (rp_pending st) home Some"]
      by (auto simp: io_bind_def io_return_def io_fail_def io_lift_def home_insert_iter usize_add_def
          ok_or_def)
  qed
qed

section \<open>Reachable logs\<close>

lemma log_inv_new: "log_inv log_new"
  by (simp add: log_inv_def log_new_def)

lemma log_begin_inv: "log_inv l \<Longrightarrow> log_begin l = (r, l') \<Longrightarrow> log_inv l'"
  by (auto simp: log_begin_def log_inv_def Let_def tx_ordered_append open_tx_append begin_ids_append
      checked_add_def unat_add_no_overflow split: if_splits option.splits)

lemma log_write_inv: "log_inv l \<Longrightarrow> log_write txid b x l = (r, l') \<Longrightarrow> log_inv l'"
  by (auto simp: log_write_def log_inv_def require_active_def io_bind_def io_look_def
      tx_ordered_append open_tx_append begin_ids_append split: if_splits)

lemma log_commit_inv: "log_inv l \<Longrightarrow> log_commit txid l = (r, l') \<Longrightarrow> log_inv l'"
  by (auto simp: log_commit_def log_inv_def require_active_def io_bind_def io_look_def
      tx_ordered_append open_tx_append begin_ids_append split: if_splits)

lemma log_step_inv: "log_step l l' \<Longrightarrow> log_inv l \<Longrightarrow> log_inv l'"
  by (auto elim!: log_stepE intro: log_begin_inv log_write_inv log_commit_inv)

lemma log_reachable_inv: "log_reachable l \<Longrightarrow> log_inv l"
  by (induction rule: log_reachable.induct) (auto intro: log_inv_new log_step_inv)

section \<open>Histories of whole transactions\<close>

lemma tx_ordered_writes:
  "tx_ordered (Some txid) (map (\<lambda>(b, x). Write txid b x) ws @ es) = tx_ordered (Some txid) es"
  by (induction ws) auto

lemma tx_ordered_tx_entries: "tx_ordered None (tx_entries txid ws @ es) = tx_ordered None es"
  by (simp add: tx_entries_def tx_ordered_writes)

lemma committed_writes:
  "committed pend (map (\<lambda>(b, x). Write txid b x) ws @ es) = committed (pend @ ws) es"
  by (induction ws arbitrary: pend) auto

lemma committed_tx_entries: "committed pend (tx_entries txid ws @ es) = ws @ committed [] es"
  by (simp add: tx_entries_def committed_writes)

lemma tx_ordered_history: "tx_ordered None (history txid txs)"
  by (induction txs arbitrary: txid) (simp_all add: tx_ordered_tx_entries)

lemma committed_tx_prefix:
  assumes "n \<le> length ws + 1"
  shows "committed pend (take n (tx_entries txid ws)) = []"
proof (cases n)
  case 0
  then show ?thesis by simp
next
  case (Suc k)
  then have "take n (tx_entries txid ws) = Begin txid # map (\<lambda>(b, x). Write txid b x) (take k ws)"
    using assms by (simp add: tx_entries_def take_map)
  then show ?thesis
    using committed_writes [of "[]" txid "take k ws" "[]"] by simp
qed

lemma commits_map_Write [simp]: "commits (map (\<lambda>(b, x). Write txid b x) ws @ es) = commits es"
  by (induction ws) auto

lemma commits_tx_prefix:
  assumes "n \<le> length ws + 1"
  shows "commits (take n (tx_entries txid ws)) = 0"
proof (cases n)
  case 0
  then show ?thesis by simp
next
  case (Suc k)
  then have "take n (tx_entries txid ws) = Begin txid # map (\<lambda>(b, x). Write txid b x) (take k ws)"
    using assms by (simp add: tx_entries_def take_map)
  then show ?thesis using commits_map_Write [of txid "take k ws" "[]"] by simp
qed

lemma commits_tx_entries: "commits (tx_entries txid ws @ es) = Suc (commits es)"
  by (simp add: tx_entries_def)

lemma length_tx_entries: "length (tx_entries txid ws) = length ws + 2"
  by (simp add: tx_entries_def)

lemma history_prefix:
  "\<exists>m \<le> length txs. committed [] (take n (history txid txs)) = concat (take m txs) \<and>
     commits (take n (history txid txs)) = m \<and>
     length (history txid (take m txs)) \<le> n \<and>
     (m < length txs \<longrightarrow> n < length (history txid (take (Suc m) txs)))"
proof (induction txs arbitrary: txid n)
  case Nil
  then show ?case by simp
next
  case (Cons ws txs)
  show ?case
  proof (cases "n < length ws + 2")
    case True
    then have "committed [] (take n (history txid (ws # txs))) = []"
      "commits (take n (history txid (ws # txs))) = 0"
      using committed_tx_prefix [of n ws "[]" txid] commits_tx_prefix [of n ws txid]
      by (simp_all add: length_tx_entries)
    then show ?thesis
      using True by (intro exI [of _ 0]) (simp add: length_tx_entries)
  next
    case False
    let ?k = "n - (length ws + 2)"
    have "committed [] (take n (history txid (ws # txs))) =
        ws @ committed [] (take ?k (history (txid + 1) txs))"
      "commits (take n (history txid (ws # txs))) = Suc (commits (take ?k (history (txid + 1) txs)))"
      using False by (simp_all add: length_tx_entries committed_tx_entries commits_tx_entries)
    moreover obtain m where "m \<le> length txs"
      "committed [] (take ?k (history (txid + 1) txs)) = concat (take m txs)"
      "commits (take ?k (history (txid + 1) txs)) = m"
      "length (history (txid + 1) (take m txs)) \<le> ?k"
      "m < length txs \<longrightarrow> ?k < length (history (txid + 1) (take (Suc m) txs))"
      using Cons.IH [of ?k "txid + 1"] by blast
    ultimately show ?thesis
      using False by (intro exI [of _ "Suc m"]) (auto simp: length_tx_entries)
  qed
qed

lemma log_write_iter:
  assumes "log_active l = Some txid"
  shows "io_iter (\<lambda>(b, x). log_write txid b x) ws l =
    (Inr (), l\<lparr>log_entries := log_entries l @ map (\<lambda>(b, x). Write txid b x) ws\<rparr>)"
  using assms
proof (induction ws arbitrary: l)
  case Nil
  then show ?case by (simp add: io_return_def)
next
  case (Cons w ws)
  then show ?case
    by (cases w) (simp add: io_bind_def log_write_def io_look_def require_active_def)
qed

lemma log_tx_eq:
  assumes "log_active l = None" and "unat (next_txid l) + 1 < 2 ^ 64"
  shows "log_tx ws l =
    (Inr (), l\<lparr>log_entries := log_entries l @ tx_entries (next_txid l) ws,
               next_txid := next_txid l + 1\<rparr>)"
proof -
  have "checked_add (next_txid l) 1 = Some (next_txid l + 1)"
    using assms(2) by (simp add: checked_add_def)
  with assms(1) show ?thesis
    by (cases l) (simp add: log_tx_def io_bind_def log_begin_def log_write_iter log_commit_def
        io_look_def require_active_def tx_entries_def Let_def)
qed

lemma log_txs_history:
  assumes "log_active l = None" and "unat (next_txid l) + length txs < 2 ^ 64"
  shows "io_iter log_tx txs l =
    (Inr (), l\<lparr>log_entries := log_entries l @ history (next_txid l) txs,
               next_txid := next_txid l + word_of_nat (length txs)\<rparr>)"
  using assms
proof (induction txs arbitrary: l)
  case Nil
  then show ?case by (simp add: io_return_def)
next
  case (Cons ws txs)
  have "unat (next_txid l + 1) = unat (next_txid l) + 1"
    using Cons.prems(2) by (simp add: unat_add_no_overflow)
  then show ?case
    using Cons.prems Cons.IH [of "l\<lparr>log_entries := log_entries l @ tx_entries (next_txid l) ws,
               next_txid := next_txid l + 1\<rparr>"]
    by (simp add: io_bind_def log_tx_eq ac_simps)
qed

section \<open>Properties\<close>

text \<open>C34. Replaying a journal image. It succeeds exactly when begin, write and commit records
  alternate with matching identifiers; it then returns the number of commit records and has
  applied to the home map the writes of the committed transactions, in log order and nothing
  else. A malformed image is refused with \<open>InvalidData\<close>.\<close>

theorem replay_into_correct:
  assumes "length es < 2 ^ 64"
  shows "(if tx_ordered None es
          then replay_into \<lparr>image_entries = es\<rparr> home =
            (Inr (commits es), apply_writes (committed [] es) home Some)
          else fst (replay_into \<lparr>image_entries = es\<rparr> home) = Inl InvalidData) \<and>
         (image_validate \<lparr>image_entries = es\<rparr> = Inr () \<longleftrightarrow> tx_ordered None es)"
proof (cases "tx_ordered None es")
  case True
  then show ?thesis
    using assms by (simp add: replay_into_ordered image_validate_def)
next
  case False
  have "fst (replay_into \<lparr>image_entries = es\<rparr> h) = Inl InvalidData" for h
    using False
      replay_fold_unordered [of "\<lparr>rp_active = None, rp_pending = [], rp_replayed = 0\<rparr>" es h]
    by (auto simp: replay_into_def io_bind_def)
  from this [of home] this [of Map.empty] False show ?thesis
    by (auto simp: image_validate_def split: prod.splits sum.splits)
qed

theorem replay_into_correct_witness:
  "replay_into \<lparr>image_entries =
      [Begin 0, Write 0 7 [1], Write 0 9 [2], Commit 0, Begin 1, Write 1 7 [3]]\<rparr> Map.empty =
    (Inr 1, [7 \<mapsto> [1], 9 \<mapsto> [2]])"
  using replay_into_correct
    [of "[Begin 0, Write 0 7 [1], Write 0 9 [2], Commit 0, Begin 1, Write 1 7 [3]]" Map.empty]
  by simp

text \<open>C35. The log handle's state machine. Whatever sequence of begin, write and commit calls a
  client makes, successful or refused, every crash prefix of the log is well ordered and
  replays without error, and transaction identifiers are handed out consecutively from zero.\<close>

theorem reachable_crash_prefix_replays:
  assumes "log_reachable l" and "n \<le> length (log_entries l)" and "n < 2 ^ 64"
  shows "begin_ids (log_entries l) = map word_of_nat [0..<unat (next_txid l)] \<and>
    (\<exists>img. crash_prefix l n = Inr img \<and> image_validate img = Inr () \<and>
      replay_into img home =
        (Inr (commits (take n (log_entries l))),
         apply_writes (committed [] (take n (log_entries l))) home Some))"
proof -
  have inv: "log_inv l" using assms(1) by (rule log_reachable_inv)
  then have "tx_ordered None (take n (log_entries l))"
    by (simp add: log_inv_def tx_ordered_take)
  then have "replay_into \<lparr>image_entries = take n (log_entries l)\<rparr> h =
      (Inr (commits (take n (log_entries l))),
       apply_writes (committed [] (take n (log_entries l))) h Some)" for h
    using assms by (simp add: replay_into_ordered)
  with inv assms(2) show ?thesis by (simp add: crash_prefix_def image_validate_def log_inv_def)
qed

theorem reachable_crash_prefix_replays_witness:
  "\<exists>img. crash_prefix (snd (log_begin log_new)) 1 = Inr img \<and> image_validate img = Inr ()"
proof -
  have "log_reachable (snd (log_begin log_new))"
    by (rule reach_step [OF reach_new step_begin]) (rule prod.collapse [symmetric])
  moreover have "length (log_entries (snd (log_begin log_new))) = 1"
    by (simp add: log_begin_def log_new_def checked_add_def Let_def)
  ultimately show ?thesis
    using reachable_crash_prefix_replays [of "snd (log_begin log_new)" 1] by auto
qed

text \<open>C36. Atomic transactions. When a new log records a sequence of whole transactions, the
  crash prefix of any length replays to exactly the first \<open>m\<close> of them, where \<open>m\<close> counts the
  transactions whose commit record lies inside the prefix: no transaction is applied in part,
  none is skipped, and none is applied before an earlier one.\<close>

theorem crash_prefix_atomic:
  assumes "length txs < 2 ^ 64" and "io_iter log_tx txs log_new = (r, l)"
    and "n \<le> length (log_entries l)" and "n < 2 ^ 64"
  shows "r = Inr () \<and>
    (\<exists>m img. m \<le> length txs \<and> crash_prefix l n = Inr img \<and>
      replay_into img home = (Inr m, apply_writes (concat (take m txs)) home Some) \<and>
      length (history 0 (take m txs)) \<le> n \<and>
      (m < length txs \<longrightarrow> n < length (history 0 (take (Suc m) txs))))"
proof -
  have l: "r = Inr ()" "log_entries l = history 0 txs"
    using log_txs_history [of log_new txs] assms(1,2) by (auto simp: log_new_def)
  obtain m where m: "m \<le> length txs" "committed [] (take n (history 0 txs)) = concat (take m txs)"
    "commits (take n (history 0 txs)) = m" "length (history 0 (take m txs)) \<le> n"
    "m < length txs \<longrightarrow> n < length (history 0 (take (Suc m) txs))"
    using history_prefix [of txs n 0] by blast
  have "replay_into \<lparr>image_entries = take n (history 0 txs)\<rparr> home =
      (Inr m, apply_writes (concat (take m txs)) home Some)"
    using m assms(4) by (simp add: replay_into_ordered tx_ordered_take tx_ordered_history)
  with l m assms(3) show ?thesis by (auto simp: crash_prefix_def)
qed

theorem crash_prefix_atomic_witness:
  "\<exists>m img. crash_prefix (snd (io_iter log_tx [[(7, [1])], [(7, [2]), (8, [3])]] log_new)) 4
      = Inr img \<and>
    replay_into img Map.empty =
      (Inr m, apply_writes (concat (take m [[(7, [1])], [(7, [2]), (8, [3])]])) Map.empty Some)"
proof -
  let ?txs = "[[(7, [1])], [(7, [2]), (8, [3])]] :: writes list"
  have len: "4 \<le> length (log_entries (snd (io_iter log_tx ?txs log_new)))"
    by (simp add: log_txs_history log_new_def tx_entries_def del: io_iter.simps)
  have bounds: "length ?txs < 2 ^ 64" "4 < (2 :: nat) ^ 64" by simp_all
  show ?thesis
    using crash_prefix_atomic [OF bounds(1) prod.collapse [symmetric] len bounds(2), of Map.empty]
    by blast
qed

end
