(* ===== verification/FS_Checksum.thy ===== *)
theory FS_Checksum
  imports FS_Prelude
begin

text \<open>
  The IEEE CRC-32 of the on-disk records. The sources repeat the same bitwise loop in every
  codec: \<^verbatim>\<open>crc32\<close> over a plain byte string (journal records, journal region,
  allocation bitmap), and a variant that reads the four bytes of the stored checksum as zero
  (\<^verbatim>\<open>record_crc\<close> of inode and directory records, \<^verbatim>\<open>crc32\<close> of the
  table images). The lemmas show that the register update is a bijection, so two strings of
  the same length that differ in exactly one byte never have the same checksum.
\<close>

section \<open>The loop\<close>

definition crc_bit :: "u32 \<Rightarrow> u32" where
  "crc_bit crc =
     (let mask = 0 - (crc AND 1) in drop_bit 1 crc XOR (0xedb88320 AND mask))"

definition crc_byte :: "u32 \<Rightarrow> u8 \<Rightarrow> u32" where
  "crc_byte crc b = (crc_bit ^^ 8) (crc XOR ucast b)"

definition crc32 :: "bytes \<Rightarrow> u32" where
  "crc32 bs = NOT (foldl crc_byte 0xffffffff bs)"

fun crc_skip_loop :: "nat \<Rightarrow> nat \<Rightarrow> u32 \<Rightarrow> bytes \<Rightarrow> u32" where
  "crc_skip_loop off i crc [] = crc"
| "crc_skip_loop off i crc (b # bs) =
     (let value = (if off \<le> i \<and> i < off + 4 then 0 else b)
      in crc_skip_loop off (Suc i) (crc_byte crc value) bs)"

definition crc32_skip :: "nat \<Rightarrow> bytes \<Rightarrow> u32" where
  "crc32_skip off bs = NOT (crc_skip_loop off 0 0xffffffff bs)"

section \<open>Skipping the checksum field\<close>

lemma crc_skip_loop_outside:
  "off + 4 \<le> i \<or> i + length bs \<le> off \<Longrightarrow> crc_skip_loop off i crc bs = foldl crc_byte crc bs"
  by (induction bs arbitrary: i crc) auto

lemma crc_skip_loop_append:
  "crc_skip_loop off i crc (xs @ ys) =
   crc_skip_loop off (i + length xs) (crc_skip_loop off i crc xs) ys"
  by (induction xs arbitrary: i crc) simp_all

lemma crc_skip_loop_field:
  "length f = 4 \<Longrightarrow> crc_skip_loop off off crc f = foldl crc_byte crc (replicate 4 0)"
  by (auto simp: length_Suc_conv numeral_eq_Suc)

text \<open>The skipping loop computes the checksum of the string with its field cleared.\<close>

lemma crc32_skip_eq:
  assumes "off + 4 \<le> length bs"
  shows "crc32_skip off bs = crc32 (copy_slice bs off (replicate 4 0))"
proof -
  let ?a = "take off bs" and ?f = "subslice bs off (off + 4)" and ?c = "drop (off + 4) bs"
  have bs: "bs = ?a @ ?f @ ?c"
    by (simp add: subslice_def) (metis append_take_drop_id drop_drop add.commute)
  have "crc_skip_loop off 0 crc (?a @ ?f @ ?c) =
      foldl crc_byte (foldl crc_byte (foldl crc_byte crc ?a) (replicate 4 0)) ?c" for crc
  proof -
    have 1: "crc_skip_loop off 0 crc ?a = foldl crc_byte crc ?a"
      by (rule crc_skip_loop_outside) simp
    have 2: "crc_skip_loop off off crc' ?f = foldl crc_byte crc' (replicate 4 0)" for crc'
      by (rule crc_skip_loop_field) (use assms in simp)
    have 3: "crc_skip_loop off (off + 4) crc' ?c = foldl crc_byte crc' ?c" for crc'
      by (rule crc_skip_loop_outside) simp
    show ?thesis
      using assms by (simp add: crc_skip_loop_append min_def 1 2 3)
  qed
  with bs show ?thesis
    by (simp add: crc32_skip_def crc32_def copy_slice_def)
qed

section \<open>The register update is injective\<close>

lemma mask_bit: "bit (0 - (c AND 1) :: u32) n \<longleftrightarrow> n < 32 \<and> bit c 0"
proof (cases "bit c 0")
  case True
  then have "c AND 1 = 1" by (simp add: bit_0 and_one_eq odd_iff_mod_2_eq_one)
  then show ?thesis using True by simp
next
  case False
  then have "c AND 1 = 0" by (simp add: bit_0 and_one_eq even_iff_mod_2_eq_zero)
  then show ?thesis using False by simp
qed

lemma bit_crc_bit:
  "bit (crc_bit c) n \<longleftrightarrow> (bit c (Suc n) \<noteq> (bit (0xedb88320 :: u32) n \<and> n < 32 \<and> bit c 0))"
  by (simp add: crc_bit_def Let_def bit_xor_iff bit_and_iff bit_drop_bit_eq mask_bit del: diff_0)

lemma crc_bit_inj: "inj crc_bit"
proof (rule injI)
  fix c c' :: u32
  assume eq: "crc_bit c = crc_bit c'"
  have top: "bit (0xedb88320 :: u32) 31" by simp
  have "\<not> bit c (Suc 31)" "\<not> bit c' (Suc 31)" by (auto dest: bit_imp_le_length)
  then have b0: "bit c 0 \<longleftrightarrow> bit c' 0"
    using arg_cong [OF eq, of "\<lambda>w. bit w 31"] top by (simp add: bit_crc_bit)
  have "bit c n \<longleftrightarrow> bit c' n" for n
  proof (cases n)
    case 0
    then show ?thesis using b0 by simp
  next
    case (Suc m)
    then show ?thesis
      using arg_cong [OF eq, of "\<lambda>w. bit w m"] b0 by (auto simp: bit_crc_bit)
  qed
  then show "c = c'" by (simp add: bit_eq_iff)
qed

lemma xor_right_cancel: "(a :: u32) XOR b = c XOR b \<longleftrightarrow> a = c"
  by (auto simp: bit_eq_iff bit_xor_iff)

lemma xor_left_cancel: "(a :: u32) XOR b = a XOR c \<longleftrightarrow> b = c"
  by (auto simp: bit_eq_iff bit_xor_iff)

lemma ucast_u8_inj: "(ucast (a :: u8) :: u32) = ucast b \<longleftrightarrow> a = b"
proof
  assume eq: "(ucast a :: u32) = ucast b"
  have "unat (ucast w :: u32) = unat w" for w :: u8
    using unat_lt2p [of w] by (simp add: unsigned_ucast_eq take_bit_nat_eq_self)
  with arg_cong [OF eq, of unat] show "a = b" by (simp add: word_unat_eq_iff)
qed simp

lemma crc_byte_register_eq: "crc_byte c b = crc_byte c' b \<longleftrightarrow> c = c'"
  using inj_fn [OF crc_bit_inj, of 8]
  by (auto simp: crc_byte_def inj_eq xor_right_cancel)

lemma crc_byte_value_eq: "crc_byte c b = crc_byte c b' \<longleftrightarrow> b = b'"
  using inj_fn [OF crc_bit_inj, of 8]
  by (auto simp: crc_byte_def inj_eq xor_left_cancel ucast_u8_inj)

lemma crc_fold_register_eq: "foldl crc_byte c bs = foldl crc_byte c' bs \<longleftrightarrow> c = c'"
  by (induction bs arbitrary: c c') (simp_all add: crc_byte_register_eq)

lemma not_u32_eq: "NOT (a :: u32) = NOT b \<longleftrightarrow> a = b"
  by (metis bit.double_compl)

lemma crc32_append_byte_eq: "crc32 (xs @ a # ys) = crc32 (xs @ b # ys) \<longleftrightarrow> a = b"
  by (simp add: crc32_def not_u32_eq crc_fold_register_eq crc_byte_value_eq)

lemma crc32_update_eq:
  assumes "i < length bs"
  shows "crc32 (bs[i := v]) = crc32 bs \<longleftrightarrow> v = bs ! i"
  using assms crc32_append_byte_eq [of "take i bs" v "drop (Suc i) bs" "bs ! i"]
  by (simp add: upd_conv_take_nth_drop id_take_nth_drop [symmetric])

end
