(* ===== verification/FS_Records.thy ===== *)
theory FS_Records
  imports FS_Checksum
begin

text \<open>
  Streams of self-delimiting records. The journal payload, the inode table and the directory
  table are each a concatenation of records, scanned by the same kind of loop: decode the
  record at the cursor, check it against the records already read, advance. The locale states
  what one record's codec promises and proves once what a scan of a whole stream does: it
  reads back what was concatenated, accepts nothing but such concatenations, and on a truncated
  stream it fails or returns a prefix.
\<close>

locale record_stream =
  fixes rec_bytes :: "'a \<Rightarrow> bytes"
    and rec_ok :: "'a \<Rightarrow> bool"
    and rec_step :: "bytes \<Rightarrow> nat \<Rightarrow> ('a \<times> nat) res"
    and accept :: "'a list \<Rightarrow> 'a \<Rightarrow> unit res"
    and scan :: "bytes \<Rightarrow> nat \<Rightarrow> 'a list \<Rightarrow> 'a list res"
  assumes step_record:
      "rec_ok x \<Longrightarrow> length (pre @ rec_bytes x) < 2 ^ 64 \<Longrightarrow>
       rec_step (pre @ rec_bytes x @ post) (length pre) =
         Inr (x, length pre + length (rec_bytes x))"
    and step_canonical:
      "rec_step bs c = Inr (x, e) \<Longrightarrow> c < length bs \<Longrightarrow>
       rec_ok x \<and> c < e \<and> e \<le> length bs \<and> subslice bs c e = rec_bytes x"
    and scan_eq:
      "scan bs c acc =
         (if c < length bs
          then bindR (rec_step bs c) (\<lambda>(x, e). bindR (accept acc x) (\<lambda>_. scan bs e (acc @ [x])))
          else Inr acc)"
begin

text \<open>Each record passes the check against the records before it.\<close>

fun accepted :: "'a list \<Rightarrow> 'a list \<Rightarrow> bool" where
  "accepted acc [] = True"
| "accepted acc (x # xs) = (accept acc x = Inr () \<and> accepted (acc @ [x]) xs)"

definition stream :: "'a list \<Rightarrow> bytes" where
  "stream xs = concat (map rec_bytes xs)"

lemma stream_simps [simp]: "stream [] = []" "stream (x # xs) = rec_bytes x @ stream xs"
  by (simp_all add: stream_def)

lemma record_nonempty:
  assumes "rec_ok x" and "length (rec_bytes x) < 2 ^ 64"
  shows "rec_bytes x \<noteq> []"
proof
  assume empty: "rec_bytes x = []"
  have "rec_step ([] @ rec_bytes x @ [0]) (length ([] :: bytes)) =
      Inr (x, length ([] :: bytes) + length (rec_bytes x))"
    by (rule step_record) (use assms in simp_all)
  then show False using step_canonical [of "[0]" 0 x 0] empty by simp
qed

lemma scan_stream:
  "list_all rec_ok xs \<Longrightarrow> accepted acc xs \<Longrightarrow> length (pre @ stream xs) < 2 ^ 64 \<Longrightarrow>
   scan (pre @ stream xs) (length pre) acc = Inr (acc @ xs)"
proof (induction xs arbitrary: pre acc)
  case Nil
  then show ?case by (simp add: scan_eq [of _ _ acc])
next
  case (Cons x xs)
  have "rec_bytes x \<noteq> []" using Cons.prems by (intro record_nonempty) simp_all
  then have "scan (pre @ stream (x # xs)) (length pre) acc =
      scan (pre @ stream (x # xs)) (length pre + length (rec_bytes x)) (acc @ [x])"
    using Cons.prems by (subst scan_eq) (simp add: step_record)
  also have "\<dots> = Inr (acc @ x # xs)"
    using Cons.IH [of "acc @ [x]" "pre @ rec_bytes x"] Cons.prems by simp
  finally show ?case .
qed

lemma scan_canonical:
  "scan bs c acc = Inr ys \<Longrightarrow> c \<le> length bs \<Longrightarrow>
   \<exists>xs. ys = acc @ xs \<and> list_all rec_ok xs \<and> accepted acc xs \<and> drop c bs = stream xs"
proof (induction "length bs - c" arbitrary: c acc rule: less_induct)
  case less
  show ?case
  proof (cases "c < length bs")
    case False
    then show ?thesis
      using less.prems scan_eq [of bs c acc] by (intro exI [of _ "[]"]) simp
  next
    case True
    then obtain x e where step: "rec_step bs c = Inr (x, e)" and acc: "accept acc x = Inr ()"
      and rest: "scan bs e (acc @ [x]) = Inr ys"
      using less.prems scan_eq [of bs c acc] by (auto simp: bindR_Inr_iff)
    have x: "rec_ok x" "c < e" "e \<le> length bs" "subslice bs c e = rec_bytes x"
      using step_canonical [OF step True] by simp_all
    have "length bs - e < length bs - c" using x(2,3) True by simp
    then obtain xs where xs: "ys = acc @ x # xs" "list_all rec_ok xs" "accepted (acc @ [x]) xs"
      "drop e bs = stream xs"
      using less.hyps [OF _ rest x(3)] by auto
    have "drop c bs = subslice bs c e @ drop e bs"
      using x(2,3) slice_split [of c e "length bs" bs] by (simp add: slice_to_end)
    with x xs acc show ?thesis by (intro exI [of _ "x # xs"]) simp
  qed
qed

lemma scan_iff:
  assumes "length bs < 2 ^ 64"
  shows "scan bs 0 [] = Inr xs \<longleftrightarrow> list_all rec_ok xs \<and> accepted [] xs \<and> bs = stream xs"
  using scan_canonical [of bs 0 "[]" xs] scan_stream [of xs "[]" "[]"] assms by auto

lemma record_prefix_free:
  assumes "rec_ok x" and "rec_ok y" and "length (rec_bytes x) < 2 ^ 64"
    and "length (rec_bytes y) < 2 ^ 64" and eq: "rec_bytes x @ p = rec_bytes y @ q"
  shows "x = y \<and> p = q"
proof -
  have "rec_step (rec_bytes x @ p) 0 = Inr (x, length (rec_bytes x))"
    "rec_step (rec_bytes y @ q) 0 = Inr (y, length (rec_bytes y))"
    using step_record [of x "[]" p] step_record [of y "[]" q] assms by simp_all
  with eq show ?thesis by auto
qed

text \<open>A truncated stream: the scan refuses it, or it was cut between two records.\<close>

lemma stream_prefix:
  "list_all rec_ok xs \<Longrightarrow> list_all rec_ok ys \<Longrightarrow> length (stream xs) < 2 ^ 64 \<Longrightarrow>
   stream ys @ rest = stream xs \<Longrightarrow> ys = take (length ys) xs"
proof (induction ys arbitrary: xs)
  case Nil
  then show ?case by simp
next
  case (Cons y ys)
  have len: "length (rec_bytes y) + length (stream ys) + length rest = length (stream xs)"
    using arg_cong [OF Cons.prems(4), of length] by simp
  then have "rec_bytes y \<noteq> []"
    using Cons.prems by (intro record_nonempty) simp_all
  then obtain x xs' where xs: "xs = x # xs'"
    using Cons.prems(4) by (cases xs) simp_all
  have "y = x \<and> stream ys @ rest = stream xs'"
    using Cons.prems len xs by (intro record_prefix_free) simp_all
  with Cons xs show ?case by simp
qed

lemma scan_torn:
  assumes "list_all rec_ok xs" and "length (stream xs) < 2 ^ 64"
    and "scan (take n (stream xs)) 0 [] = Inr ys"
  shows "ys = take (length ys) xs \<and> stream ys = take n (stream xs)"
proof -
  have ys: "list_all rec_ok ys" "take n (stream xs) = stream ys"
    using scan_canonical [OF assms(3)] by (simp_all del: take_append)
  have "stream ys @ drop n (stream xs) = stream xs"
    unfolding ys(2) [symmetric] by (rule append_take_drop_id)
  then have "ys = take (length ys) xs"
    by (rule stream_prefix [OF assms(1) ys(1) assms(2)])
  with ys(2) show ?thesis by (simp only: simp_thms)
qed

end

end
