(* ===== verification/FS_Journal_Codec.thy ===== *)
theory FS_Journal_Codec
  imports FS_Journal FS_Records
begin

text \<open>
  The persistent encoding of journal entries, \<^verbatim>\<open>src/journal_codec.rs\<close>: a 32-byte
  header (magic, version, kind, flags, record length, transaction, block, CRC-32) and, for a
  write, one block of payload. Encoding and decoding are inverse to each other in both
  directions, and a truncated stream is refused or cut at a record boundary.
\<close>

section \<open>The codec\<close>

definition RECORD_MAGIC :: bytes where
  "RECORD_MAGIC = [0x4a, 0x4e, 0x4c, 0x31]"

definition RECORD_VERSION :: u16 where
  "RECORD_VERSION = 1"

abbreviation (input) JREC_HEADER :: nat where
  "JREC_HEADER \<equiv> 32"

definition KIND_BEGIN :: u8 where "KIND_BEGIN = 1"
definition KIND_WRITE :: u8 where "KIND_WRITE = 2"
definition KIND_COMMIT :: u8 where "KIND_COMMIT = 3"

fun record_fields :: "journal_entry \<Rightarrow> u8 \<times> u64 \<times> u64 \<times> bytes" where
  "record_fields (Begin txid) = (KIND_BEGIN, txid, 0, [])"
| "record_fields (Write txid b data) = (KIND_WRITE, txid, b, data)"
| "record_fields (Commit txid) = (KIND_COMMIT, txid, 0, [])"

definition encode_entry :: "journal_entry \<Rightarrow> bytes \<Rightarrow> bytes res" where
  "encode_entry entry encoded =
     (case record_fields entry of (kind, txid, b, payload) \<Rightarrow>
      bindR (ok_or InvalidInput (usize_add JREC_HEADER (length payload))) (\<lambda>record_len.
      bindR (ok_or InvalidInput (word_try_from record_len)) (\<lambda>record_len_u32 :: u32.
        let start = length encoded;
            encoded' = encoded @ RECORD_MAGIC @ to_le_bytes RECORD_VERSION @ [kind] @ [0] @
              to_le_bytes record_len_u32 @ to_le_bytes txid @ to_le_bytes b @
              to_le_bytes (0 :: u32) @ payload;
            checksum = crc32 (drop start encoded')
        in Inr (copy_slice encoded' (start + 28) (to_le_bytes checksum)))))"

definition encode_entries :: "journal_entry list \<Rightarrow> bytes res" where
  "encode_entries entries = iterR encode_entry entries []"

definition require_control_record :: "u64 \<Rightarrow> bytes \<Rightarrow> unit res" where
  "require_control_record b payload =
     (if b \<noteq> 0 then Inl InvalidData
      else if payload \<noteq> [] then Inl InvalidData
      else Inr ())"

definition decode_entry :: "bytes \<Rightarrow> nat \<Rightarrow> (journal_entry \<times> nat) res" where
  "decode_entry bs cursor =
     (let remaining = length bs - cursor in
      if remaining < JREC_HEADER then Inl InvalidData
      else let header = subslice bs cursor (cursor + JREC_HEADER) in
      if subslice header 0 4 \<noteq> RECORD_MAGIC then Inl InvalidData
      else if read_u16 header 4 \<noteq> RECORD_VERSION then Inl InvalidData
      else let kind = header ! 6 in
      if header ! 7 \<noteq> 0 then Inl InvalidData
      else let record_len = unat (read_u32 header 8) in
      if record_len < JREC_HEADER then Inl InvalidData
      else bindR (ok_or InvalidData (usize_add cursor record_len)) (\<lambda>end.
        if end > length bs then Inl InvalidData
        else
          let txid = read_u64 header 12;
              b = read_u64 header 20;
              expected_checksum = read_u32 header 28;
              record = copy_slice (subslice bs cursor end) 28 (replicate 4 0) in
          if crc32 record \<noteq> expected_checksum then Inl InvalidData
          else
            let payload = subslice bs (cursor + JREC_HEADER) end in
            bindR
              (if kind = KIND_BEGIN
               then bindR (require_control_record b payload) (\<lambda>_. Inr (Begin txid))
               else if kind = KIND_WRITE
               then (if length payload \<noteq> BLOCK_SIZE then Inl InvalidData
                     else Inr (Write txid b payload))
               else if kind = KIND_COMMIT
               then bindR (require_control_record b payload) (\<lambda>_. Inr (Commit txid))
               else Inl InvalidData)
              (\<lambda>entry. Inr (entry, end))))"

lemma decode_entry_progress: "decode_entry bs cursor = Inr (x, e) \<Longrightarrow> cursor < e \<and> e \<le> length bs"
  by (auto simp: decode_entry_def Let_def bindR_Inr_iff usize_add_Some_iff split: if_splits)

function decode_loop :: "bytes \<Rightarrow> nat \<Rightarrow> journal_entry list \<Rightarrow> journal_entry list res" where
  "decode_loop bs cursor entries =
     (if cursor < length bs
      then (case decode_entry bs cursor of
              Inl e \<Rightarrow> Inl e
            | Inr (entry, end) \<Rightarrow> decode_loop bs end (entries @ [entry]))
      else Inr entries)"
  by pat_completeness auto
termination
  by (relation "measure (\<lambda>(bs, cursor, _). length bs - cursor)")
    (auto dest!: decode_entry_progress)

declare decode_loop.simps [simp del]

definition decode_entries :: "bytes \<Rightarrow> journal_entry list res" where
  "decode_entries bs = decode_loop bs 0 []"

section \<open>One record\<close>

text \<open>The bytes of an entry: header, checksum of the record with a zero checksum field, payload.\<close>

definition journal_record_with :: "u32 \<Rightarrow> journal_entry \<Rightarrow> bytes" where
  "journal_record_with checksum entry =
     (case record_fields entry of (kind, txid, b, payload) \<Rightarrow>
        RECORD_MAGIC @ to_le_bytes RECORD_VERSION @ [kind] @ [0] @
        to_le_bytes (word_of_nat (32 + length payload) :: u32) @ to_le_bytes txid @
        to_le_bytes b @ to_le_bytes checksum @ payload)"

definition journal_record :: "journal_entry \<Rightarrow> bytes" where
  "journal_record entry = journal_record_with (crc32 (journal_record_with 0 entry)) entry"

fun entry_ok :: "journal_entry \<Rightarrow> bool" where
  "entry_ok (Write txid b data) = (length data = BLOCK_SIZE)"
| "entry_ok _ = True"

lemma entry_payload:
  "entry_ok entry \<Longrightarrow> record_fields entry = (k, t, b, p) \<Longrightarrow> length p \<le> 4096"
  by (cases entry) auto

lemma length_RECORD_MAGIC [simp]: "length RECORD_MAGIC = 4"
  by (simp add: RECORD_MAGIC_def)

lemma length_journal_record_with:
  "record_fields entry = (k, t, b, p) \<Longrightarrow> length (journal_record_with c entry) = 32 + length p"
  by (simp add: journal_record_with_def)

lemma journal_record_with_checksum:
  "copy_slice (journal_record_with c entry) 28 (to_le_bytes c') = journal_record_with c' entry"
  by (simp add: journal_record_with_def copy_slice_def split: prod.splits)

lemma copy_slice_append_right:
  "copy_slice (xs @ ys) (length xs + off) zs = xs @ copy_slice ys off zs"
  by (simp add: copy_slice_def)

lemma encode_entry_eq:
  assumes "entry_ok entry"
  shows "encode_entry entry encoded = Inr (encoded @ journal_record entry)"
proof -
  obtain k t b p where f: "record_fields entry = (k, t, b, p)"
    by (cases "record_fields entry") auto
  have raw: "RECORD_MAGIC @ to_le_bytes RECORD_VERSION @ k # 0 #
      to_le_bytes (word_of_nat (32 + length p) :: u32) @ to_le_bytes t @
      to_le_bytes b @ replicate 4 0 @ p = journal_record_with 0 entry"
    by (simp add: journal_record_with_def f)
  have "usize_add 32 (length p) = Some (32 + length p)"
    "word_try_from (32 + length p) = Some (word_of_nat (32 + length p) :: u32)"
    using entry_payload [OF assms f] by (simp_all add: usize_add_def word_try_from_def)
  then show ?thesis
    by (simp add: encode_entry_def f Let_def raw copy_slice_append_right
        journal_record_with_checksum journal_record_def del: of_nat_add)
qed

lemma encode_entries_acc:
  "list_all entry_ok entries \<Longrightarrow>
   iterR encode_entry entries acc = Inr (acc @ concat (map journal_record entries))"
  by (induction entries arbitrary: acc) (simp_all add: encode_entry_eq)

lemma encode_entries_eq:
  "list_all entry_ok entries \<Longrightarrow> encode_entries entries = Inr (concat (map journal_record entries))"
  by (simp add: encode_entries_def encode_entries_acc)

lemma journal_record_with_fields:
  assumes "record_fields entry = (k, t, b, p)"
  shows "subslice (journal_record_with c entry) 0 4 = RECORD_MAGIC"
    "subslice (journal_record_with c entry) 4 6 = to_le_bytes RECORD_VERSION"
    "subslice (journal_record_with c entry) 6 8 = [k, 0]"
    "subslice (journal_record_with c entry) 8 12 = to_le_bytes (word_of_nat (32 + length p) :: u32)"
    "subslice (journal_record_with c entry) 12 20 = to_le_bytes t"
    "subslice (journal_record_with c entry) 20 28 = to_le_bytes b"
    "subslice (journal_record_with c entry) 28 32 = to_le_bytes c"
    "drop 32 (journal_record_with c entry) = p"
  by (simp_all add: journal_record_with_def assms slice_simps del: of_nat_add)


lemma decode_entry_record:
  assumes "entry_ok entry" and "length (pre @ journal_record entry) < 2 ^ 64"
  shows "decode_entry (pre @ journal_record entry @ post) (length pre) =
    Inr (entry, length pre + length (journal_record entry))"
proof -
  obtain k t b p where f: "record_fields entry = (k, t, b, p)"
    by (cases "record_fields entry") auto
  let ?r = "journal_record entry" and ?c = "crc32 (journal_record_with 0 entry)"
  let ?bs = "pre @ ?r @ post" and ?hdr = "take 32 (journal_record entry)"
  have r: "?r = journal_record_with ?c entry" by (simp add: journal_record_def)
  note fields = journal_record_with_fields [OF f, of ?c, folded r]
  have len: "length ?r = 32 + length p" by (simp add: r length_journal_record_with [OF f])
  have p: "length p \<le> 4096" by (rule entry_payload [OF assms(1) f])
  have cut: "subslice ?bs (length pre) (length pre + 32) = ?hdr"
    "subslice ?bs (length pre) (length pre + length ?r) = ?r"
    "subslice ?bs (length pre + 32) (length pre + length ?r) = p"
    using len journal_record_with_fields(8) [OF f, of ?c]
    by (simp_all add: subslice_def r [symmetric])
  have hdr: "subslice ?hdr i j = subslice ?r i j" if "j \<le> 32" for i j
    using that len by (simp add: subslice_def drop_take min_def)
  have reads: "subslice ?hdr 0 4 = RECORD_MAGIC" "read_u16 ?hdr 4 = RECORD_VERSION"
    "read_u32 ?hdr 8 = word_of_nat (32 + length p)" "read_u64 ?hdr 12 = t" "read_u64 ?hdr 20 = b"
    "read_u32 ?hdr 28 = ?c" "subslice ?hdr 6 8 = [k, 0]"
    using len by (simp_all add: read_eq_iffs hdr fields del: of_nat_add)
  have kf: "?hdr ! 6 = k" "?hdr ! 7 = 0"
    using slice_nth [of 0 8 6 ?hdr] slice_nth [of 1 8 6 ?hdr] reads(7) len by simp_all
  have n: "unat (word_of_nat (32 + length p) :: u32) = 32 + length p"
    using p by (simp add: unat_of_nat del: of_nat_add)
  have sum: "usize_add (length pre) (32 + length p) = Some (length pre + length ?r)"
    using assms(2) len by (simp add: usize_add_def)
  have crc: "crc32 (copy_slice ?r 28 (replicate 4 0)) = ?c"
    using journal_record_with_checksum [of ?c entry 0] by (simp add: r [symmetric])
  have entry: "(if k = KIND_BEGIN then bindR (require_control_record b p) (\<lambda>_. Inr (Begin t))
      else if k = KIND_WRITE
        then (if length p \<noteq> BLOCK_SIZE then Inl InvalidData else Inr (Write t b p))
      else if k = KIND_COMMIT then bindR (require_control_record b p) (\<lambda>_. Inr (Commit t))
      else Inl InvalidData) = Inr entry"
    using assms(1) f by (cases entry)
      (auto simp: KIND_BEGIN_def KIND_WRITE_def KIND_COMMIT_def require_control_record_def)
  have guards: "\<not> length ?bs - length pre < 32" "\<not> 32 + length p < 32"
    "\<not> length ?bs < length pre + length ?r"
    by (simp_all add: len)
  show ?thesis
    by (simp only: decode_entry_def Let_def cut reads(1-6) kf n sum crc entry guards ok_or_simps
        bindR.simps simp_thms if_False)
qed

lemma decode_entry_canonical:
  assumes "decode_entry bs cursor = Inr (entry, e)"
  shows "entry_ok entry \<and> cursor < e \<and> e \<le> length bs \<and> subslice bs cursor e = journal_record entry"
proof -
  let ?hdr = "subslice bs cursor (cursor + 32)" and ?r = "subslice bs cursor e"
  have ok: "32 \<le> length bs - cursor" "cursor + unat (read_u32 ?hdr 8) = e" "e \<le> length bs"
    "32 \<le> unat (read_u32 ?hdr 8)"
    and magic: "subslice ?hdr 0 4 = RECORD_MAGIC" and version: "read_u16 ?hdr 4 = RECORD_VERSION"
    and flags: "?hdr ! 7 = 0"
    and crc: "crc32 (copy_slice ?r 28 (replicate 4 0)) = read_u32 ?hdr 28"
    and kind: "record_fields entry =
      (?hdr ! 6, read_u64 ?hdr 12, read_u64 ?hdr 20, subslice bs (cursor + 32) e)"
    and entry: "entry_ok entry"
    using assms unfolding decode_entry_def Let_def
    by (auto simp: bindR_Inr_iff usize_add_Some_iff require_control_record_def not_less
        split: if_splits)
  have len: "length ?r = unat (read_u32 ?hdr 8)" using ok by simp
  have hdr: "subslice ?hdr i j = subslice ?r i j" if "j \<le> 32" for i j
    using that ok by (simp add: subslice_def drop_take min_def)
  have payload: "subslice bs (cursor + 32) e = drop 32 ?r"
    using ok by (simp add: subslice_def drop_take add.commute)
  have reads: "subslice ?r 0 4 = RECORD_MAGIC" "subslice ?r 4 6 = to_le_bytes RECORD_VERSION"
    "subslice ?r 8 12 = to_le_bytes (read_u32 ?hdr 8)" "subslice ?r 12 20 = to_le_bytes (read_u64 ?hdr 12)"
    "subslice ?r 20 28 = to_le_bytes (read_u64 ?hdr 20)" "subslice ?r 28 32 = to_le_bytes (read_u32 ?hdr 28)"
    "subslice ?r 6 8 = [?hdr ! 6, 0]"
    using magic version flags ok(1) slice_two [of 8 6 ?hdr]
    by (simp_all add: hdr [symmetric] slice_reads)
  have size: "word_of_nat (32 + length (subslice bs (cursor + 32) e)) = read_u32 ?hdr 8"
    using ok(2) [symmetric] ok(1,3,4) by (simp del: of_nat_add)
  have r: "?r = journal_record_with (read_u32 ?hdr 28) entry"
    by (rule same_fields_eq [where js = "[4, 6, 8, 12, 20, 28, 32]"])
      (simp add: reads journal_record_with_fields [OF kind, unfolded size] payload)
  have "journal_record_with 0 entry = copy_slice ?r 28 (replicate 4 0)"
    unfolding r using journal_record_with_checksum [of "read_u32 ?hdr 28" entry 0] by simp
  then have "?r = journal_record entry"
    using r crc by (simp add: journal_record_def)
  with entry ok show ?thesis by simp
qed

section \<open>Streams\<close>

interpretation jrec: record_stream journal_record entry_ok decode_entry "\<lambda>_ _. Inr ()" decode_loop
proof
  fix bs c acc
  show "decode_loop bs c acc =
      (if c < length bs
       then bindR (decode_entry bs c)
         (\<lambda>(x, e). bindR (Inr ()) (\<lambda>_. decode_loop bs e (acc @ [x])))
       else Inr acc)"
    by (subst decode_loop.simps) (simp split: sum.splits)
qed (use decode_entry_record decode_entry_canonical in blast)+

lemma jrec_accepted [simp]: "jrec.accepted acc xs"
  by (induction xs arbitrary: acc) simp_all

lemma decode_entries_iff:
  assumes "length bs < 2 ^ 64"
  shows "decode_entries bs = Inr entries \<longleftrightarrow>
    list_all entry_ok entries \<and> bs = concat (map journal_record entries)"
  using jrec.scan_iff [OF assms] by (simp add: decode_entries_def jrec.stream_def)

lemma decode_loop_error: "decode_loop bs c acc = Inl e \<Longrightarrow> e = InvalidData"
proof (induction bs c acc rule: decode_loop.induct)
  case (1 bs c acc)
  have "decode_entry bs c = Inl e \<Longrightarrow> e = InvalidData"
    by (auto simp: decode_entry_def Let_def ok_or_def require_control_record_def
        split: if_splits option.splits)
  with 1 show ?case
    by (subst (asm) (2) decode_loop.simps) (auto split: if_splits sum.splits)
qed

lemma decode_entries_error: "decode_entries bs = Inl e \<Longrightarrow> e = InvalidData"
  unfolding decode_entries_def by (rule decode_loop_error)

lemma length_journal_record:
  "entry_ok entry \<Longrightarrow> length (journal_record entry) = (case entry of Write _ _ _ \<Rightarrow> 4128 | _ \<Rightarrow> 32)"
  using length_journal_record_with [of entry] by (cases entry) (auto simp: journal_record_def)

section \<open>Properties\<close>

text \<open>C32. The journal codec is a bijection between entry lists and the byte strings it accepts:
  encoding never fails on entries with full-block payloads, decoding the encoding gives the
  entries back, and every byte string that decodes is the encoding of what it decodes to, so
  that no two streams mean the same journal.\<close>

theorem journal_codec_roundtrip:
  assumes "length bs < 2 ^ 64"
  shows "decode_entries bs = Inr entries \<longleftrightarrow> list_all entry_ok entries \<and> encode_entries entries = Inr bs"
  unfolding decode_entries_iff [OF assms]
  by (cases "list_all entry_ok entries") (simp_all add: encode_entries_eq eq_commute [of bs])

theorem journal_codec_roundtrip_witness:
  "\<exists>bs. encode_entries [Begin 3, Write 3 9 (replicate 4096 5), Commit 3] = Inr bs \<and>
     decode_entries bs = Inr [Begin 3, Write 3 9 (replicate 4096 5), Commit 3]"
proof -
  let ?es = "[Begin 3, Write 3 9 (replicate 4096 5), Commit 3]"
  let ?bs = "concat (map journal_record ?es)"
  have ok: "list_all entry_ok ?es" by simp
  have "length ?bs < 2 ^ 64" by (simp add: length_journal_record)
  from journal_codec_roundtrip [OF this, of ?es] ok encode_entries_eq [OF ok] show ?thesis by blast
qed

text \<open>C33. Torn journal streams. If only the first \<open>n\<close> bytes of an encoded journal survive, decoding
  either refuses the stream with an error or returns a prefix of the entries, and then the cut
  lies exactly between two records; no partial record is ever turned into an entry.\<close>

theorem journal_torn_stream:
  assumes "list_all entry_ok entries" and "encode_entries entries = Inr bs" and "length bs < 2 ^ 64"
  shows "case decode_entries (take n bs) of
      Inl e \<Rightarrow> e = InvalidData
    | Inr ys \<Rightarrow> ys = take (length ys) entries \<and> encode_entries ys = Inr (take n bs)"
proof (cases "decode_entries (take n bs)")
  case (Inl e)
  then show ?thesis by (simp add: decode_entries_error)
next
  case (Inr ys)
  have bs: "bs = jrec.stream entries"
    using assms(1,2) by (simp add: encode_entries_eq jrec.stream_def)
  have "decode_loop (take n (jrec.stream entries)) 0 [] = Inr ys"
    using Inr bs by (simp only: decode_entries_def)
  then have ys: "ys = take (length ys) entries" "jrec.stream ys = take n (jrec.stream entries)"
    using jrec.scan_torn [OF assms(1), of n ys] assms(3) bs by blast+
  have "list_all entry_ok ys"
    by (subst ys(1)) (use assms(1) in \<open>auto simp: list_all_iff dest: in_set_takeD\<close>)
  then have "encode_entries ys = Inr (take n bs)"
    unfolding bs ys(2) [symmetric] by (simp only: encode_entries_eq jrec.stream_def)
  then show ?thesis
    unfolding Inr sum.case using ys(1) by blast
qed

theorem journal_torn_stream_witness:
  "case decode_entries (take 40 (concat (map journal_record [Begin 1, Commit 1]))) of
      Inl e \<Rightarrow> e = InvalidData
    | Inr ys \<Rightarrow> ys = take (length ys) [Begin 1, Commit 1] \<and>
        encode_entries ys = Inr (take 40 (concat (map journal_record [Begin 1, Commit 1])))"
  by (rule journal_torn_stream) (simp_all add: encode_entries_eq length_journal_record)

end
