(* ===== verification/FS_Format.thy ===== *)
theory FS_Format
  imports FS_Block
begin

text \<open>
  The version-5 superblock, \<^verbatim>\<open>src/format.rs\<close>: the geometry of the metadata
  prefix and its one-block encoding. The functions of that file that use a device are in the
  theory of the formatter. \<open>sb_layout\<close> is the well-formedness invariant: one contiguous prefix
  superblock, journal, allocation image, inode table, directory table inside the device. The
  constructor and the decoder establish it, and encoder and decoder are inverse to each other.
\<close>

section \<open>Geometry\<close>

definition SUPERBLOCK_BLOCK :: u64 where "SUPERBLOCK_BLOCK = 0"
definition SUPERBLOCK_MAGIC :: bytes where
  "SUPERBLOCK_MAGIC = [0x46, 0x53, 0x4C, 0x41, 0x42, 0x46, 0x53, 0x00]"
definition FORMAT_VERSION :: u32 where "FORMAT_VERSION = 5"
definition FORMAT_BLOCK_SIZE :: u32 where "FORMAT_BLOCK_SIZE = 4096"
definition DEFAULT_JOURNAL_BLOCKS :: u64 where "DEFAULT_JOURNAL_BLOCKS = 4"
definition DEFAULT_INODE_BLOCKS :: u64 where "DEFAULT_INODE_BLOCKS = 2"
definition DEFAULT_DIRECTORY_BLOCKS :: u64 where "DEFAULT_DIRECTORY_BLOCKS = 2"
definition ALLOCATION_IMAGE_HEADER_LEN :: u64 where "ALLOCATION_IMAGE_HEADER_LEN = 32"

record superblock =
  total_blocks :: u64
  journal_start :: u64
  journal_blocks :: u64
  allocation_start :: u64
  allocation_blocks :: u64
  inode_start :: u64
  inode_blocks :: u64
  directory_start :: u64
  directory_blocks :: u64

definition allocation_bitmap_bytes :: "u64 \<Rightarrow> u64 res" where
  "allocation_bitmap_bytes tb =
     ok_or InvalidInput (map_option (\<lambda>rounded. rounded div 8) (checked_add tb 7))"

definition required_allocation_blocks :: "u64 \<Rightarrow> u64 res" where
  "required_allocation_blocks tb =
     bindR (allocation_bitmap_bytes tb) (\<lambda>bitmap_bytes.
     bindR (ok_or InvalidInput (checked_add ALLOCATION_IMAGE_HEADER_LEN bitmap_bytes)) (\<lambda>image_bytes.
       ok_or InvalidInput
         (map_option (\<lambda>rounded. rounded div BLOCK_SIZE_U64)
            (checked_add image_bytes (BLOCK_SIZE_U64 - 1)))))"

definition with_all_metadata_blocks :: "u64 \<Rightarrow> u64 \<Rightarrow> u64 \<Rightarrow> u64 \<Rightarrow> superblock res" where
  "with_all_metadata_blocks tb journal inode directory =
     (if journal = 0 then Inl InvalidInput
      else if inode = 0 then Inl InvalidInput
      else if directory = 0 then Inl InvalidInput
      else
        (let jstart = SUPERBLOCK_BLOCK + 1 in
         bindR (ok_or InvalidInput (checked_add jstart journal)) (\<lambda>astart.
         bindR (required_allocation_blocks tb) (\<lambda>ablocks.
         bindR (ok_or InvalidInput (checked_add astart ablocks)) (\<lambda>istart.
         bindR (ok_or InvalidInput (checked_add istart inode)) (\<lambda>dstart.
         bindR (ok_or InvalidInput (checked_add dstart directory)) (\<lambda>metadata_end.
           if tb < metadata_end then Inl InvalidInput
           else Inr \<lparr>total_blocks = tb, journal_start = jstart, journal_blocks = journal,
                     allocation_start = astart, allocation_blocks = ablocks,
                     inode_start = istart, inode_blocks = inode,
                     directory_start = dstart, directory_blocks = directory\<rparr>)))))))"

definition superblock_new :: "u64 \<Rightarrow> superblock res" where
  "superblock_new tb =
     with_all_metadata_blocks tb DEFAULT_JOURNAL_BLOCKS DEFAULT_INODE_BLOCKS
       DEFAULT_DIRECTORY_BLOCKS"

definition with_journal_blocks :: "u64 \<Rightarrow> u64 \<Rightarrow> superblock res" where
  "with_journal_blocks tb journal =
     with_all_metadata_blocks tb journal DEFAULT_INODE_BLOCKS DEFAULT_DIRECTORY_BLOCKS"

definition with_metadata_blocks :: "u64 \<Rightarrow> u64 \<Rightarrow> u64 \<Rightarrow> superblock res" where
  "with_metadata_blocks tb journal inode =
     with_all_metadata_blocks tb journal inode DEFAULT_DIRECTORY_BLOCKS"

text \<open>A \<^verbatim>\<open>Range<u64>\<close> is the pair of its ends; the sums wrap as in a release build.\<close>

definition journal_range :: "superblock \<Rightarrow> u64 \<times> u64" where
  "journal_range sb = (journal_start sb, journal_start sb + journal_blocks sb)"

definition allocation_range :: "superblock \<Rightarrow> u64 \<times> u64" where
  "allocation_range sb = (allocation_start sb, allocation_start sb + allocation_blocks sb)"

definition inode_range :: "superblock \<Rightarrow> u64 \<times> u64" where
  "inode_range sb = (inode_start sb, inode_start sb + inode_blocks sb)"

definition directory_range :: "superblock \<Rightarrow> u64 \<times> u64" where
  "directory_range sb = (directory_start sb, directory_start sb + directory_blocks sb)"

definition reserved_blocks :: "superblock \<Rightarrow> u64" where
  "reserved_blocks sb = directory_start sb + directory_blocks sb"

fun in_range :: "u64 \<Rightarrow> u64 \<times> u64 \<Rightarrow> bool" where
  "in_range b (lo, hi) = (lo \<le> b \<and> b < hi)"

fun range_blocks :: "u64 \<times> u64 \<Rightarrow> u64 list" where
  "range_blocks (lo, hi) = u64_range lo hi"

section \<open>Encoding\<close>

abbreviation (input) "SB_VERSION_OFFSET \<equiv> (8 :: nat)"
abbreviation (input) "SB_BLOCK_SIZE_OFFSET \<equiv> (12 :: nat)"
abbreviation (input) "SB_TOTAL_BLOCKS_OFFSET \<equiv> (16 :: nat)"
abbreviation (input) "SB_JOURNAL_START_OFFSET \<equiv> (24 :: nat)"
abbreviation (input) "SB_JOURNAL_BLOCKS_OFFSET \<equiv> (32 :: nat)"
abbreviation (input) "SB_ALLOCATION_START_OFFSET \<equiv> (40 :: nat)"
abbreviation (input) "SB_ALLOCATION_BLOCKS_OFFSET \<equiv> (48 :: nat)"
abbreviation (input) "SB_INODE_START_OFFSET \<equiv> (56 :: nat)"
abbreviation (input) "SB_INODE_BLOCKS_OFFSET \<equiv> (64 :: nat)"
abbreviation (input) "SB_DIRECTORY_START_OFFSET \<equiv> (72 :: nat)"
abbreviation (input) "SB_DIRECTORY_BLOCKS_OFFSET \<equiv> (80 :: nat)"
abbreviation (input) "SB_HEADER_LEN \<equiv> (88 :: nat)"

definition superblock_encode :: "superblock \<Rightarrow> bytes" where
  "superblock_encode sb =
     copy_fields (replicate BLOCK_SIZE 0)
       [(0, SUPERBLOCK_MAGIC),
        (SB_VERSION_OFFSET, to_le_bytes FORMAT_VERSION),
        (SB_BLOCK_SIZE_OFFSET, to_le_bytes FORMAT_BLOCK_SIZE),
        (SB_TOTAL_BLOCKS_OFFSET, to_le_bytes (total_blocks sb)),
        (SB_JOURNAL_START_OFFSET, to_le_bytes (journal_start sb)),
        (SB_JOURNAL_BLOCKS_OFFSET, to_le_bytes (journal_blocks sb)),
        (SB_ALLOCATION_START_OFFSET, to_le_bytes (allocation_start sb)),
        (SB_ALLOCATION_BLOCKS_OFFSET, to_le_bytes (allocation_blocks sb)),
        (SB_INODE_START_OFFSET, to_le_bytes (inode_start sb)),
        (SB_INODE_BLOCKS_OFFSET, to_le_bytes (inode_blocks sb)),
        (SB_DIRECTORY_START_OFFSET, to_le_bytes (directory_start sb)),
        (SB_DIRECTORY_BLOCKS_OFFSET, to_le_bytes (directory_blocks sb))]"

definition superblock_decode :: "bytes \<Rightarrow> superblock res" where
  "superblock_decode block =
     (if subslice block 0 8 \<noteq> SUPERBLOCK_MAGIC then Inl InvalidData
      else if read_u32 block SB_VERSION_OFFSET \<noteq> FORMAT_VERSION then Inl InvalidData
      else if read_u32 block SB_BLOCK_SIZE_OFFSET \<noteq> FORMAT_BLOCK_SIZE \<or>
              ucast (read_u32 block SB_BLOCK_SIZE_OFFSET) \<noteq> BLOCK_SIZE_U64 then Inl InvalidData
      else
        (let tb = read_u64 block SB_TOTAL_BLOCKS_OFFSET;
             jstart = read_u64 block SB_JOURNAL_START_OFFSET;
             journal = read_u64 block SB_JOURNAL_BLOCKS_OFFSET;
             astart = read_u64 block SB_ALLOCATION_START_OFFSET;
             ablocks = read_u64 block SB_ALLOCATION_BLOCKS_OFFSET;
             istart = read_u64 block SB_INODE_START_OFFSET;
             inode = read_u64 block SB_INODE_BLOCKS_OFFSET;
             dstart = read_u64 block SB_DIRECTORY_START_OFFSET;
             directory = read_u64 block SB_DIRECTORY_BLOCKS_OFFSET
         in
         if jstart \<noteq> SUPERBLOCK_BLOCK + 1 \<or> journal = 0 then Inl InvalidData
         else if inode = 0 then Inl InvalidData
         else if directory = 0 then Inl InvalidData
         else
           bindR (ok_or InvalidData (checked_add jstart journal)) (\<lambda>expected_astart.
           if astart \<noteq> expected_astart then Inl InvalidData else
           bindR (map_err (\<lambda>_. InvalidData) (required_allocation_blocks tb)) (\<lambda>expected_ablocks.
           if ablocks \<noteq> expected_ablocks then Inl InvalidData else
           bindR (ok_or InvalidData (checked_add astart ablocks)) (\<lambda>expected_istart.
           if istart \<noteq> expected_istart then Inl InvalidData else
           bindR (ok_or InvalidData (checked_add istart inode)) (\<lambda>expected_dstart.
           if dstart \<noteq> expected_dstart then Inl InvalidData else
           bindR (ok_or InvalidData (checked_add dstart directory)) (\<lambda>metadata_end.
           if tb < metadata_end then Inl InvalidData
           else if \<not> all_zero (drop SB_HEADER_LEN block) then Inl InvalidData
           else Inr \<lparr>total_blocks = tb, journal_start = jstart, journal_blocks = journal,
                     allocation_start = astart, allocation_blocks = ablocks,
                     inode_start = istart, inode_blocks = inode,
                     directory_start = dstart, directory_blocks = directory\<rparr>)))))))"

section \<open>Well-formed geometry\<close>

definition sb_layout :: "superblock \<Rightarrow> bool" where
  "sb_layout sb \<longleftrightarrow>
     journal_start sb = 1 \<and> journal_blocks sb \<noteq> 0 \<and> inode_blocks sb \<noteq> 0 \<and>
     directory_blocks sb \<noteq> 0 \<and>
     required_allocation_blocks (total_blocks sb) = Inr (allocation_blocks sb) \<and>
     unat (allocation_start sb) = 1 + unat (journal_blocks sb) \<and>
     unat (inode_start sb) = unat (allocation_start sb) + unat (allocation_blocks sb) \<and>
     unat (directory_start sb) = unat (inode_start sb) + unat (inode_blocks sb) \<and>
     unat (directory_start sb) + unat (directory_blocks sb) \<le> unat (total_blocks sb)"

named_theorems geometry "facts on well-formed superblocks, over natural numbers"

lemma checked_add_layout:
  "checked_add a b = Some c \<longleftrightarrow> unat c = unat a + unat b" for a b c :: u64
proof
  assume "unat c = unat a + unat b"
  moreover from this have "unat a + unat b < 2 ^ LENGTH(64)"
    using unat_lt2p [of c] by simp
  ultimately show "checked_add a b = Some c"
    by (simp add: checked_add_Some_iff unat_add_no_overflow word_unat_eq_iff)
qed (rule checked_add_unat)

lemma with_all_metadata_blocks_layout:
  "with_all_metadata_blocks tb j i d = Inr sb \<longleftrightarrow>
   sb_layout sb \<and> total_blocks sb = tb \<and> journal_blocks sb = j \<and> inode_blocks sb = i \<and>
   directory_blocks sb = d"
proof
  assume "with_all_metadata_blocks tb j i d = Inr sb"
  then show "sb_layout sb \<and> total_blocks sb = tb \<and> journal_blocks sb = j \<and>
      inode_blocks sb = i \<and> directory_blocks sb = d"
    by (auto simp: with_all_metadata_blocks_def sb_layout_def bindR_Inr_iff checked_add_layout
        SUPERBLOCK_BLOCK_def word_less_nat_alt split: if_splits)
next
  assume sb: "sb_layout sb \<and> total_blocks sb = tb \<and> journal_blocks sb = j \<and>
      inode_blocks sb = i \<and> directory_blocks sb = d"
  then have lay: "sb_layout sb" by simp
  then have a: "checked_add 1 (journal_blocks sb) = Some (allocation_start sb)"
    and b: "checked_add (allocation_start sb) (allocation_blocks sb) = Some (inode_start sb)"
    and c: "checked_add (inode_start sb) (inode_blocks sb) = Some (directory_start sb)"
    by (simp_all add: checked_add_layout sb_layout_def)
  have fits: "unat (directory_start sb) + unat (directory_blocks sb) < 2 ^ 64"
    using lay unat_lt_64 [of "total_blocks sb"] by (simp add: sb_layout_def)
  then have e: "checked_add (directory_start sb) (directory_blocks sb) =
      Some (directory_start sb + directory_blocks sb)"
    by (simp add: checked_add_Some_iff)
  have "\<not> total_blocks sb < directory_start sb + directory_blocks sb"
    using lay fits by (simp add: word_less_nat_alt unat_add_no_overflow sb_layout_def)
  with sb a b c e show "with_all_metadata_blocks tb j i d = Inr sb"
    by (auto simp: with_all_metadata_blocks_def SUPERBLOCK_BLOCK_def sb_layout_def)
qed

lemma sb_layout_unat [geometry]:
  assumes "sb_layout sb"
  shows "unat (journal_start sb) = 1"
    and "unat (journal_start sb + journal_blocks sb) = 1 + unat (journal_blocks sb)"
    and "unat (allocation_start sb) = 1 + unat (journal_blocks sb)"
    and "unat (allocation_start sb + allocation_blocks sb) =
      1 + unat (journal_blocks sb) + unat (allocation_blocks sb)"
    and "unat (inode_start sb) = 1 + unat (journal_blocks sb) + unat (allocation_blocks sb)"
    and "unat (inode_start sb + inode_blocks sb) =
      1 + unat (journal_blocks sb) + unat (allocation_blocks sb) + unat (inode_blocks sb)"
    and "unat (directory_start sb) =
      1 + unat (journal_blocks sb) + unat (allocation_blocks sb) + unat (inode_blocks sb)"
    and "unat (reserved_blocks sb) =
      1 + unat (journal_blocks sb) + unat (allocation_blocks sb) + unat (inode_blocks sb) +
      unat (directory_blocks sb)"
    and "unat (reserved_blocks sb) \<le> unat (total_blocks sb)"
proof -
  let ?j = "unat (journal_blocks sb)" and ?a = "unat (allocation_blocks sb)"
    and ?i = "unat (inode_blocks sb)" and ?d = "unat (directory_blocks sb)"
  have eqs: "unat (allocation_start sb) = 1 + ?j" "unat (inode_start sb) = 1 + ?j + ?a"
    "unat (directory_start sb) = 1 + ?j + ?a + ?i" and js: "journal_start sb = 1"
    and le: "1 + ?j + ?a + ?i + ?d \<le> unat (total_blocks sb)"
    using assms by (simp_all add: sb_layout_def)
  have bound: "1 + ?j + ?a + ?i + ?d < 2 ^ 64"
    using le unat_lt_64 [of "total_blocks sb"] by simp
  show "unat (journal_start sb) = 1" using js by simp
  show "unat (journal_start sb + journal_blocks sb) = 1 + ?j"
    using js bound by (simp add: unat_add_no_overflow)
  show "unat (allocation_start sb) = 1 + ?j" by (rule eqs)
  show "unat (allocation_start sb + allocation_blocks sb) = 1 + ?j + ?a"
    using eqs bound by (simp add: unat_add_no_overflow)
  show "unat (inode_start sb) = 1 + ?j + ?a" by (rule eqs)
  show "unat (inode_start sb + inode_blocks sb) = 1 + ?j + ?a + ?i"
    using eqs bound by (simp add: unat_add_no_overflow)
  show "unat (directory_start sb) = 1 + ?j + ?a + ?i" by (rule eqs)
  show r: "unat (reserved_blocks sb) = 1 + ?j + ?a + ?i + ?d"
    using eqs bound by (simp add: reserved_blocks_def unat_add_no_overflow)
  show "unat (reserved_blocks sb) \<le> unat (total_blocks sb)" using r le by simp
qed

section \<open>Encoder and decoder are inverse\<close>

lemma length_magic [simp]: "length SUPERBLOCK_MAGIC = 8"
  by (simp add: SUPERBLOCK_MAGIC_def)

lemma superblock_encode_eq:
  "superblock_encode sb =
   SUPERBLOCK_MAGIC @ to_le_bytes FORMAT_VERSION @ to_le_bytes FORMAT_BLOCK_SIZE @
   to_le_bytes (total_blocks sb) @ to_le_bytes (journal_start sb) @
   to_le_bytes (journal_blocks sb) @ to_le_bytes (allocation_start sb) @
   to_le_bytes (allocation_blocks sb) @ to_le_bytes (inode_start sb) @
   to_le_bytes (inode_blocks sb) @ to_le_bytes (directory_start sb) @
   to_le_bytes (directory_blocks sb) @ replicate 4008 0"
  by (simp add: superblock_encode_def copy_fields_lay)

lemma length_superblock_encode [simp]: "length (superblock_encode sb) = 4096"
  by (simp add: superblock_encode_eq)

lemma superblock_encode_fields:
  "subslice (superblock_encode sb) 0 8 = SUPERBLOCK_MAGIC"
  "subslice (superblock_encode sb) 8 12 = to_le_bytes FORMAT_VERSION"
  "subslice (superblock_encode sb) 12 16 = to_le_bytes FORMAT_BLOCK_SIZE"
  "subslice (superblock_encode sb) 16 24 = to_le_bytes (total_blocks sb)"
  "subslice (superblock_encode sb) 24 32 = to_le_bytes (journal_start sb)"
  "subslice (superblock_encode sb) 32 40 = to_le_bytes (journal_blocks sb)"
  "subslice (superblock_encode sb) 40 48 = to_le_bytes (allocation_start sb)"
  "subslice (superblock_encode sb) 48 56 = to_le_bytes (allocation_blocks sb)"
  "subslice (superblock_encode sb) 56 64 = to_le_bytes (inode_start sb)"
  "subslice (superblock_encode sb) 64 72 = to_le_bytes (inode_blocks sb)"
  "subslice (superblock_encode sb) 72 80 = to_le_bytes (directory_start sb)"
  "subslice (superblock_encode sb) 80 88 = to_le_bytes (directory_blocks sb)"
  "drop 88 (superblock_encode sb) = replicate 4008 0"
  by (simp_all add: superblock_encode_eq slice_simps)

lemma superblock_decode_encode:
  assumes "sb_layout sb"
  shows "superblock_decode (superblock_encode sb) = Inr sb"
proof -
  have reads: "read_u32 (superblock_encode sb) 8 = FORMAT_VERSION"
    "read_u32 (superblock_encode sb) 12 = FORMAT_BLOCK_SIZE"
    "read_u64 (superblock_encode sb) 16 = total_blocks sb"
    "read_u64 (superblock_encode sb) 24 = journal_start sb"
    "read_u64 (superblock_encode sb) 32 = journal_blocks sb"
    "read_u64 (superblock_encode sb) 40 = allocation_start sb"
    "read_u64 (superblock_encode sb) 48 = allocation_blocks sb"
    "read_u64 (superblock_encode sb) 56 = inode_start sb"
    "read_u64 (superblock_encode sb) 64 = inode_blocks sb"
    "read_u64 (superblock_encode sb) 72 = directory_start sb"
    "read_u64 (superblock_encode sb) 80 = directory_blocks sb"
    by (simp_all add: read_eq_iffs superblock_encode_fields)
  have a: "checked_add (journal_start sb) (journal_blocks sb) = Some (allocation_start sb)"
    and b: "checked_add (allocation_start sb) (allocation_blocks sb) = Some (inode_start sb)"
    and c: "checked_add (inode_start sb) (inode_blocks sb) = Some (directory_start sb)"
    and e: "checked_add (directory_start sb) (directory_blocks sb) = Some (reserved_blocks sb)"
    using assms by (simp_all add: checked_add_layout geometry)
  have "\<not> total_blocks sb < reserved_blocks sb"
    using sb_layout_unat(9) [OF assms] by (simp add: word_less_nat_alt)
  with assms a b c e show ?thesis
    by (simp add: superblock_decode_def reads superblock_encode_fields(1,13) sb_layout_def
        FORMAT_BLOCK_SIZE_def SUPERBLOCK_BLOCK_def)
qed

lemma superblock_decode_layout:
  assumes "superblock_decode block = Inr sb"
  shows "sb_layout sb"
  using assms
  by (auto simp: superblock_decode_def Let_def sb_layout_def bindR_Inr_iff checked_add_layout
      SUPERBLOCK_BLOCK_def word_less_nat_alt split: if_splits)

lemma superblock_encode_decode:
  assumes "superblock_decode block = Inr sb" and "length block = 4096"
  shows "superblock_encode sb = block"
proof (rule same_fields_eq [where js = "[8, 12, 16, 24, 32, 40, 48, 56, 64, 72, 80, 88]"])
  have magic: "subslice block 0 8 = SUPERBLOCK_MAGIC"
    and "read_u32 block 8 = FORMAT_VERSION" "read_u32 block 12 = FORMAT_BLOCK_SIZE"
    and "read_u64 block 16 = total_blocks sb" "read_u64 block 24 = journal_start sb"
    and "read_u64 block 32 = journal_blocks sb" "read_u64 block 40 = allocation_start sb"
    and "read_u64 block 48 = allocation_blocks sb" "read_u64 block 56 = inode_start sb"
    and "read_u64 block 64 = inode_blocks sb" "read_u64 block 72 = directory_start sb"
    and "read_u64 block 80 = directory_blocks sb" and zero: "all_zero (drop 88 block)"
    using assms(1)
    by (auto simp: superblock_decode_def Let_def bindR_Inr_iff split: if_splits)
  then show "same_fields (superblock_encode sb) block 0 [8, 12, 16, 24, 32, 40, 48, 56, 64, 72, 80, 88]"
    using assms(2) zero
    by (simp add: read_eq_iffs superblock_encode_fields magic all_zero_iff)
qed

section \<open>The regions of a formatted device\<close>

text \<open>
  \<open>sb_ok\<close> adds to the layout that the size of the device in bytes fits a machine word, which
  every device of the block layer satisfies.
\<close>

definition sb_ok :: "superblock \<Rightarrow> bool" where
  "sb_ok sb \<longleftrightarrow> sb_layout sb \<and> unat (total_blocks sb) * 4096 < 2 ^ 64"

abbreviation journal_region :: "superblock \<Rightarrow> u64 list" where
  "journal_region sb \<equiv> range_blocks (journal_range sb)"

abbreviation allocation_region :: "superblock \<Rightarrow> u64 list" where
  "allocation_region sb \<equiv> range_blocks (allocation_range sb)"

abbreviation inode_region :: "superblock \<Rightarrow> u64 list" where
  "inode_region sb \<equiv> range_blocks (inode_range sb)"

abbreviation directory_region :: "superblock \<Rightarrow> u64 list" where
  "directory_region sb \<equiv> range_blocks (directory_range sb)"

abbreviation data_region :: "superblock \<Rightarrow> u64 list" where
  "data_region sb \<equiv> range_blocks (reserved_blocks sb, total_blocks sb)"

text \<open>What a journal write may target: every block but the superblock and the journal.\<close>

definition home_block :: "superblock \<Rightarrow> u64 \<Rightarrow> bool" where
  "home_block sb b \<longleftrightarrow>
     in_range b (allocation_range sb) \<or> in_range b (inode_range sb) \<or>
     in_range b (directory_range sb) \<or> reserved_blocks sb \<le> b \<and> b < total_blocks sb"

lemmas range_defs = journal_range_def allocation_range_def inode_range_def directory_range_def

lemma sb_ok_layout: "sb_ok sb \<Longrightarrow> sb_layout sb"
  by (simp add: sb_ok_def)

lemma in_range_blocks: "in_range b r \<longleftrightarrow> b \<in> set (range_blocks r)"
  by (cases r) (simp add: u64_range_eq_iff)

lemma distinct_range_blocks [simp]: "distinct (range_blocks r)"
  by (cases r) (simp add: distinct_u64_range)

lemma region_lengths [geometry]:
  assumes "sb_layout sb"
  shows "length (journal_region sb) = unat (journal_blocks sb)"
    and "length (allocation_region sb) = unat (allocation_blocks sb)"
    and "length (inode_region sb) = unat (inode_blocks sb)"
    and "length (directory_region sb) = unat (directory_blocks sb)"
  using sb_layout_unat [OF assms] sb_layout_unat(8) [OF assms, unfolded reserved_blocks_def]
  by (simp_all add: range_defs)

text \<open>Membership in a region over natural numbers.\<close>

lemma region_member [geometry]:
  assumes "sb_layout sb"
  shows "b \<in> set (journal_region sb) \<longleftrightarrow> 1 \<le> unat b \<and> unat b < 1 + unat (journal_blocks sb)"
    and "b \<in> set (allocation_region sb) \<longleftrightarrow>
      1 + unat (journal_blocks sb) \<le> unat b \<and>
      unat b < 1 + unat (journal_blocks sb) + unat (allocation_blocks sb)"
    and "b \<in> set (inode_region sb) \<longleftrightarrow>
      1 + unat (journal_blocks sb) + unat (allocation_blocks sb) \<le> unat b \<and>
      unat b < 1 + unat (journal_blocks sb) + unat (allocation_blocks sb) + unat (inode_blocks sb)"
    and "b \<in> set (directory_region sb) \<longleftrightarrow>
      1 + unat (journal_blocks sb) + unat (allocation_blocks sb) + unat (inode_blocks sb) \<le> unat b \<and>
      unat b < 1 + unat (journal_blocks sb) + unat (allocation_blocks sb) + unat (inode_blocks sb) +
        unat (directory_blocks sb)"
    and "b \<in> set (data_region sb) \<longleftrightarrow>
      1 + unat (journal_blocks sb) + unat (allocation_blocks sb) + unat (inode_blocks sb) +
        unat (directory_blocks sb) \<le> unat b \<and> unat b < unat (total_blocks sb)"
  using sb_layout_unat [OF assms] sb_layout_unat(8) [OF assms, unfolded reserved_blocks_def]
  by (auto simp: range_defs u64_range_eq_iff word_less_nat_alt word_le_nat_alt)

lemma home_block_iff:
  assumes "sb_layout sb"
  shows "home_block sb b \<longleftrightarrow> 1 + unat (journal_blocks sb) \<le> unat b \<and> unat b < unat (total_blocks sb)"
proof -
  have data: "reserved_blocks sb \<le> b \<and> b < total_blocks sb \<longleftrightarrow> b \<in> set (data_region sb)"
    by (simp add: u64_range_eq_iff)
  show ?thesis
    unfolding home_block_def in_range_blocks data region_member [OF assms]
    using sb_layout_unat [OF assms] by linarith
qed

lemma home_block_not_journal:
  "sb_layout sb \<Longrightarrow> home_block sb b \<Longrightarrow> b \<notin> set (journal_region sb) \<and> b \<noteq> 0 \<and> b < total_blocks sb"
  by (auto simp: home_block_iff region_member word_less_nat_alt)

lemma region_in_device:
  assumes "sb_layout sb"
  shows "b \<in> set (journal_region sb) \<Longrightarrow> b < total_blocks sb"
    and "b \<in> set (allocation_region sb) \<Longrightarrow> b < total_blocks sb"
    and "b \<in> set (inode_region sb) \<Longrightarrow> b < total_blocks sb"
    and "b \<in> set (directory_region sb) \<Longrightarrow> b < total_blocks sb"
  using sb_layout_unat(8,9) [OF assms] unfolding region_member [OF assms] word_less_nat_alt by linarith+

lemma region_home:
  assumes "sb_layout sb"
  shows "b \<in> set (allocation_region sb) \<Longrightarrow> home_block sb b"
    and "b \<in> set (inode_region sb) \<Longrightarrow> home_block sb b"
    and "b \<in> set (directory_region sb) \<Longrightarrow> home_block sb b"
    and "b \<in> set (data_region sb) \<Longrightarrow> home_block sb b"
  using sb_layout_unat(8,9) [OF assms]
  unfolding region_member [OF assms] home_block_iff [OF assms] by linarith+

text \<open>A region's byte size fits a machine word.\<close>

lemma region_bytes_bound:
  assumes "sb_ok sb"
  shows "unat (journal_blocks sb) * 4096 < 2 ^ 64" "unat (allocation_blocks sb) * 4096 < 2 ^ 64"
    "unat (inode_blocks sb) * 4096 < 2 ^ 64" "unat (directory_blocks sb) * 4096 < 2 ^ 64"
  using assms sb_layout_unat(8,9) [OF sb_ok_layout [OF assms]] by (simp_all add: sb_ok_def)

lemma journal_region_eq:
  assumes "sb_layout sb"
  shows "journal_region sb = map (\<lambda>i. journal_start sb + word_of_nat i) [0..<unat (journal_blocks sb)]"
  by (rule nth_equalityI)
    (use sb_layout_unat [OF assms] in \<open>simp_all add: range_defs u64_range_nth\<close>)

text \<open>A device of 16 blocks with the default reservations, used by the concrete instances.\<close>

definition demo_superblock :: superblock where
  "demo_superblock =
     \<lparr>total_blocks = 16, journal_start = 1, journal_blocks = 4, allocation_start = 5,
      allocation_blocks = 1, inode_start = 6, inode_blocks = 2, directory_start = 8,
      directory_blocks = 2\<rparr>"

lemma demo_superblock_ok: "sb_ok demo_superblock"
  by (simp add: sb_ok_def sb_layout_def demo_superblock_def required_allocation_blocks_def
      allocation_bitmap_bytes_def checked_add_def ALLOCATION_IMAGE_HEADER_LEN_def)

text \<open>The allocation image: a 32-byte header and one bit per block, rounded up to whole blocks.\<close>

lemma allocation_bitmap_bytes_eq:
  "allocation_bitmap_bytes tb = Inr n \<longleftrightarrow>
   unat tb + 7 < 2 ^ 64 \<and> unat n = (unat tb + 7) div 8"
proof (cases "unat tb + 7 < 2 ^ 64")
  case True
  then have "checked_add tb 7 = Some (tb + 7)" "unat (tb + 7) = unat tb + 7"
    by (simp_all add: checked_add_Some_iff unat_add_no_overflow)
  then show ?thesis
    using True by (auto simp: allocation_bitmap_bytes_def unat_div word_unat_eq_iff)
next
  case False
  then show ?thesis by (simp add: allocation_bitmap_bytes_def checked_add_def)
qed

lemma required_allocation_blocks_eq:
  assumes "required_allocation_blocks tb = Inr n"
  shows "unat tb + 7 < 2 ^ 64" and "unat n = (32 + (unat tb + 7) div 8 + 4095) div 4096"
proof -
  obtain bm s t where bm: "allocation_bitmap_bytes tb = Inr bm"
    and s: "checked_add 32 bm = Some s" and t: "checked_add s 4095 = Some t" and n: "n = t div 4096"
    using assms
    by (auto simp: required_allocation_blocks_def bindR_Inr_iff ALLOCATION_IMAGE_HEADER_LEN_def)
  show "unat tb + 7 < 2 ^ 64" using bm by (simp add: allocation_bitmap_bytes_eq)
  have "unat t = 32 + (unat tb + 7) div 8 + 4095"
    using bm checked_add_unat [OF s] checked_add_unat [OF t] by (simp add: allocation_bitmap_bytes_eq)
  then show "unat n = (32 + (unat tb + 7) div 8 + 4095) div 4096" by (simp add: n unat_div)
qed

section \<open>Properties\<close>

text \<open>C39. The superblock codec is exact. A one-block buffer decodes to a superblock if and only if
  that superblock has a well-formed contiguous layout and the buffer is its encoding; so
  decoding inverts encoding, encoding inverts decoding, and no malformed layout is ever
  accepted from disk.\<close>

theorem superblock_codec_exact:
  assumes "length block = BLOCK_SIZE"
  shows "superblock_decode block = Inr sb \<longleftrightarrow> sb_layout sb \<and> superblock_encode sb = block"
  using superblock_decode_encode [of sb] superblock_decode_layout superblock_encode_decode assms
  by auto

theorem superblock_codec_exact_witness:
  "superblock_decode (superblock_encode demo_superblock) = Inr demo_superblock"
  using superblock_codec_exact [of "superblock_encode demo_superblock" demo_superblock]
    sb_ok_layout [OF demo_superblock_ok] by simp



end
