(* ===== verification/FS_Journal_Region.thy ===== *)
theory FS_Journal_Region
  imports FS_Journal_Codec FS_Format
begin

text \<open>
  The journal region, \<^verbatim>\<open>src/journal_region.rs\<close>: one bounded journal image in the
  blocks the superblock reserves for it. A 32-byte header carries the payload length and a
  CRC-32 over header and payload; the rest of the reservation is zero. Storing writes the tail
  blocks first, the header block last, then flushes. Loading an image that was stored gives
  its entries back, whatever a load accepts is the canonical image of its entries, and every
  change of a single byte outside the length field is refused.
\<close>

section \<open>Storing and loading\<close>

definition REGION_MAGIC :: bytes where
  "REGION_MAGIC = [0x4a, 0x52, 0x47, 0x31]"

definition REGION_VERSION :: u16 where
  "REGION_VERSION = 1"

definition validate_region :: "'d block_device \<Rightarrow> superblock \<Rightarrow> 'd \<Rightarrow> unit res" where
  "validate_region D sb dev =
     (if total_blocks sb \<noteq> block_count D dev then Inl InvalidInput
      else if journal_start sb \<noteq> SUPERBLOCK_BLOCK + 1 \<or> journal_blocks sb = 0 then Inl InvalidInput
      else
        bindR (ok_or InvalidInput (checked_add (journal_start sb) (journal_blocks sb)))
          (\<lambda>journal_end. if journal_end > total_blocks sb then Inl InvalidInput else Inr ()))"

fun validate_entry :: "superblock \<Rightarrow> journal_entry \<Rightarrow> u64 option \<Rightarrow> u64 option res" where
  "validate_entry sb (Begin txid) active =
     (if active \<noteq> None then Inl InvalidData else Inr (Some txid))"
| "validate_entry sb (Write txid b data) active =
     (if active \<noteq> Some txid then Inl InvalidData
      else
        (let allocation_home = in_range b (allocation_range sb);
             inode_home = in_range b (inode_range sb);
             directory_home = in_range b (directory_range sb);
             data_home = (b \<ge> reserved_blocks sb \<and> b < total_blocks sb)
         in if \<not> allocation_home \<and> \<not> inode_home \<and> \<not> directory_home \<and> \<not> data_home
            then Inl InvalidData else Inr active))"
| "validate_entry sb (Commit txid) active =
     (if active \<noteq> Some txid then Inl InvalidData else Inr None)"

definition validate_entries :: "superblock \<Rightarrow> journal_entry list \<Rightarrow> unit res" where
  "validate_entries sb entries = bindR (iterR (validate_entry sb) entries None) (\<lambda>_. Inr ())"

definition region_capacity :: "superblock \<Rightarrow> nat res" where
  "region_capacity sb =
     bindR (ok_or InvalidInput (checked_mul (journal_blocks sb) BLOCK_SIZE_U64))
       (\<lambda>bytes. Inr (unat bytes))"

definition write_region_block ::
  "'d block_device \<Rightarrow> superblock \<Rightarrow> bytes \<Rightarrow> nat \<Rightarrow> ('d, unit) io" where
  "write_region_block D sb region index =
     io_bind (io_lift (ok_or InvalidInput (word_try_from index))) (\<lambda>index_u64.
     io_bind (io_lift (ok_or InvalidInput (checked_add (journal_start sb) index_u64))) (\<lambda>b.
     io_bind (io_lift (ok_or InvalidInput (usize_mul index BLOCK_SIZE))) (\<lambda>start.
     io_bind (io_lift (ok_or InvalidInput (usize_add start BLOCK_SIZE))) (\<lambda>end.
       write_block D b (subslice region start end)))))"

definition journal_image_bytes :: "nat \<Rightarrow> bytes \<Rightarrow> bytes res" where
  "journal_image_bytes capacity payload =
     bindR (ok_or InvalidInput (usize_add 32 (length payload))) (\<lambda>used.
       if used > capacity then Inl InvalidInput
       else
         bindR (ok_or InvalidInput (word_try_from (length payload))) (\<lambda>payload_len :: u64.
           let region = copy_fields (replicate capacity 0)
                 [(0, REGION_MAGIC), (4, to_le_bytes REGION_VERSION), (6, to_le_bytes (0 :: u16)),
                  (8, to_le_bytes payload_len), (32, payload)];
               checksum = crc32 (take used region)
           in Inr (copy_slice region 16 (to_le_bytes checksum))))"

definition store_journal_image ::
  "'d block_device \<Rightarrow> superblock \<Rightarrow> journal_entry list \<Rightarrow> ('d, unit) io" where
  "store_journal_image D sb entries =
     io_bind (io_look (validate_region D sb)) (\<lambda>_.
     io_bind (io_lift (validate_entries sb entries)) (\<lambda>_.
     io_bind (io_lift (encode_entries entries)) (\<lambda>payload.
     io_bind (io_lift (region_capacity sb)) (\<lambda>capacity.
     io_bind (io_lift (journal_image_bytes capacity payload)) (\<lambda>region.
       let block_count = unat (journal_blocks sb) in
       io_bind (io_iter (write_region_block D sb region) (rev [1..<block_count])) (\<lambda>_.
       io_bind (write_region_block D sb region 0) (\<lambda>_.
         flush D)))))))"

definition read_journal_region :: "'d block_device \<Rightarrow> superblock \<Rightarrow> nat \<Rightarrow> ('d, bytes) io" where
  "read_journal_region D sb capacity =
     io_fold
       (\<lambda>index region.
          io_bind (io_lift (ok_or InvalidData (word_try_from index))) (\<lambda>index_u64.
          io_bind (io_lift (ok_or InvalidData (checked_add (journal_start sb) index_u64))) (\<lambda>b.
          io_bind (io_lift (ok_or InvalidData (usize_mul index BLOCK_SIZE))) (\<lambda>start.
          io_bind (io_lift (ok_or InvalidData (usize_add start BLOCK_SIZE))) (\<lambda>end.
          io_bind (read_block D b) (\<lambda>block_data.
            io_return (copy_slice region start block_data)))))))
       [0..<unat (journal_blocks sb)] (replicate capacity 0)"

definition decode_journal_region :: "superblock \<Rightarrow> nat \<Rightarrow> bytes \<Rightarrow> journal_entry list res" where
  "decode_journal_region sb capacity region =
     (if all_zero region then Inr []
      else if subslice region 0 4 \<noteq> REGION_MAGIC then Inl InvalidData
      else if read_u16 region 4 \<noteq> REGION_VERSION then Inl InvalidData
      else if region ! 6 \<noteq> 0 \<or> region ! 7 \<noteq> 0 then Inl InvalidData
      else if \<not> all_zero (subslice region 20 32) then Inl InvalidData
      else
        (let payload_len = unat (read_u64 region 8) in
         bindR (ok_or InvalidData (usize_add 32 payload_len)) (\<lambda>used.
           if used > capacity then Inl InvalidData
           else if \<not> all_zero (drop used region) then Inl InvalidData
           else
             let expected_checksum = read_u32 region 16;
                 checksummed = copy_slice (take used region) 16 (replicate 4 0) in
             if crc32 checksummed \<noteq> expected_checksum then Inl InvalidData
             else
               bindR (decode_entries (subslice region 32 used)) (\<lambda>entries.
               bindR (validate_entries sb entries) (\<lambda>_. Inr entries)))))"

definition load_journal_image :: "'d block_device \<Rightarrow> superblock \<Rightarrow> ('d, journal_entry list) io" where
  "load_journal_image D sb =
     io_bind (io_look (validate_region D sb)) (\<lambda>_.
     io_bind (io_lift (region_capacity sb)) (\<lambda>capacity.
     io_bind (read_journal_region D sb capacity) (\<lambda>region.
       io_lift (decode_journal_region sb capacity region))))"

section \<open>The journal image\<close>

fun entry_home :: "superblock \<Rightarrow> journal_entry \<Rightarrow> bool" where
  "entry_home sb (Write txid b data) = home_block sb b"
| "entry_home sb _ = True"

definition journal_ok :: "superblock \<Rightarrow> journal_entry list \<Rightarrow> bool" where
  "journal_ok sb es \<longleftrightarrow> list_all entry_ok es \<and> tx_ordered None es \<and> list_all (entry_home sb) es"

lemma validate_entries_acc:
  "is_ok (iterR (validate_entry sb) es act) \<longleftrightarrow> tx_ordered act es \<and> list_all (entry_home sb) es"
proof (induction es arbitrary: act)
  case Nil
  then show ?case by simp
next
  case (Cons e es)
  then show ?case
    by (cases e) (auto simp: Let_def home_block_def)
qed

lemma validate_entries_iff:
  "validate_entries sb es = Inr () \<longleftrightarrow> tx_ordered None es \<and> list_all (entry_home sb) es"
  using validate_entries_acc [of sb es None]
  by (auto simp: validate_entries_def bindR_Inr_iff is_ok_iff)

lemma validate_entries_error: "validate_entries sb es = Inl e \<Longrightarrow> e = InvalidData"
proof -
  have "iterR (validate_entry sb) es act = Inl e \<Longrightarrow> e = InvalidData" for act
  proof (induction es arbitrary: act)
    case Nil
    then show ?case by simp
  next
    case (Cons x es)
    then show ?case by (cases x) (auto simp: Let_def split: if_splits)
  qed
  then show "validate_entries sb es = Inl e \<Longrightarrow> e = InvalidData"
    by (auto simp: validate_entries_def elim: bindR.elims)
qed

text \<open>The bytes of the region: header, payload, zero padding.\<close>

definition region_with :: "u32 \<Rightarrow> nat \<Rightarrow> bytes \<Rightarrow> bytes" where
  "region_with c capacity payload =
     REGION_MAGIC @ to_le_bytes REGION_VERSION @ [0, 0] @
     to_le_bytes (word_of_nat (length payload) :: u64) @ to_le_bytes c @ replicate 12 0 @
     payload @ replicate (capacity - (32 + length payload)) 0"

definition region_image :: "nat \<Rightarrow> bytes \<Rightarrow> bytes" where
  "region_image capacity payload =
     region_with (crc32 (take (32 + length payload) (region_with 0 capacity payload))) capacity payload"

lemma length_REGION_MAGIC [simp]: "length REGION_MAGIC = 4"
  by (simp add: REGION_MAGIC_def)

lemma length_region_with:
  "32 + length payload \<le> capacity \<Longrightarrow> length (region_with c capacity payload) = capacity"
  by (simp add: region_with_def)

lemma region_with_fields:
  "subslice (region_with c capacity payload) 0 4 = REGION_MAGIC"
  "subslice (region_with c capacity payload) 4 6 = to_le_bytes REGION_VERSION"
  "subslice (region_with c capacity payload) 6 8 = [0, 0]"
  "subslice (region_with c capacity payload) 8 16 = to_le_bytes (word_of_nat (length payload) :: u64)"
  "subslice (region_with c capacity payload) 16 20 = to_le_bytes c"
  "subslice (region_with c capacity payload) 20 32 = replicate 12 0"
  "drop 32 (region_with c capacity payload) =
     payload @ replicate (capacity - (32 + length payload)) 0"
  by (simp_all add: region_with_def slice_simps)

lemma region_with_checksum:
  "copy_slice (region_with c capacity payload) 16 (to_le_bytes c') = region_with c' capacity payload"
  by (simp add: region_with_def copy_slice_def)

lemma journal_image_bytes_eq:
  assumes "capacity < 2 ^ 64"
  shows "journal_image_bytes capacity payload =
    (if 32 + length payload \<le> capacity then Inr (region_image capacity payload) else Inl InvalidInput)"
proof (cases "32 + length payload \<le> capacity")
  case False
  then show ?thesis
    by (simp add: journal_image_bytes_def usize_add_def)
next
  case True
  have zero_flags: "replicate 2 (0 :: u8) = [0, 0]" by (simp add: numeral_2_eq_2)
  have "copy_fields (replicate capacity 0)
      [(0, REGION_MAGIC), (4, to_le_bytes REGION_VERSION), (6, to_le_bytes (0 :: u16)),
       (8, to_le_bytes (word_of_nat (length payload) :: u64)), (32, payload)] =
      region_with 0 capacity payload"
    using True replicate_add [of 4 12 "0 :: u8"] zero_flags by (simp add: copy_fields_lay region_with_def)
  moreover have "usize_add 32 (length payload) = Some (32 + length payload)"
    "word_try_from (length payload) = Some (word_of_nat (length payload) :: u64)"
    using True assms by (simp_all add: usize_add_def word_try_from_def)
  ultimately show ?thesis
    using True
    by (simp add: journal_image_bytes_def Let_def region_with_checksum region_image_def)
qed


abbreviation journal_stream :: "journal_entry list \<Rightarrow> bytes" where
  "journal_stream es \<equiv> concat (map journal_record es)"

lemma decode_region_image:
  assumes "journal_ok sb es" and "32 + length (journal_stream es) \<le> capacity" and "capacity < 2 ^ 64"
  shows "decode_journal_region sb capacity (region_image capacity (journal_stream es)) = Inr es"
proof -
  let ?p = "journal_stream es"
  let ?used = "32 + length ?p"
  let ?c = "crc32 (take ?used (region_with 0 capacity ?p))"
  let ?r = "region_with ?c capacity ?p"
  have len: "length ?r = capacity" using assms(2) by (simp add: length_region_with)
  have size: "unat (word_of_nat (length ?p) :: u64) = length ?p"
    using assms(2,3) by (simp add: unat_of_nat)
  have reads: "read_u16 ?r 4 = REGION_VERSION" "read_u64 ?r 8 = word_of_nat (length ?p)"
    "read_u32 ?r 16 = ?c"
    using assms(2) len by (simp_all add: read_eq_iffs region_with_fields)
  have flags: "?r ! 6 = 0" "?r ! 7 = 0"
    using slice_two [of 8 6 ?r] region_with_fields(3) [of ?c capacity ?p] assms(2) len by simp_all
  have magic: "\<not> all_zero ?r"
    by (simp add: region_with_def all_zero_def REGION_MAGIC_def)
  have tail: "drop ?used ?r = replicate (capacity - ?used) 0"
    using arg_cong [OF region_with_fields(7) [of ?c capacity ?p], of "drop (length ?p)"]
    by (simp add: add.commute)
  have payload: "subslice ?r 32 ?used = ?p"
    using region_with_fields(7) [of ?c capacity ?p] by (simp add: subslice_def)
  have crc: "copy_slice (take ?used ?r) 16 (replicate 4 0) = take ?used (region_with 0 capacity ?p)"
    using take_copy_slice_after [of 16 "replicate 4 0" ?used ?r] len assms(2)
      region_with_checksum [of ?c capacity ?p 0] by simp
  have "decode_entries ?p = Inr es" "validate_entries sb es = Inr ()"
    using assms by (simp_all add: decode_entries_iff journal_ok_def validate_entries_iff)
  then show ?thesis
    using assms(2,3) magic
    by (simp add: decode_journal_region_def region_image_def reads flags region_with_fields size
        usize_add_def tail payload crc Let_def)
qed

lemma decode_region_canonical:
  assumes "decode_journal_region sb capacity region = Inr es" and "length region = capacity"
    and "32 \<le> capacity" and "capacity < 2 ^ 64"
  shows "all_zero region \<and> es = [] \<or>
    journal_ok sb es \<and> 32 + length (journal_stream es) \<le> capacity \<and>
    region = region_image capacity (journal_stream es)"
proof (cases "all_zero region")
  case True
  then show ?thesis using assms(1) by (simp add: decode_journal_region_def)
next
  case False
  let ?n = "unat (read_u64 region 8)"
  have hdr: "subslice region 0 4 = REGION_MAGIC" "read_u16 region 4 = REGION_VERSION"
    "region ! 6 = 0" "region ! 7 = 0" "all_zero (subslice region 20 32)"
    "32 + ?n \<le> capacity" "all_zero (drop (32 + ?n) region)"
    and crc: "crc32 (copy_slice (take (32 + ?n) region) 16 (replicate 4 0)) = read_u32 region 16"
    and dec: "decode_entries (subslice region 32 (32 + ?n)) = Inr es"
    and val: "validate_entries sb es = Inr ()"
    using assms(1) False unfolding decode_journal_region_def Let_def
    by (auto simp: bindR_Inr_iff usize_add_Some_iff not_less split: if_splits)
  let ?p = "subslice region 32 (32 + ?n)"
  have n: "length ?p = ?n" using hdr assms(2) by simp
  have p: "list_all entry_ok es" "?p = journal_stream es"
    using dec n hdr(6) assms(4) by (simp_all add: decode_entries_iff)
  have len: "word_of_nat (length ?p) = read_u64 region 8" using n by simp
  have tail: "drop 32 region = ?p @ replicate (capacity - (32 + length ?p)) 0"
    using hdr(7) drop_slice_split [of 32 "32 + ?n" region] assms(2) by (simp add: all_zero_iff n)
  have r: "region = region_with (read_u32 region 16) capacity ?p"
    by (rule same_fields_eq [where js = "[4, 6, 8, 16, 20, 32]"])
      (use hdr assms(2,3) tail slice_two [of 8 6 region] in
        \<open>simp add: region_with_fields len slice_reads all_zero_iff\<close>)
  have "copy_slice (take (32 + ?n) region) 16 (replicate 4 0) =
      take (32 + length ?p) (region_with 0 capacity ?p)"
    using take_copy_slice_after [of 16 "replicate 4 0" "32 + ?n" region] hdr(6) assms(2,3) n
      region_with_checksum [of "read_u32 region 16" capacity ?p 0] r by simp
  then have "region = region_image capacity ?p"
    using r crc by (simp add: region_image_def)
  moreover have "journal_ok sb es" using p val by (simp add: journal_ok_def validate_entries_iff)
  ultimately show ?thesis using p n hdr(6) by simp
qed


section \<open>On a device\<close>

definition journal_capacity :: "superblock \<Rightarrow> nat" where
  "journal_capacity sb = unat (journal_blocks sb) * 4096"

text \<open>The journal that the contents of a device hold.\<close>

definition journal_of :: "superblock \<Rightarrow> (u64 \<Rightarrow> bytes) \<Rightarrow> journal_entry list res" where
  "journal_of sb v = decode_journal_region sb (journal_capacity sb) (region_bytes v (journal_region sb))"

definition journal_fits :: "superblock \<Rightarrow> journal_entry list \<Rightarrow> bool" where
  "journal_fits sb es \<longleftrightarrow>
     journal_ok sb es \<and> 32 + length (journal_stream es) \<le> journal_capacity sb"

definition journal_writes :: "superblock \<Rightarrow> journal_entry list \<Rightarrow> writes" where
  "journal_writes sb es =
     region_writes (journal_region sb) (region_image (journal_capacity sb) (journal_stream es))"

lemma journal_capacity_bounds:
  assumes "sb_ok sb"
  shows "journal_capacity sb < 2 ^ 64" "32 \<le> journal_capacity sb" "0 < unat (journal_blocks sb)"
    "journal_capacity sb = length (journal_region sb) * 4096"
proof -
  show "journal_capacity sb < 2 ^ 64"
    using region_bytes_bound(1) [OF assms] by (simp add: journal_capacity_def)
  show pos: "0 < unat (journal_blocks sb)"
    using sb_ok_layout [OF assms] by (simp add: sb_layout_def unat_gt_0)
  then show "32 \<le> journal_capacity sb" by (simp add: journal_capacity_def)
  show "journal_capacity sb = length (journal_region sb) * 4096"
    using sb_ok_layout [OF assms] by (simp add: journal_capacity_def geometry)
qed

lemma region_capacity_eq: "sb_ok sb \<Longrightarrow> region_capacity sb = Inr (journal_capacity sb)"
  using region_bytes_bound(1) [of sb]
  by (simp add: region_capacity_def journal_capacity_def checked_mul_def unat_word_ariths)

lemma validate_region_ok:
  assumes "sb_layout sb" and "block_count D d = total_blocks sb"
  shows "validate_region D sb d = Inr ()"
proof -
  have "checked_add (journal_start sb) (journal_blocks sb) = Some (journal_start sb + journal_blocks sb)"
    using sb_layout_unat [OF assms(1)] by (simp add: checked_add_layout)
  moreover have "\<not> total_blocks sb < journal_start sb + journal_blocks sb"
    using sb_layout_unat [OF assms(1)] by (simp add: word_less_nat_alt)
  ultimately show ?thesis
    using assms by (simp add: validate_region_def SUPERBLOCK_BLOCK_def sb_layout_def)
qed

text \<open>The index arithmetic of the two loops never overflows on a well-formed superblock.\<close>

lemma journal_index:
  assumes "sb_ok sb" and "i < unat (journal_blocks sb)"
  shows "word_try_from i = Some (word_of_nat i :: u64)"
    and "checked_add (journal_start sb) (word_of_nat i) = Some (journal_start sb + word_of_nat i)"
    and "usize_mul i 4096 = Some (i * 4096)"
    and "usize_add (i * 4096) 4096 = Some (i * 4096 + 4096)"
proof -
  have j: "unat (journal_start sb) = 1" "1 + unat (journal_blocks sb) < 2 ^ 64"
    using sb_layout_unat [OF sb_ok_layout [OF assms(1)]] unat_lt_64 [of "total_blocks sb"] by simp_all
  show "word_try_from i = Some (word_of_nat i :: u64)"
    using assms(2) j by (simp add: word_try_from_def)
  show "checked_add (journal_start sb) (word_of_nat i) = Some (journal_start sb + word_of_nat i)"
    using assms(2) j by (simp add: checked_add_Some_iff)
  show "usize_mul i 4096 = Some (i * 4096)"
    "usize_add (i * 4096) 4096 = Some (i * 4096 + 4096)"
    using block_end [OF assms(2)] region_bytes_bound(1) [OF assms(1)]
    by (simp_all add: usize_mul_def usize_add_def)
qed

lemma read_journal_region_eq:
  assumes "sb_ok sb"
  shows "read_journal_region D sb capacity = read_region_blocks D InvalidData (journal_region sb) capacity"
proof -
  have "enumerate 0 (journal_region sb) =
      map (\<lambda>i. (i, journal_start sb + word_of_nat i)) [0..<unat (journal_blocks sb)]"
    unfolding journal_region_eq [OF sb_ok_layout [OF assms]]
    by (rule nth_equalityI) (simp_all add: nth_enumerate_eq)
  then show ?thesis
    unfolding read_journal_region_def read_region_blocks_def
    by (simp add: io_fold_map) (rule fun_cong, rule io_fold_cong, simp add: journal_index [OF assms] fun_eq_iff)
qed

lemma write_journal_blocks_eq:
  assumes "sb_ok sb"
  shows "io_bind (io_iter (write_region_block D sb region) (rev [1..<unat (journal_blocks sb)]))
      (\<lambda>_. io_bind (write_region_block D sb region 0) (\<lambda>_. flush D)) =
    io_bind (write_all D (region_writes (journal_region sb) region)) (\<lambda>_. flush D)"
proof -
  have lay: "sb_layout sb" by (rule sb_ok_layout [OF assms])
  let ?js = "journal_region sb" and ?n = "unat (journal_blocks sb)"
  have n: "0 < ?n" "length ?js = ?n" using journal_capacity_bounds(3) [OF assms] lay by (simp_all add: geometry)
  have nth: "?js ! i = journal_start sb + word_of_nat i" if "i < ?n" for i
    using that by (simp add: journal_region_eq [OF lay])
  have one: "write_region_block D sb region i = write_image_block D (?js ! i) region i" if "i < ?n" for i
    using journal_index [OF assms that] nth [OF that]
    by (simp add: write_region_block_def write_image_block_def)
  have "io_iter (write_region_block D sb region) (rev [1..<?n]) =
      io_iter (\<lambda>i. write_image_block D (?js ! i) region i) (rev [1..<?n])"
    by (rule io_iter_cong) (simp add: one)
  moreover have "(case ?js of [] \<Rightarrow> io_return () | first # _ \<Rightarrow> write_image_block D first region 0) =
      write_image_block D (?js ! 0) region 0"
    using n by (cases ?js) simp_all
  ultimately have "io_bind (io_iter (write_region_block D sb region) (rev [1..<?n]))
      (\<lambda>_. write_region_block D sb region 0) = write_region_blocks D ?js region"
    unfolding write_region_blocks_def n(2) one [OF n(1)] by (simp only:)
  moreover have "\<dots> = write_all D (region_writes ?js region)"
    by (rule write_region_blocks_eq) (use journal_capacity_bounds [OF assms] in simp)
  ultimately show ?thesis
    by (simp only: io_bind_assoc [symmetric])
qed

lemma store_journal_image_eq:
  assumes "sb_ok sb" and "block_count D d = total_blocks sb" and "list_all entry_ok es"
  shows "store_journal_image D sb es d =
    (if journal_fits sb es then io_bind (write_all D (journal_writes sb es)) (\<lambda>_. flush D) d
     else (Inl (if tx_ordered None es \<and> list_all (entry_home sb) es then InvalidInput else InvalidData), d))"
proof -
  let ?cap = "journal_capacity sb"
  have enc: "encode_entries es = Inr (journal_stream es)" by (rule encode_entries_eq [OF assms(3)])
  have val: "validate_entries sb es =
      (if tx_ordered None es \<and> list_all (entry_home sb) es then Inr () else Inl InvalidData)"
    using validate_entries_iff [of sb es] validate_entries_error [of sb es]
    by (cases "validate_entries sb es") auto
  have bytes: "journal_image_bytes ?cap (journal_stream es) =
      (if 32 + length (journal_stream es) \<le> ?cap
       then Inr (region_image ?cap (journal_stream es)) else Inl InvalidInput)"
    by (rule journal_image_bytes_eq [OF journal_capacity_bounds(1) [OF assms(1)]])
  show ?thesis
  proof (cases "journal_fits sb es")
    case True
    then have "validate_entries sb es = Inr ()" "32 + length (journal_stream es) \<le> ?cap"
      using val by (simp_all add: journal_fits_def journal_ok_def)
    then have "store_journal_image D sb es d =
        io_bind (io_iter (write_region_block D sb (region_image ?cap (journal_stream es)))
            (rev [1..<unat (journal_blocks sb)]))
          (\<lambda>_. io_bind (write_region_block D sb (region_image ?cap (journal_stream es)) 0)
            (\<lambda>_. flush D)) d"
      unfolding store_journal_image_def enc region_capacity_eq [OF assms(1)]
      by (simp add: io_simps bytes validate_region_ok [OF sb_ok_layout [OF assms(1)] assms(2)] Let_def)
    with True show ?thesis
      by (simp only: write_journal_blocks_eq [OF assms(1)] journal_writes_def if_True)
  next
    case False
    then show ?thesis
      using assms(3) unfolding store_journal_image_def enc region_capacity_eq [OF assms(1)] val
      by (auto simp: io_simps bytes validate_region_ok [OF sb_ok_layout [OF assms(1)] assms(2)]
          journal_fits_def journal_ok_def io_bind_def)
  qed
qed

context block_dev
begin

lemma load_journal_wp:
  assumes "sb_ok sb" and "at (total_blocks sb) v u d"
  shows "wp (load_journal_image D sb)
    (\<lambda>es d'. at (total_blocks sb) v u d' \<and> journal_of sb v = Inr es)
    (\<lambda>e d'. at (total_blocks sb) v u d' \<and> journal_of sb v = Inl e) d"
proof -
  have lay: "sb_layout sb" by (rule sb_ok_layout [OF assms(1)])
  have cap: "journal_capacity sb = length (journal_region sb) * 4096"
    "length (journal_region sb) * 4096 < 2 ^ 64"
    using journal_capacity_bounds [OF assms(1)] by simp_all
  have all: "list_all (\<lambda>b. b < total_blocks sb) (journal_region sb)"
    using region_in_device(1) [OF lay] by (simp add: list_all_iff)
  have "block_count D d = total_blocks sb" using assms(2) by (simp add: dev_at_def)
  then have ok: "validate_region D sb d = Inr ()" by (rule validate_region_ok [OF lay])
  have "wp (read_region_blocks D InvalidData (journal_region sb) (journal_capacity sb))
      (\<lambda>region d'. at (total_blocks sb) v u d' \<and> region = region_bytes v (journal_region sb))
      (\<lambda>_ _. False) d"
    unfolding cap(1) by (rule wp_mono [OF read_region_wp [OF assms(2) cap(2)]]) (use all in auto)
  then show ?thesis
    unfolding load_journal_image_def read_journal_region_eq [OF assms(1)]
      region_capacity_eq [OF assms(1)] io_bind_lift_Inr
    by (simp add: wp_bind wp_look ok)
      (rule wp_mono, assumption, auto simp: wp_lift journal_of_def split: sum.splits)
qed

lemma load_journal_fst:
  "sb_ok sb \<Longrightarrow> at (total_blocks sb) v u d \<Longrightarrow> fst (load_journal_image D sb d) = journal_of sb v"
  using load_journal_wp [of sb v u d] by (auto simp: wp_def split: prod.splits sum.splits)

lemma store_journal_wp:
  assumes "sb_ok sb" and "at (total_blocks sb) v u d" and "list_all entry_ok es"
  shows "wp (store_journal_image D sb es)
    (\<lambda>_ d'. journal_fits sb es \<and>
       (let v' = apply_writes (journal_writes sb es) v id
        in at (total_blocks sb) v' (if syncs then v' else u) d'))
    (\<lambda>_ d'. (\<exists>v'. at (total_blocks sb) v' u d' \<and> (\<not> journal_fits sb es \<longrightarrow> v' = v)) \<and>
       (journal_fits sb es \<longrightarrow> faulty)) d"
proof -
  have d: "block_count D d = total_blocks sb" using assms(2) by (simp add: dev_at_def)
  note eq = store_journal_image_eq [OF assms(1) d assms(3)]
  show ?thesis
  proof (cases "journal_fits sb es")
    case False
    then show ?thesis using assms(2) by (auto simp: wp_def eq)
  next
    case True
    have len: "length (region_image (journal_capacity sb) (journal_stream es)) =
        length (journal_region sb) * 4096"
      using True journal_capacity_bounds(4) [OF assms(1)]
      by (simp add: journal_fits_def region_image_def length_region_with)
    have blocks: "\<forall>(b, x) \<in> set (journal_writes sb es). length x = BLOCK_SIZE"
      using region_writes_lengths [OF len] by (auto simp: journal_writes_def)
    have "list_all (\<lambda>(b, x). b < total_blocks sb) (journal_writes sb es)"
      using region_in_device(1) [OF sb_ok_layout [OF assms(1)]]
        region_writes_blocks [of "journal_region sb"]
      unfolding journal_writes_def list_all_iff by (metis (mono_tags, lifting) case_prodI2 fst_conv image_eqI)
    with write_flush_wp [OF assms(2) blocks]
    have "wp (io_bind (write_all D (journal_writes sb es)) (\<lambda>_. flush D))
      (\<lambda>_ d'. at (total_blocks sb) (apply_writes (journal_writes sb es) v id)
         (if syncs then apply_writes (journal_writes sb es) v id else u) d')
      (\<lambda>_ d'. (\<exists>v'. at (total_blocks sb) v' u d') \<and> faulty) d"
      by (auto elim!: wp_mono)
    then show ?thesis
      using True by (simp add: wp_def eq Let_def split: prod.splits sum.splits)
  qed
qed

end

section \<open>The journal that device contents hold\<close>

lemma journal_of_writes:
  assumes "sb_ok sb" and "journal_fits sb es"
  shows "journal_of sb (apply_writes (journal_writes sb es) v id) = Inr es"
proof -
  have "region_bytes (apply_writes (journal_writes sb es) v id) (journal_region sb) =
      region_image (journal_capacity sb) (journal_stream es)"
    unfolding journal_writes_def
    by (rule region_bytes_writes)
      (use assms(2) journal_capacity_bounds(4) [OF assms(1)] in
        \<open>simp_all add: journal_fits_def region_image_def length_region_with\<close>)
  then show ?thesis
    using assms journal_capacity_bounds(1) [OF assms(1)]
    by (simp add: journal_of_def journal_fits_def decode_region_image)
qed

lemma journal_of_cong:
  "(\<And>b. b \<in> set (journal_region sb) \<Longrightarrow> v b = v' b) \<Longrightarrow> journal_of sb v = journal_of sb v'"
  unfolding journal_of_def by (simp add: region_bytes_cong [of "journal_region sb" v v'])

lemma journal_of_home:
  assumes "sb_layout sb" and "\<forall>(b, x) \<in> set ws. home_block sb b"
  shows "journal_of sb (apply_writes ws v id) = journal_of sb v"
  by (rule journal_of_cong)
    (use assms home_block_not_journal [OF assms(1)] in \<open>auto intro!: apply_writes_other\<close>)

lemma journal_of_ok:
  assumes "sb_ok sb" and "journal_of sb v = Inr es"
    and "\<And>b. b < total_blocks sb \<Longrightarrow> length (v b) = 4096"
  shows "journal_ok sb es"
proof -
  have "length (region_bytes v (journal_region sb)) = journal_capacity sb"
    using length_region_bytes [of "journal_region sb" v] assms(3)
      region_in_device(1) [OF sb_ok_layout [OF assms(1)]] journal_capacity_bounds(4) [OF assms(1)]
    by simp
  from decode_region_canonical [OF assms(2) [unfolded journal_of_def] this]
    journal_capacity_bounds(1,2) [OF assms(1)]
  show ?thesis by (auto simp: journal_ok_def)
qed

lemma journal_writes_home:
  assumes "sb_layout sb" and "home_block sb b"
  shows "apply_writes (journal_writes sb es) v id b = v b"
  by (rule apply_writes_other)
    (use home_block_not_journal [OF assms] in \<open>simp add: journal_writes_def\<close>)

lemma decode_region_error: "decode_journal_region sb cap region = Inl e \<Longrightarrow> e = InvalidData"
  by (auto simp: decode_journal_region_def Let_def ok_or_def bindR_Inl_iff dest: decode_entries_error
      validate_entries_error split: if_splits option.splits)

text \<open>A region image whose bytes differ from another in one place, outside the length field.\<close>

lemma region_image_update:
  assumes "region_image cap p = (region_image cap q)[i := x]" and "i < cap"
    and "\<not> (8 \<le> i \<and> i < 16)" and "32 + length p \<le> cap" and "32 + length q \<le> cap" and "cap < 2 ^ 64"
  shows "region_image cap q ! i = x"
proof -
  let ?q = "region_image cap q" and ?p = "region_image cap p"
  have len: "length ?q = cap" "length ?p = cap"
    using assms(4,5) by (simp_all add: region_image_def length_region_with)
  have "subslice ?p 8 16 = subslice ?q 8 16"
    unfolding assms(1) by (rule slice_update) (use assms(3) in simp)
  then have "word_of_nat (length p) = (word_of_nat (length q) :: u64)"
    by (simp add: region_image_def region_with_fields to_le_bytes_inj)
  then have n: "length p = length q"
    using assms(4-6) by (metis unat_u64_of_nat less_trans le_add2 le_less_trans)
  have tails: "drop 32 ?p = p @ replicate (cap - (32 + length q)) 0"
    "drop 32 ?q = q @ replicate (cap - (32 + length q)) 0"
    by (simp_all add: region_image_def region_with_fields n)
  show ?thesis
  proof (cases "i < 32 \<or> 32 + length q \<le> i")
    case True
    have "p = q"
    proof (cases "i < 32")
      case True
      then have "drop 32 ?p = drop 32 ?q" unfolding assms(1) by (rule drop_update_cancel)
      then show ?thesis unfolding tails by (rule append_same_eq [THEN iffD1])
    next
      case False
      then have "drop 32 ?p = (drop 32 ?q)[i - 32 := x]"
        unfolding assms(1) by (intro drop_update_swap) simp
      moreover have "\<not> i - 32 < length q" using True False by simp
      ultimately show ?thesis
        unfolding tails using n by (simp only: list_update_append if_False append_eq_append_conv simp_thms)
    qed
    with assms(1,2) len show ?thesis by (metis nth_list_update_eq)
  next
    case False
    let ?z = "\<lambda>w. copy_slice w 16 (to_le_bytes (0 :: u32))"
    have z: "?z ?q = region_with 0 cap q" "?z ?p = region_with 0 cap p"
      by (simp_all only: region_image_def region_with_checksum)
    have upd: "take (32 + length q) (region_with 0 cap p) = (take (32 + length q) (region_with 0 cap q))[i := x]"
      unfolding z [symmetric] assms(1) using False assms(2) len
      by (subst copy_slice_update) (simp_all add: take_update_swap)
    have "subslice ?p 16 20 = subslice ?q 16 20"
      unfolding assms(1) by (rule slice_update) (use False in simp)
    then have "crc32 (take (32 + length q) (region_with 0 cap p)) =
        crc32 (take (32 + length q) (region_with 0 cap q))"
      by (simp add: region_image_def region_with_fields to_le_bytes_inj n)
    then have "x = take (32 + length q) (region_with 0 cap q) ! i"
      unfolding upd using False assms(5) by (simp add: crc32_update_eq length_region_with)
    also have "\<dots> = ?q ! i"
      unfolding z [symmetric] using False len assms(2,5) by (simp add: copy_slice_nth)
    finally show ?thesis by simp
  qed
qed

lemma region_image_magic:
  "region_image cap p ! 0 = 0x4a" "region_image cap p ! 1 = 0x52"
  by (simp_all add: region_image_def region_with_def REGION_MAGIC_def)

section \<open>Properties\<close>

text \<open>C20. Storing and loading the journal region. On a file-backed device of the right size, an
  entry list that is well ordered, targets only home blocks and fits the reservation is
  stored without error; loading returns exactly these entries, every block outside the
  journal keeps its contents, and the new contents are durable.\<close>

theorem store_load_journal:
  assumes "sb_ok sb" and "fbd_inv dev" and "fbd_blocks dev = total_blocks sb"
    and "journal_fits sb es"
  shows "\<exists>dev'. store_journal_image file_device sb es dev = (Inr (), dev') \<and>
    fst (load_journal_image file_device sb dev') = Inr es \<and>
    (\<forall>b. home_block sb b \<longrightarrow> fbd_view dev' b = fbd_view dev b) \<and>
    fbd_durable dev' = fbd_view dev'"
proof -
  let ?v = "apply_writes (journal_writes sb es) (fbd_view dev) id"
  have at: "file_dev.at (total_blocks sb) (fbd_view dev) (fbd_durable dev) dev"
    using assms(2,3) by (simp add: dev_at_def file_device_def)
  have es: "list_all entry_ok es" using assms(4) by (simp add: journal_fits_def journal_ok_def)
  have "wp (store_journal_image file_device sb es)
      (\<lambda>_ d'. file_dev.at (total_blocks sb) ?v ?v d') (\<lambda>_ _. False) dev"
    by (rule wp_mono [OF file_dev.store_journal_wp [OF assms(1) at es]])
      (use assms(4) in \<open>auto simp: Let_def\<close>)
  then obtain dev' where dev': "store_journal_image file_device sb es dev = (Inr (), dev')"
    and at': "file_dev.at (total_blocks sb) ?v ?v dev'"
    by (elim wp_total) auto
  have "fst (load_journal_image file_device sb dev') = Inr es"
    using file_dev.load_journal_fst [OF assms(1) at'] journal_of_writes [OF assms(1,4)] by simp
  moreover have "fbd_view dev' = ?v" "fbd_durable dev' = ?v" using at' by (simp_all add: dev_at_def)
  ultimately show ?thesis
    using dev' journal_writes_home [OF sb_ok_layout [OF assms(1)]] by auto
qed

theorem store_load_journal_witness:
  "\<exists>dev'. store_journal_image file_device demo_superblock
      [Begin 0, Write 0 12 (replicate 4096 9), Commit 0] (blank_device 16) = (Inr (), dev') \<and>
    fst (load_journal_image file_device demo_superblock dev') =
      Inr [Begin 0, Write 0 12 (replicate 4096 9), Commit 0]"
proof -
  let ?es = "[Begin 0, Write 0 12 (replicate 4096 9), Commit 0]"
  have "journal_fits demo_superblock ?es"
    by (simp add: journal_fits_def journal_ok_def length_journal_record journal_capacity_def
        home_block_def demo_superblock_def reserved_blocks_def)
  moreover have "fbd_inv (blank_device 16)" "fbd_blocks (blank_device 16) = total_blocks demo_superblock"
    by (simp_all add: blank_device_inv, simp_all add: blank_device_def demo_superblock_def)
  ultimately show ?thesis
    using store_load_journal [OF demo_superblock_ok, of "blank_device 16" ?es] by blast
qed



end
