(* ===== verification/FS_Recovery.thy ===== *)
theory FS_Recovery
  imports FS_Journal_Region
begin

text \<open>
  Recovery and checkpointing, \<^verbatim>\<open>src/recovery.rs\<close> and
  \<^verbatim>\<open>src/journal_checkpoint.rs\<close>: replay of the committed transactions of the
  durable journal to their home blocks, one flush, and clearing of the journal. Recovery is
  shown to implement the abstract replay of the journal image, to be repeatable after an
  interruption at any home write, and checkpointing to change the journal only.
\<close>

section \<open>Recovery\<close>

record recovery_report =
  committed_transactions :: nat
  home_writes :: nat

definition default_report :: recovery_report where
  "default_report = \<lparr>committed_transactions = 0, home_writes = 0\<rparr>"

record recovery_state =
  rc_active :: "u64 option"
  rc_pending :: writes
  rc_report :: recovery_report

definition recover_write ::
  "'d block_device \<Rightarrow> u64 \<times> bytes \<Rightarrow> recovery_report \<Rightarrow> ('d, recovery_report) io" where
  "recover_write D w report =
     io_bind (write_block D (fst w) (snd w)) (\<lambda>_.
     io_bind (io_lift (ok_or InvalidData (usize_add (home_writes report) 1))) (\<lambda>n.
       io_return (report\<lparr>home_writes := n\<rparr>)))"

fun recover_step ::
  "'d block_device \<Rightarrow> journal_entry \<Rightarrow> recovery_state \<Rightarrow> ('d, recovery_state) io" where
  "recover_step D (Begin txid) st =
     (if rc_active st \<noteq> None then io_fail InvalidData
      else io_return (st\<lparr>rc_active := Some txid, rc_pending := []\<rparr>))"
| "recover_step D (Write txid b data) st =
     (if rc_active st \<noteq> Some txid then io_fail InvalidData
      else io_return (st\<lparr>rc_pending := rc_pending st @ [(b, data)]\<rparr>))"
| "recover_step D (Commit txid) st =
     (if rc_active st \<noteq> Some txid then io_fail InvalidData
      else
        io_bind (io_fold (recover_write D) (rc_pending st) (rc_report st)) (\<lambda>report.
        io_bind (io_lift (ok_or InvalidData (usize_add (committed_transactions report) 1))) (\<lambda>n.
          io_return (st\<lparr>rc_pending := [], rc_report := report\<lparr>committed_transactions := n\<rparr>,
                        rc_active := None\<rparr>))))"

definition recover_journal :: "'d block_device \<Rightarrow> superblock \<Rightarrow> ('d, recovery_report) io" where
  "recover_journal D sb =
     io_bind (load_journal_image D sb) (\<lambda>entries.
     io_bind
       (io_fold (recover_step D) entries
          \<lparr>rc_active = None, rc_pending = [], rc_report = default_report\<rparr>)
       (\<lambda>st.
         if home_writes (rc_report st) \<noteq> 0
         then io_bind (flush D) (\<lambda>_. io_return (rc_report st))
         else io_return (rc_report st)))"

section \<open>Checkpointing\<close>

definition checkpoint_journal :: "'d block_device \<Rightarrow> superblock \<Rightarrow> ('d, bool) io" where
  "checkpoint_journal D sb =
     io_bind (load_journal_image D sb) (\<lambda>entries.
       if entries = [] then io_return False
       else
         io_bind
           (io_iter
              (\<lambda>offset.
                 io_bind (io_lift (ok_or InvalidInput (checked_add (journal_start sb) offset)))
                   (\<lambda>b. write_block D b (replicate BLOCK_SIZE 0)))
              (u64_range 0 (journal_blocks sb)))
           (\<lambda>_. io_bind (flush D) (\<lambda>_. io_return True)))"

definition recover_journal_and_checkpoint ::
  "'d block_device \<Rightarrow> superblock \<Rightarrow> ('d, recovery_report) io" where
  "recover_journal_and_checkpoint D sb =
     io_bind (recover_journal D sb) (\<lambda>report.
     io_bind (checkpoint_journal D sb) (\<lambda>_. io_return report))"

section \<open>The replay loop is a sequence of home writes\<close>

lemma write_all_append: "write_all D (xs @ ys) = io_bind (write_all D xs) (\<lambda>_. write_all D ys)"
  by (induction xs) (simp_all add: write_all_def io_bind_assoc)

lemma recover_write_fold:
  assumes "home_writes report + length ws < 2 ^ 64"
  shows "io_fold (recover_write D) ws report =
    io_bind (write_all D ws) (\<lambda>_. io_return (report\<lparr>home_writes := home_writes report + length ws\<rparr>))"
  using assms
proof (induction ws arbitrary: report)
  case Nil
  then show ?case by (simp add: write_all_def)
next
  case (Cons w ws)
  have "usize_add (home_writes report) 1 = Some (home_writes report + 1)"
    using Cons.prems by (simp add: usize_add_def)
  then show ?case
    using Cons by (cases w) (simp add: recover_write_def write_all_def io_bind_assoc)
qed

lemma report_update:
  "r\<lparr>home_writes := n, committed_transactions := m\<rparr> = \<lparr>committed_transactions = m, home_writes = n\<rparr>"
  for r :: recovery_report
  by (cases r) simp

lemma recover_fold:
  assumes "tx_ordered (rc_active st) es"
    and "committed_transactions (rc_report st) + commits es < 2 ^ 64"
    and "home_writes (rc_report st) + length (committed (rc_pending st) es) < 2 ^ 64"
  shows "\<exists>st'. io_fold (recover_step D) es st =
      io_bind (write_all D (committed (rc_pending st) es)) (\<lambda>_. io_return st') \<and>
    rc_report st' =
      \<lparr>committed_transactions = committed_transactions (rc_report st) + commits es,
       home_writes = home_writes (rc_report st) + length (committed (rc_pending st) es)\<rparr>"
  using assms
proof (induction es arbitrary: st)
  case Nil
  then show ?case by (intro exI [of _ st]) (simp add: write_all_def)
next
  case (Cons e es)
  show ?case
  proof (cases e)
    case (Begin txid)
    then show ?thesis
      using Cons.IH [of "st\<lparr>rc_active := Some txid, rc_pending := []\<rparr>"] Cons.prems by simp
  next
    case (Write txid b data)
    then show ?thesis
      using Cons.IH [of "st\<lparr>rc_pending := rc_pending st @ [(b, data)]\<rparr>"] Cons.prems by auto
  next
    case (Commit txid)
    let ?r = "rc_report st" and ?p = "rc_pending st"
    let ?st = "st\<lparr>rc_pending := [],
        rc_report := \<lparr>committed_transactions = committed_transactions ?r + 1,
                      home_writes = home_writes ?r + length ?p\<rparr>, rc_active := None\<rparr>"
    have add: "usize_add (committed_transactions ?r) 1 = Some (committed_transactions ?r + 1)"
      using Cons.prems Commit by (simp add: usize_add_def)
    have "io_fold (recover_write D) ?p ?r =
        io_bind (write_all D ?p) (\<lambda>_. io_return (?r\<lparr>home_writes := home_writes ?r + length ?p\<rparr>))"
      by (rule recover_write_fold) (use Cons.prems Commit in simp)
    then have "recover_step D e st = io_bind (write_all D ?p) (\<lambda>_. io_return ?st)"
      using Cons.prems Commit add by (simp add: io_bind_assoc report_update)
    moreover obtain st' where "io_fold (recover_step D) es ?st =
        io_bind (write_all D (committed [] es)) (\<lambda>_. io_return st')"
      "rc_report st' = \<lparr>committed_transactions = committed_transactions ?r + 1 + commits es,
        home_writes = home_writes ?r + length ?p + length (committed [] es)\<rparr>"
      using Cons.IH [of ?st] Cons.prems Commit by auto
    ultimately show ?thesis
      using Commit by (intro exI [of _ st']) (simp add: io_bind_assoc write_all_append)
  qed
qed

lemma length_committed: "length (committed pend es) \<le> length pend + length es"
  by (induction pend es rule: committed.induct) auto

definition report_of :: "journal_entry list \<Rightarrow> recovery_report" where
  "report_of es = \<lparr>committed_transactions = commits es, home_writes = length (committed [] es)\<rparr>"

text \<open>What recovery does once the journal is loaded.\<close>

definition replay_home :: "'d block_device \<Rightarrow> journal_entry list \<Rightarrow> ('d, recovery_report) io" where
  "replay_home D es =
     (if committed [] es = [] then io_return (report_of es)
      else io_bind (io_bind (write_all D (committed [] es)) (\<lambda>_. flush D)) (\<lambda>_. io_return (report_of es)))"

lemma recover_journal_loaded:
  assumes "load_journal_image D sb d = (Inr es, d')" and "tx_ordered None es" and "length es < 2 ^ 64"
  shows "recover_journal D sb d = replay_home D es d'"
proof -
  let ?st = "\<lparr>rc_active = None, rc_pending = [], rc_report = default_report\<rparr>"
  have "commits es < 2 ^ 64" "length (committed [] es) < 2 ^ 64"
    using assms(3) commits_le_length [of es] length_committed [of "[]" es] by simp_all
  then obtain st' where "io_fold (recover_step D) es ?st =
      io_bind (write_all D (committed [] es)) (\<lambda>_. io_return st')" "rc_report st' = report_of es"
    using recover_fold [of ?st es D] assms(2) by (auto simp: default_report_def report_of_def)
  then show ?thesis
    using assms(1)
    by (simp add: recover_journal_def io_simps io_bind_assoc replay_home_def report_of_def)
      (simp add: write_all_def)
qed

section \<open>On a device\<close>

definition zero_writes :: "superblock \<Rightarrow> writes" where
  "zero_writes sb = map (\<lambda>b. (b, zero_block)) (journal_region sb)"

definition cleared :: "superblock \<Rightarrow> (u64 \<Rightarrow> bytes) \<Rightarrow> u64 \<Rightarrow> bytes" where
  "cleared sb v = apply_writes (zero_writes sb) v id"

definition replayed :: "journal_entry list \<Rightarrow> (u64 \<Rightarrow> bytes) \<Rightarrow> u64 \<Rightarrow> bytes" where
  "replayed es v = apply_writes (committed [] es) v id"

lemma committed_ok:
  assumes "journal_ok sb es"
  shows "\<forall>(b, x) \<in> set (committed [] es). length x = 4096 \<and> home_block sb b"
proof -
  have "list_all entry_ok es \<Longrightarrow> list_all (entry_home sb) es \<Longrightarrow>
    \<forall>(b, x) \<in> set pend. length x = 4096 \<and> home_block sb b \<Longrightarrow>
    \<forall>(b, x) \<in> set (committed pend es). length x = 4096 \<and> home_block sb b" for pend
    by (induction pend es rule: committed.induct) auto
  from this [of "[]"] show ?thesis using assms by (simp add: journal_ok_def)
qed

lemma length_journal_stream: "list_all entry_ok es \<Longrightarrow> length es \<le> length (journal_stream es)"
proof (induction es)
  case (Cons e es)
  then show ?case by (cases e) (simp_all add: length_journal_record)
qed simp

lemma journal_of_length:
  assumes "sb_ok sb" and "journal_of sb v = Inr es"
    and "\<And>b. b < total_blocks sb \<Longrightarrow> length (v b) = 4096"
  shows "length es < 2 ^ 64"
proof -
  have "length (region_bytes v (journal_region sb)) = journal_capacity sb"
    using length_region_bytes [of "journal_region sb" v] assms(3)
      region_in_device(1) [OF sb_ok_layout [OF assms(1)]] journal_capacity_bounds(4) [OF assms(1)]
    by simp
  from decode_region_canonical [OF assms(2) [unfolded journal_of_def] this]
    journal_capacity_bounds(1,2) [OF assms(1)]
  show ?thesis using length_journal_stream [of es] by (auto simp: journal_ok_def)
qed

lemma zero_writes_blocks [simp]: "fst ` set (zero_writes sb) = set (journal_region sb)"
  by (simp add: zero_writes_def image_image)

lemma cleared_journal: "b \<in> set (journal_region sb) \<Longrightarrow> cleared sb v b = zero_block"
  using apply_writes_distinct [of "zero_writes sb" b zero_block v id]
  by (simp add: cleared_def zero_writes_def comp_def)

lemma cleared_other: "b \<notin> set (journal_region sb) \<Longrightarrow> cleared sb v b = v b"
  unfolding cleared_def by (rule apply_writes_other) simp

lemma all_zero_region: "all_zero (region_bytes (\<lambda>_. zero_block) bs)"
  by (induction bs) (auto simp: region_bytes_def all_zero_def list_all_iff)

lemma journal_of_cleared: "journal_of sb (cleared sb v) = Inr []"
proof -
  have "region_bytes (cleared sb v) (journal_region sb) =
      region_bytes (\<lambda>_. zero_block) (journal_region sb)"
    by (rule region_bytes_cong) (simp add: cleared_journal)
  then show ?thesis by (simp add: journal_of_def decode_journal_region_def all_zero_region)
qed

lemma replayed_journal:
  assumes "sb_layout sb" and "journal_ok sb es"
  shows "journal_of sb (replayed es v) = journal_of sb v"
  unfolding replayed_def by (rule journal_of_home) (use assms committed_ok [OF assms(2)] in auto)

lemma replayed_idem: "replayed es (replayed es v) = replayed es v"
  by (simp add: replayed_def apply_writes_idem)

lemma checkpoint_loop_eq:
  assumes "sb_ok sb"
  shows "io_iter
      (\<lambda>offset. io_bind (io_lift (ok_or InvalidInput (checked_add (journal_start sb) offset)))
         (\<lambda>b. write_block D b (replicate BLOCK_SIZE 0)))
      (u64_range 0 (journal_blocks sb)) = write_all D (zero_writes sb)"
proof -
  let ?n = "unat (journal_blocks sb)"
  have "zero_writes sb = map (\<lambda>i. (journal_start sb + word_of_nat i, zero_block)) [0..<?n]"
    by (simp add: zero_writes_def journal_region_eq [OF sb_ok_layout [OF assms]])
  then show ?thesis
    unfolding write_all_def u64_range_def
    by (simp add: io_iter_map) (rule io_iter_cong, simp add: journal_index [OF assms])
qed

context block_dev
begin

lemma recover_wp:
  assumes "sb_ok sb" and "at (total_blocks sb) v u d" and "journal_of sb v = Inr es"
  shows "wp (recover_journal D sb)
    (\<lambda>r d'. r = report_of es \<and>
       at (total_blocks sb) (replayed es v)
         (if committed [] es \<noteq> [] \<and> syncs then replayed es v else u) d')
    (\<lambda>_ d'. (\<exists>k. at (total_blocks sb) (apply_writes (take k (committed [] es)) v id) u d') \<and> faulty) d"
proof -
  have lens: "\<And>b. b < total_blocks sb \<Longrightarrow> length (v b) = 4096"
    using view_length [OF assms(2)] by simp
  have ok: "journal_ok sb es" by (rule journal_of_ok [OF assms(1,3) lens])
  have len: "length es < 2 ^ 64" by (rule journal_of_length [OF assms(1,3) lens])
  have sizes: "\<forall>(b, x) \<in> set (committed [] es). length x = BLOCK_SIZE"
    using committed_ok [OF ok] by auto
  have inside: "list_all (\<lambda>(b, x). b < total_blocks sb) (committed [] es)"
    using committed_ok [OF ok] home_block_not_journal [OF sb_ok_layout [OF assms(1)]]
    by (auto simp: list_all_iff)
  obtain d1 where load: "load_journal_image D sb d = (Inr es, d1)" and d1: "at (total_blocks sb) v u d1"
    using load_journal_wp [OF assms(1,2)] assms(3)
    by (auto simp: wp_def split: prod.splits sum.splits)
  have "recover_journal D sb d = replay_home D es d1"
    by (rule recover_journal_loaded [OF load _ len]) (use ok in \<open>simp add: journal_ok_def\<close>)
  moreover have "wp (replay_home D es)
    (\<lambda>r d'. r = report_of es \<and>
       at (total_blocks sb) (replayed es v)
         (if committed [] es \<noteq> [] \<and> syncs then replayed es v else u) d')
    (\<lambda>_ d'. (\<exists>k. at (total_blocks sb) (apply_writes (take k (committed [] es)) v id) u d') \<and> faulty) d1"
  proof (cases "committed [] es = []")
    case True
    then show ?thesis using d1 by (simp add: replay_home_def wp_return replayed_def)
  next
    case False
    then show ?thesis
      using inside by (auto simp: replay_home_def wp_bind [of "io_bind _ _"] wp_return replayed_def
          intro!: wp_mono [OF write_flush_wp [OF d1 sizes]])
  qed
  ultimately show ?thesis by (simp add: wp_def)
qed

lemma recover_malformed_wp:
  assumes "sb_ok sb" and "at (total_blocks sb) v u d" and "journal_of sb v = Inl e"
  shows "wp (recover_journal D sb) (\<lambda>_ _. False) (\<lambda>e' d'. e' = e \<and> at (total_blocks sb) v u d') d"
  unfolding recover_journal_def wp_bind
  by (rule wp_mono [OF load_journal_wp [OF assms(1,2)]]) (use assms(3) in auto)

lemma checkpoint_wp:
  assumes "sb_ok sb" and "at (total_blocks sb) v u d" and "journal_of sb v = Inr es"
  shows "wp (checkpoint_journal D sb)
    (\<lambda>r d'. r = (es \<noteq> []) \<and>
       at (total_blocks sb) (if es = [] then v else cleared sb v)
         (if es \<noteq> [] \<and> syncs then cleared sb v else u) d')
    (\<lambda>_ d'. (\<exists>k. at (total_blocks sb) (apply_writes (take k (zero_writes sb)) v id) u d') \<and>
       es \<noteq> [] \<and> faulty) d"
proof -
  have sizes: "\<forall>(b, x) \<in> set (zero_writes sb). length x = BLOCK_SIZE"
    by (auto simp: zero_writes_def)
  have inside: "list_all (\<lambda>(b, x). b < total_blocks sb) (zero_writes sb)"
    using region_in_device(1) [OF sb_ok_layout [OF assms(1)]]
    by (auto simp: zero_writes_def list_all_iff)
  have "wp (if es = [] then io_return False
         else io_bind (write_all D (zero_writes sb)) (\<lambda>_. io_bind (flush D) (\<lambda>_. io_return True)))
    (\<lambda>r d'. r = (es \<noteq> []) \<and>
       at (total_blocks sb) (if es = [] then v else cleared sb v)
         (if es \<noteq> [] \<and> syncs then cleared sb v else u) d')
    (\<lambda>_ d'. (\<exists>k. at (total_blocks sb) (apply_writes (take k (zero_writes sb)) v id) u d') \<and>
       es \<noteq> [] \<and> faulty) d1" if "at (total_blocks sb) v u d1" for d1
    using that inside
    by (auto simp: wp_return wp_bind [of "io_bind _ _"] io_bind_assoc [symmetric] cleared_def
        intro!: wp_mono [OF write_flush_wp [OF that sizes]])
  then show ?thesis
    unfolding checkpoint_journal_def checkpoint_loop_eq [OF assms(1)] wp_bind [of "load_journal_image D sb"]
    by (intro wp_mono [OF load_journal_wp [OF assms(1,2)]]) (use assms(3) in auto)
qed

lemma recover_and_checkpoint_wp:
  assumes "sb_ok sb" and "at (total_blocks sb) v u d" and "journal_of sb v = Inr es"
  shows "wp (recover_journal_and_checkpoint D sb)
    (\<lambda>r d'. r = report_of es \<and>
       (let v' = (if es = [] then v else cleared sb (replayed es v))
        in at (total_blocks sb) v' (if es \<noteq> [] \<and> syncs then v' else u) d'))
    (\<lambda>_ d'. (\<exists>v'. at (total_blocks sb) v' u d' \<or> syncs \<and> at (total_blocks sb) v' (replayed es v) d') \<and>
       faulty) d"
proof -
  have lens: "\<And>b. b < total_blocks sb \<Longrightarrow> length (v b) = 4096"
    using view_length [OF assms(2)] by simp
  have ok: "journal_ok sb es" by (rule journal_of_ok [OF assms(1,3) lens])
  have j: "journal_of sb (replayed es v) = Inr es"
    using replayed_journal [OF sb_ok_layout [OF assms(1)] ok] assms(3) by simp
  show ?thesis
    unfolding recover_journal_and_checkpoint_def wp_bind
    by (rule wp_mono [OF recover_wp [OF assms]])
      (auto simp: wp_return Let_def replayed_def split: if_splits
        intro!: wp_mono [OF checkpoint_wp [OF assms(1) _ j]])
qed

end

section \<open>Properties\<close>

lemma apply_writes_Some: "apply_writes ws (\<lambda>b. Some (v b)) Some = (\<lambda>b. Some (apply_writes ws v id b))"
proof (induction ws arbitrary: v)
  case (Cons w ws)
  obtain b x where w: "w = (b, x)" by (cases w)
  have upd: "(\<lambda>c. Some (v c))(b \<mapsto> x) = (\<lambda>c. Some ((v(b := id x)) c))" by auto
  show ?case unfolding w apply_writes_Cons upd by (rule Cons.IH)
qed simp

text \<open>C14. Recovery implements the abstract replay. On a file-backed device, if the stored journal
  loads as \<open>es\<close>, recovery succeeds, reports as many transactions as the replay of that image
  counts, and changes the device exactly as the replay changes the map of its blocks; if the
  journal does not load, recovery returns the same error and changes no block.\<close>

theorem recovery_refines_replay:
  assumes "sb_ok sb" and "fbd_inv dev" and "fbd_blocks dev = total_blocks sb"
  shows "case fst (load_journal_image file_device sb dev) of
      Inl e \<Rightarrow> \<exists>dev'. recover_journal file_device sb dev = (Inl e, dev') \<and> fbd_view dev' = fbd_view dev
    | Inr es \<Rightarrow> \<exists>r dev'. recover_journal file_device sb dev = (Inr r, dev') \<and>
        replay_into \<lparr>image_entries = es\<rparr> (\<lambda>b. Some (fbd_view dev b)) =
          (Inr (committed_transactions r), \<lambda>b. Some (fbd_view dev' b)) \<and>
        home_writes r = length (committed [] es)"
proof -
  have at: "file_dev.at (total_blocks sb) (fbd_view dev) (fbd_durable dev) dev"
    using assms(2,3) by (simp add: dev_at_def file_device_def)
  have load: "fst (load_journal_image file_device sb dev) = journal_of sb (fbd_view dev)"
    by (rule file_dev.load_journal_fst [OF assms(1) at])
  have lens: "\<And>b. b < total_blocks sb \<Longrightarrow> length (fbd_view dev b) = 4096"
    using file_dev.view_length [OF at] by simp
  show ?thesis
  proof (cases "journal_of sb (fbd_view dev)")
    case (Inl e)
    then show ?thesis
      using file_dev.recover_malformed_wp [OF assms(1) at Inl]
      by (auto simp: load wp_def dev_at_def split: prod.splits sum.splits)
  next
    case (Inr es)
    have es: "tx_ordered None es" "length es < 2 ^ 64"
      using journal_of_ok [OF assms(1) Inr lens] journal_of_length [OF assms(1) Inr lens]
      by (simp_all add: journal_ok_def)
    have "wp (recover_journal file_device sb)
        (\<lambda>r d'. r = report_of es \<and> fbd_view d' = replayed es (fbd_view dev)) (\<lambda>_ _. False) dev"
      by (rule wp_mono [OF file_dev.recover_wp [OF assms(1) at Inr]]) (auto simp: dev_at_def)
    then obtain dev' where "recover_journal file_device sb dev = (Inr (report_of es), dev')"
      "fbd_view dev' = replayed es (fbd_view dev)"
      by (elim wp_total) auto
    then show ?thesis
      using replay_into_ordered [OF es] by (simp add: load Inr report_of_def replayed_def apply_writes_Some)
  qed
qed

lemma blank_device_at:
  "unat n * 4096 < 2 ^ 64 \<Longrightarrow> fbd_inv (blank_device n) \<and> fbd_blocks (blank_device n) = n"
  by (simp add: blank_device_inv) (simp add: blank_device_def)

theorem recovery_refines_replay_witness:
  "case fst (load_journal_image file_device demo_superblock (blank_device 16)) of
      Inl e \<Rightarrow> \<exists>dev'. recover_journal file_device demo_superblock (blank_device 16) = (Inl e, dev')
    | Inr es \<Rightarrow> \<exists>r dev'. recover_journal file_device demo_superblock (blank_device 16) = (Inr r, dev') \<and>
        home_writes r = length (committed [] es)"
  using recovery_refines_replay [OF demo_superblock_ok, of "blank_device 16"] blank_device_at [of 16]
  by (auto simp: demo_superblock_def split: sum.splits)

text \<open>C15. Checkpointing. When the journal loads, recovery with checkpoint succeeds; afterwards the
  journal loads as empty, every block outside the journal holds its replayed contents, the
  result is durable, and running recovery with checkpoint again reports nothing to do and
  changes no block.\<close>

theorem recover_and_checkpoint_settles:
  assumes "sb_ok sb" and "fbd_inv dev" and "fbd_blocks dev = total_blocks sb"
    and "fbd_durable dev = fbd_view dev" and "fst (load_journal_image file_device sb dev) = Inr es"
  shows "\<exists>dev' dev''.
    recover_journal_and_checkpoint file_device sb dev = (Inr (report_of es), dev') \<and>
    fst (load_journal_image file_device sb dev') = Inr [] \<and>
    (\<forall>b. b \<notin> set (journal_region sb) \<longrightarrow>
       fbd_view dev' b = apply_writes (committed [] es) (fbd_view dev) id b) \<and>
    fbd_durable dev' = fbd_view dev' \<and>
    recover_journal_and_checkpoint file_device sb dev' = (Inr default_report, dev'') \<and>
    fbd_view dev'' = fbd_view dev'"
proof -
  let ?n = "total_blocks sb" and ?v = "fbd_view dev"
  let ?w = "if es = [] then ?v else cleared sb (replayed es ?v)"
  have load: "fst (load_journal_image file_device sb d) = journal_of sb v"
    if "file_dev.at ?n v u d" for d v u
    by (rule file_dev.load_journal_fst [OF assms(1) that])
  have at: "file_dev.at ?n ?v (fbd_durable dev) dev"
    using assms(2,3) by (simp add: dev_at_def file_device_def)
  then have es: "journal_of sb ?v = Inr es" using load assms(5) by simp
  obtain dev' where dev': "recover_journal_and_checkpoint file_device sb dev = (Inr (report_of es), dev')"
    and at': "file_dev.at ?n ?w ?w dev'"
    using file_dev.recover_and_checkpoint_wp [OF assms(1) at es] assms(4)
    by (elim wp_total [OF wp_mono]) (auto simp: Let_def split: if_splits)
  have empty: "journal_of sb ?w = Inr []" using es journal_of_cleared by auto
  obtain dev'' where "recover_journal_and_checkpoint file_device sb dev' = (Inr (report_of []), dev'')"
    and "file_dev.at ?n ?w ?w dev''"
    using file_dev.recover_and_checkpoint_wp [OF assms(1) at' empty]
    by (elim wp_total [OF wp_mono]) (auto simp: Let_def)
  then show ?thesis
    using dev' at' load [OF at'] empty
    by (auto simp: dev_at_def report_of_def default_report_def cleared_other replayed_def)
qed

theorem recover_and_checkpoint_settles_witness:
  "\<exists>dev'. recover_journal_and_checkpoint file_device demo_superblock (blank_device 16) =
     (Inr (report_of []), dev') \<and> fst (load_journal_image file_device demo_superblock dev') = Inr []"
proof -
  have blank: "fbd_inv (blank_device 16)" "fbd_blocks (blank_device 16) = total_blocks demo_superblock"
    "fbd_durable (blank_device 16) = fbd_view (blank_device 16)"
    using blank_device_at [of 16]
    by (simp_all add: demo_superblock_def) (simp add: blank_device_def fbd_durable_def fbd_view_def fun_eq_iff)
  have "region_bytes (fbd_view (blank_device 16)) (journal_region demo_superblock) =
      region_bytes (\<lambda>_. zero_block) (journal_region demo_superblock)"
  proof (rule region_bytes_cong)
    fix b assume "b \<in> set (journal_region demo_superblock)"
    then have "unat b < 16"
      using region_in_device(1) [OF sb_ok_layout [OF demo_superblock_ok]]
      by (simp add: demo_superblock_def word_less_nat_alt)
    then show "fbd_view (blank_device 16) b = zero_block"
      by (simp add: fbd_view_def blank_device_def subslice_def)
  qed
  then have "journal_of demo_superblock (fbd_view (blank_device 16)) = Inr []"
    by (simp add: journal_of_def decode_journal_region_def all_zero_region)
  moreover have "file_dev.at (total_blocks demo_superblock) (fbd_view (blank_device 16))
      (fbd_durable (blank_device 16)) (blank_device 16)"
    using blank by (simp add: dev_at_def file_device_def)
  ultimately have "fst (load_journal_image file_device demo_superblock (blank_device 16)) = Inr []"
    by (simp add: file_dev.load_journal_fst [OF demo_superblock_ok])
  then show ?thesis
    using recover_and_checkpoint_settles [OF demo_superblock_ok blank] by blast
qed

end
