(* ===== verification/FS_Capture.thy ===== *)
theory FS_Capture
  imports FS_Format FS_Region "HOL-Library.Mapping"
begin

text \<open>
  The capture device, \<^verbatim>\<open>src/transaction_image.rs\<close>: an in-memory device on which a
  transaction renders the metadata images it wants, and the comparison that collects the
  blocks in which they differ from the device. Collecting over a set of regions yields exactly
  the writes that turn the current contents of these regions into the rendered ones.
\<close>

section \<open>The device\<close>

record capture_device =
  cap_block_count :: u64
  cap_blocks :: "(u64, bytes) mapping"

definition capture_new :: "u64 \<Rightarrow> capture_device" where
  "capture_new count = \<lparr>cap_block_count = count, cap_blocks = Mapping.empty\<rparr>"

definition take_rendered_block :: "u64 \<Rightarrow> capture_device \<Rightarrow> (bytes \<times> capture_device) res" where
  "take_rendered_block b cap =
     (case Mapping.lookup (cap_blocks cap) b of
        None \<Rightarrow> Inl InvalidData
      | Some data \<Rightarrow> Inr (data, cap\<lparr>cap_blocks := Mapping.delete b (cap_blocks cap)\<rparr>))"

definition collect_changed_range ::
  "'d block_device \<Rightarrow> u64 \<times> u64 \<Rightarrow> capture_device \<times> writes \<Rightarrow> ('d, capture_device \<times> writes) io" where
  "collect_changed_range D blocks =
     io_fold
       (\<lambda>b (cap, changed).
          io_bind (io_lift (take_rendered_block b cap)) (\<lambda>(desired, cap').
          io_bind (read_block D b) (\<lambda>current.
            io_return (cap', if current \<noteq> desired then changed @ [(b, desired)] else changed))))
       (range_blocks blocks)"

definition ensure_empty :: "capture_device \<Rightarrow> unit res" where
  "ensure_empty cap = (if Mapping.is_empty (cap_blocks cap) then Inr () else Inl InvalidData)"

definition cap_read_block :: "u64 \<Rightarrow> (capture_device, bytes) io" where
  "cap_read_block b = (\<lambda>cap.
     if b \<ge> cap_block_count cap then (Inl UnexpectedEof, cap)
     else
       (case Mapping.lookup (cap_blocks cap) b of
          Some data \<Rightarrow> (Inr data, cap)
        | None \<Rightarrow> (Inr (replicate BLOCK_SIZE 0), cap)))"

definition cap_write_block :: "u64 \<Rightarrow> bytes \<Rightarrow> (capture_device, unit) io" where
  "cap_write_block b data = (\<lambda>cap.
     if b \<ge> cap_block_count cap then (Inl UnexpectedEof, cap)
     else (Inr (), cap\<lparr>cap_blocks := Mapping.update b data (cap_blocks cap)\<rparr>))"

definition cap_flush :: "(capture_device, unit) io" where
  "cap_flush = (\<lambda>cap. (Inr (), cap))"

definition capture_ops :: "capture_device block_device" where
  "capture_ops =
     \<lparr>block_count = cap_block_count, read_block = cap_read_block, write_block = cap_write_block,
      flush = cap_flush\<rparr>"

section \<open>The capture device meets the contract\<close>

definition cap_inv :: "capture_device \<Rightarrow> bool" where
  "cap_inv cap \<longleftrightarrow> (\<forall>b x. Mapping.lookup (cap_blocks cap) b = Some x \<longrightarrow> length x = 4096)"

definition cap_view :: "capture_device \<Rightarrow> u64 \<Rightarrow> bytes" where
  "cap_view cap b = (case Mapping.lookup (cap_blocks cap) b of None \<Rightarrow> zero_block | Some x \<Rightarrow> x)"

text \<open>Nothing of a capture device survives a power failure, and its flush synchronises nothing.\<close>

interpretation capture_dev: block_dev capture_ops cap_inv cap_view "\<lambda>_ _. []" False False
proof
  fix n :: u64 and v u :: "u64 \<Rightarrow> bytes" and d b and x :: bytes
  assume at: "dev_at capture_ops cap_inv cap_view (\<lambda>_ _. []) n v u d"
  then have inv: "cap_inv d" and n: "n = cap_block_count d" and v: "v = cap_view d"
    by (auto simp: dev_at_def capture_ops_def)
  show "b < n \<Longrightarrow> length (v b) = BLOCK_SIZE"
    using inv by (simp add: v cap_view_def cap_inv_def split: option.split)
  show "wp (read_block capture_ops b)
      (\<lambda>x d'. dev_at capture_ops cap_inv cap_view (\<lambda>_ _. []) n v u d' \<and> b < n \<and> x = v b)
      (\<lambda>_ d'. dev_at capture_ops cap_inv cap_view (\<lambda>_ _. []) n v u d' \<and> \<not> b < n) d"
    using at by (auto simp: wp_def capture_ops_def cap_read_block_def n v cap_view_def
        split: option.split)
  show "wp (flush capture_ops)
      (\<lambda>_ d'. dev_at capture_ops cap_inv cap_view (\<lambda>_ _. []) n v (if False then v else u) d')
      (\<lambda>_ d'. dev_at capture_ops cap_inv cap_view (\<lambda>_ _. []) n v u d' \<and> False) d"
    using at by (simp add: wp_def capture_ops_def cap_flush_def)
  assume len: "length x = BLOCK_SIZE"
  show "wp (write_block capture_ops b x)
      (\<lambda>_ d'. dev_at capture_ops cap_inv cap_view (\<lambda>_ _. []) n (v(b := x)) u d' \<and> b < n)
      (\<lambda>_ d'. dev_at capture_ops cap_inv cap_view (\<lambda>_ _. []) n v u d' \<and> (b < n \<longrightarrow> False)) d"
    using at len
    by (auto simp: wp_def capture_ops_def cap_write_block_def dev_at_def cap_inv_def cap_view_def
        fun_eq_iff lookup_update')
qed

section \<open>Rendering and collecting\<close>

abbreviation rendered :: "capture_device \<Rightarrow> u64 \<rightharpoonup> bytes" where
  "rendered cap \<equiv> Mapping.lookup (cap_blocks cap)"

lemma rendered_new [simp]: "rendered (capture_new count) = Map.empty"
  by (simp add: capture_new_def fun_eq_iff)

lemma lookup_delete_eq:
  "Mapping.lookup (Mapping.delete b m) c = (if c = b then None else Mapping.lookup m c)"
  by (cases "c = b") simp_all

lemma capture_write_all:
  assumes "list_all (\<lambda>(b, x). b < cap_block_count cap) ws"
  shows "\<exists>cap'. write_all capture_ops ws cap = (Inr (), cap') \<and>
    cap_block_count cap' = cap_block_count cap \<and> rendered cap' = apply_writes ws (rendered cap) Some"
  using assms
proof (induction ws arbitrary: cap)
  case Nil
  then show ?case by (simp add: write_all_def io_return_def)
next
  case (Cons w ws)
  obtain b x where w: "w = (b, x)" by (cases w)
  let ?cap = "cap\<lparr>cap_blocks := Mapping.update b x (cap_blocks cap)\<rparr>"
  have "rendered ?cap = (rendered cap)(b := Some x)"
    by (auto simp: lookup_update' fun_eq_iff)
  moreover have "cap_write_block b x cap = (Inr (), ?cap)"
    using Cons.prems w by (simp add: cap_write_block_def not_le)
  ultimately show ?case
    using Cons.IH [of ?cap] Cons.prems w
    by (auto simp: write_all_def io_bind_def capture_ops_def fun_upd_def)
qed

text \<open>The writes that turn the contents \<open>v\<close> of the blocks \<open>bs\<close> into \<open>f\<close>.\<close>

definition diff_writes :: "(u64 \<Rightarrow> bytes) \<Rightarrow> (u64 \<Rightarrow> bytes) \<Rightarrow> u64 list \<Rightarrow> writes" where
  "diff_writes v f bs = filter (\<lambda>(b, x). v b \<noteq> x) (map (\<lambda>b. (b, f b)) bs)"

lemma diff_writes_simps [simp]:
  "diff_writes v f [] = []"
  "diff_writes v f (b # bs) = (if v b \<noteq> f b then (b, f b) # diff_writes v f bs else diff_writes v f bs)"
  by (simp_all add: diff_writes_def)

lemma diff_writes_append: "diff_writes v f (xs @ ys) = diff_writes v f xs @ diff_writes v f ys"
  by (simp add: diff_writes_def)

lemma in_diff_writes: "(b, x) \<in> set (diff_writes v f bs) \<longleftrightarrow> b \<in> set bs \<and> x = f b \<and> v b \<noteq> f b"
  by (auto simp: diff_writes_def)

lemma apply_diff_writes:
  "distinct bs \<Longrightarrow> apply_writes (diff_writes v f bs) v id = (\<lambda>b. if b \<in> set bs then f b else v b)"
proof -
  assume "distinct bs"
  then have dist: "distinct (map fst (diff_writes v f bs))"
    by (induction bs) (auto simp: in_diff_writes)
  have "apply_writes (diff_writes v f bs) v id b = (if b \<in> set bs then f b else v b)" for b
  proof (cases "(b, f b) \<in> set (diff_writes v f bs)")
    case True
    then show ?thesis using apply_writes_distinct [OF dist True, of v id] by (simp add: in_diff_writes)
  next
    case False
    then have "b \<notin> fst ` set (diff_writes v f bs)" by (auto simp: in_diff_writes)
    with False show ?thesis by (auto simp: apply_writes_other in_diff_writes)
  qed
  then show ?thesis by (simp add: fun_eq_iff)
qed

context block_dev
begin

lemma collect_wp:
  assumes "at n v u d" and "\<forall>b \<in> set (range_blocks r). b < n \<and> rendered cap b = Some (f b)"
  shows "wp (collect_changed_range D r (cap, changed))
    (\<lambda>(cap', changed') d'. at n v u d' \<and> changed' = changed @ diff_writes v f (range_blocks r) \<and>
       rendered cap' = (rendered cap) |` (- set (range_blocks r)))
    (\<lambda>_ _. False) d"
proof -
  let ?I = "\<lambda>bs (cap', changed') d'. at n v u d' \<and> changed' = changed @ diff_writes v f bs \<and>
       rendered cap' = (rendered cap) |` (- set bs)"
  show ?thesis
    unfolding collect_changed_range_def
  proof (rule wp_fold_inv [where I = ?I])
    show "?I [] (cap, changed) d" using assms(1) by (simp add: restrict_map_def)
  next
    fix pre b post s d1
    assume split: "range_blocks r = pre @ b # post" and I: "?I pre s d1"
    obtain cap1 changed1 where s: "s = (cap1, changed1)" by (cases s)
    have b: "b < n" "rendered cap b = Some (f b)" using assms(2) split by auto
    have "b \<notin> set pre" using distinct_range_blocks [of r] split by auto
    then have "rendered cap1 b = Some (f b)" using I s b by simp
    then have take1: "take_rendered_block b cap1 =
        Inr (f b, cap1\<lparr>cap_blocks := Mapping.delete b (cap_blocks cap1)\<rparr>)"
      by (simp add: take_rendered_block_def)
    have rest: "Mapping.lookup (Mapping.delete b (cap_blocks cap1)) = rendered cap |` (- set (pre @ [b]))"
      using I s by (auto simp: lookup_delete_eq fun_eq_iff restrict_map_def)
    show "wp ((case s of (cap, changed) \<Rightarrow>
          io_bind (io_lift (take_rendered_block b cap)) (\<lambda>(desired, cap').
          io_bind (read_block D b) (\<lambda>current.
            io_return (cap', if current \<noteq> desired then changed @ [(b, desired)] else changed)))))
        (?I (pre @ [b])) (\<lambda>_ _. False) d1"
      unfolding s prod.case take1 io_bind_lift_Inr
      using I s b rest
      by (auto simp: wp_bind wp_return diff_writes_append intro!: wp_mono [OF read_law [of n v u]])
  qed
qed

end

end
