(* ===== verification/FS_Crash_Device.thy ===== *)
theory FS_Crash_Device
  imports FS_Recovery FS_Capture
begin

text \<open>
  The crash-injecting device of the crash matrices,
  \<^verbatim>\<open>tests/support/crash_device.rs\<close>. Writes go to a volatile copy, a flush copies
  it to the durable one, and an armed device fails every mutation from a chosen one on; a
  reboot forgets the volatile copy. It meets the contract of the block layer as a faulty
  device, and as a reliable one while no crash point is armed.
\<close>

record crash_device =
  cd_durable_blocks :: "bytes list"
  cd_volatile :: "bytes list"
  cd_crash_at :: "nat option"
  cd_operations :: nat
  cd_armed :: bool

definition cd_new :: "nat \<Rightarrow> crash_device" where
  "cd_new blocks =
     \<lparr>cd_durable_blocks = replicate blocks (replicate BLOCK_SIZE 0),
      cd_volatile = replicate blocks (replicate BLOCK_SIZE 0), cd_crash_at = None,
      cd_operations = 0, cd_armed = False\<rparr>"

definition cd_arm :: "nat option \<Rightarrow> crash_device \<Rightarrow> crash_device" where
  "cd_arm crash_at dev = dev\<lparr>cd_crash_at := crash_at, cd_operations := 0, cd_armed := True\<rparr>"

definition cd_reboot :: "crash_device \<Rightarrow> crash_device" where
  "cd_reboot dev =
     dev\<lparr>cd_volatile := cd_durable_blocks dev, cd_crash_at := None, cd_operations := 0,
         cd_armed := False\<rparr>"

definition cd_before_mutation :: "(crash_device, unit) io" where
  "cd_before_mutation = (\<lambda>dev.
     if cd_armed dev \<and> cd_crash_at dev = Some (cd_operations dev) then (Inl OtherError, dev)
     else if cd_armed dev
     then (Inr (), dev\<lparr>cd_operations := (cd_operations dev + 1) mod 2 ^ 64\<rparr>)
     else (Inr (), dev))"

definition cd_read_block :: "u64 \<Rightarrow> (crash_device, bytes) io" where
  "cd_read_block b = (\<lambda>dev.
     if unat b < length (cd_volatile dev) then (Inr (cd_volatile dev ! unat b), dev)
     else (Inl UnexpectedEof, dev))"

definition cd_write_block :: "u64 \<Rightarrow> bytes \<Rightarrow> (crash_device, unit) io" where
  "cd_write_block b data =
     io_bind cd_before_mutation (\<lambda>_ dev.
       if unat b < length (cd_volatile dev)
       then (Inr (), dev\<lparr>cd_volatile := (cd_volatile dev)[unat b := data]\<rparr>)
       else (Inl UnexpectedEof, dev))"

definition cd_flush :: "(crash_device, unit) io" where
  "cd_flush =
     io_bind cd_before_mutation (\<lambda>_ dev. (Inr (), dev\<lparr>cd_durable_blocks := cd_volatile dev\<rparr>))"

definition crash_ops :: "crash_device block_device" where
  "crash_ops =
     \<lparr>block_count = (\<lambda>dev. word_of_nat (length (cd_volatile dev))), read_block = cd_read_block,
      write_block = cd_write_block, flush = cd_flush\<rparr>"

section \<open>The contract\<close>

definition cd_inv :: "crash_device \<Rightarrow> bool" where
  "cd_inv dev \<longleftrightarrow>
     length (cd_durable_blocks dev) = length (cd_volatile dev) \<and> length (cd_volatile dev) < 2 ^ 64 \<and>
     (\<forall>x \<in> set (cd_volatile dev). length x = 4096) \<and>
     (\<forall>x \<in> set (cd_durable_blocks dev). length x = 4096)"

definition blocks_view :: "bytes list \<Rightarrow> u64 \<Rightarrow> bytes" where
  "blocks_view blocks b = (if unat b < length blocks then blocks ! unat b else [])"

definition cd_view :: "crash_device \<Rightarrow> u64 \<Rightarrow> bytes" where
  "cd_view dev = blocks_view (cd_volatile dev)"

definition cd_durable :: "crash_device \<Rightarrow> u64 \<Rightarrow> bytes" where
  "cd_durable dev = blocks_view (cd_durable_blocks dev)"

lemmas cd_defs = crash_ops_def cd_before_mutation_def cd_read_block_def cd_write_block_def cd_flush_def

lemma blocks_view_update:
  "unat b < length blocks \<Longrightarrow> blocks_view (blocks[unat b := x]) = (blocks_view blocks)(b := x)"
  by (auto simp: blocks_view_def fun_eq_iff nth_list_update word_unat_eq_iff)

text \<open>The device is faulty only while it is armed with a crash point.\<close>

lemma cd_contract:
  assumes sub: "\<And>d. dinv d \<Longrightarrow> cd_inv d"
    and armed: "\<And>d. dinv d \<Longrightarrow> cd_armed d \<Longrightarrow> cd_crash_at d = Some (cd_operations d) \<Longrightarrow> f"
    and keep: "\<And>d vs ds n. dinv d \<Longrightarrow>
      cd_inv (d\<lparr>cd_volatile := vs, cd_durable_blocks := ds, cd_operations := n\<rparr>) \<Longrightarrow>
      dinv (d\<lparr>cd_volatile := vs, cd_durable_blocks := ds, cd_operations := n\<rparr>)"
  shows "block_dev crash_ops dinv cd_view cd_durable f True"
proof
  fix n :: u64 and v u :: "u64 \<Rightarrow> bytes" and d b and x :: bytes
  assume "dev_at crash_ops dinv cd_view cd_durable n v u d"
  then have dinv: "dinv d" and n: "n = word_of_nat (length (cd_volatile d))"
    and v: "v = cd_view d" and u: "u = cd_durable d"
    by (auto simp: dev_at_def crash_ops_def)
  have cinv: "cd_inv d" by (rule sub [OF dinv])
  have lt: "b < n \<longleftrightarrow> unat b < length (cd_volatile d)"
    using cinv by (simp add: n word_less_nat_alt cd_inv_def)
  have keep': "dinv d'" if "d' = d\<lparr>cd_volatile := cd_volatile d', cd_durable_blocks := cd_durable_blocks d',
      cd_operations := cd_operations d'\<rparr>" "cd_inv d'" for d'
    using keep [OF dinv, where vs = "cd_volatile d'" and ds = "cd_durable_blocks d'"
        and n = "cd_operations d'"] that by metis
  show "b < n \<Longrightarrow> length (v b) = BLOCK_SIZE"
    using cinv by (auto simp: lt v cd_view_def blocks_view_def cd_inv_def)
  show "wp (read_block crash_ops b)
      (\<lambda>x d'. dev_at crash_ops dinv cd_view cd_durable n v u d' \<and> b < n \<and> x = v b)
      (\<lambda>_ d'. dev_at crash_ops dinv cd_view cd_durable n v u d' \<and> \<not> b < n) d"
    using dinv lt by (auto simp: wp_def cd_defs dev_at_def n v u cd_view_def blocks_view_def)
  show "wp (flush crash_ops)
      (\<lambda>_ d'. dev_at crash_ops dinv cd_view cd_durable n v (if True then v else u) d')
      (\<lambda>_ d'. dev_at crash_ops dinv cd_view cd_durable n v u d' \<and> f) d"
    using dinv armed [OF dinv] cinv
    by (auto simp: wp_def cd_defs dev_at_def n v u cd_view_def cd_durable_def io_bind_def cd_inv_def
        intro!: keep')
  assume len: "length x = BLOCK_SIZE"
  show "wp (write_block crash_ops b x)
      (\<lambda>_ d'. dev_at crash_ops dinv cd_view cd_durable n (v(b := x)) u d' \<and> b < n)
      (\<lambda>_ d'. dev_at crash_ops dinv cd_view cd_durable n v u d' \<and> (b < n \<longrightarrow> f)) d"
    using dinv armed [OF dinv] cinv len lt
    by (auto simp: wp_def cd_defs dev_at_def n v u cd_view_def cd_durable_def io_bind_def cd_inv_def
        blocks_view_update intro!: keep' dest!: set_update_subset_insert [THEN subsetD])
qed

interpretation crash_dev: block_dev crash_ops cd_inv cd_view cd_durable True True
  by (rule cd_contract) simp_all

interpretation calm_dev:
  block_dev crash_ops "\<lambda>d. cd_inv d \<and> (cd_armed d \<longrightarrow> cd_crash_at d = None)" cd_view cd_durable False True
  by (rule cd_contract) simp_all

lemma cd_reboot_at:
  assumes "crash_dev.at n v u d"
  shows "calm_dev.at n u u (cd_reboot d)"
  using assms by (auto simp: dev_at_def cd_reboot_def cd_inv_def cd_view_def cd_durable_def crash_ops_def)

lemma cd_arm_at: "crash_dev.at n v u d \<Longrightarrow> crash_dev.at n v u (cd_arm k d)"
  by (simp add: dev_at_def cd_arm_def cd_inv_def cd_view_def cd_durable_def crash_ops_def)

lemma cd_arm_none_at: "crash_dev.at n v u d \<Longrightarrow> calm_dev.at n v u (cd_arm None d)"
  by (simp add: dev_at_def cd_arm_def cd_inv_def cd_view_def cd_durable_def crash_ops_def)

lemma calm_at: "calm_dev.at n v u d \<Longrightarrow> crash_dev.at n v u d"
  by (simp add: dev_at_def)

lemma cd_new_at:
  "blocks < 2 ^ 64 \<Longrightarrow>
   calm_dev.at (word_of_nat blocks) (cd_view (cd_new blocks)) (cd_view (cd_new blocks)) (cd_new blocks)"
  by (auto simp: dev_at_def cd_new_def cd_inv_def cd_view_def cd_durable_def crash_ops_def)

end
