(* ===== verification/FS_Transaction.thy ===== *)
theory FS_Transaction
  imports FS_Crash_Device
begin

text \<open>
  Publishing one transaction. Every journaled operation of the file system ends the same way:
  the changed blocks are recorded as one begin/write/commit group in a fresh
  \<^verbatim>\<open>JournalLog\<close>, the journal image is stored and flushed, recovery writes the home
  blocks, and the report is compared with the transaction. \<open>publish\<close> is that common tail,
  over the recovery routine the operation calls (with or without checkpoint). The theorems
  place a crash before any device mutation of such a transaction and show that the recovered
  contents are the old or the new ones, never a mixture.
\<close>

section \<open>The common tail of the journaled operations\<close>

definition tx_log_entries :: "writes \<Rightarrow> journal_entry list res" where
  "tx_log_entries changed =
     (case log_tx changed log_new of (Inl e, _) \<Rightarrow> Inl e | (Inr _, log) \<Rightarrow> Inr (log_entries log))"

definition check_report :: "nat \<Rightarrow> recovery_report \<Rightarrow> recovery_report res" where
  "check_report n report =
     (if committed_transactions report \<noteq> 1 \<or> home_writes report \<noteq> n then Inl InvalidData
      else Inr report)"

definition publish ::
  "'d block_device \<Rightarrow> superblock \<Rightarrow> ('d block_device \<Rightarrow> superblock \<Rightarrow> ('d, recovery_report) io) \<Rightarrow>
   writes \<Rightarrow> ('d, recovery_report) io" where
  "publish D sb recover changed =
     io_bind (io_lift (tx_log_entries changed)) (\<lambda>entries.
     io_bind (store_journal_image D sb entries) (\<lambda>_.
     io_bind (recover D sb) (\<lambda>report.
       io_lift (check_report (length changed) report))))"

section \<open>Transactions that fit\<close>

definition tx_ok :: "superblock \<Rightarrow> writes \<Rightarrow> bool" where
  "tx_ok sb ws \<longleftrightarrow> (\<forall>(b, x) \<in> set ws. length x = 4096 \<and> home_block sb b)"

definition tx_fits :: "superblock \<Rightarrow> writes \<Rightarrow> bool" where
  "tx_fits sb ws \<longleftrightarrow> 96 + length ws * 4128 \<le> journal_capacity sb"

definition tx_report :: "writes \<Rightarrow> recovery_report" where
  "tx_report ws = \<lparr>committed_transactions = 1, home_writes = length ws\<rparr>"

lemma tx_log_entries_eq [simp]: "tx_log_entries ws = Inr (tx_entries 0 ws)"
  by (simp add: tx_log_entries_def log_tx_eq log_new_def)

lemma committed_tx [simp]: "committed [] (tx_entries t ws) = ws"
  using committed_tx_entries [of "[]" t ws "[]"] by simp

lemma commits_tx [simp]: "commits (tx_entries t ws) = 1"
  using commits_tx_entries [of t ws "[]"] by simp

lemma report_of_tx [simp]: "report_of (tx_entries t ws) = tx_report ws"
  by (simp add: report_of_def tx_report_def)

lemma check_tx_report [simp]: "check_report (length ws) (tx_report ws) = Inr (tx_report ws)"
  by (simp add: check_report_def tx_report_def)

lemma tx_entries_nonempty [simp]: "tx_entries t ws \<noteq> []"
  by (simp add: tx_entries_def)

lemma tx_entries_ok:
  assumes "tx_ok sb ws"
  shows "list_all entry_ok (tx_entries t ws)" and "journal_ok sb (tx_entries t ws)"
proof -
  show "list_all entry_ok (tx_entries t ws)"
    using assms by (auto simp: tx_ok_def tx_entries_def list_all_iff)
  moreover have "list_all (entry_home sb) (tx_entries t ws)"
    using assms by (auto simp: tx_ok_def tx_entries_def list_all_iff)
  moreover have "tx_ordered None (tx_entries t ws)"
    using tx_ordered_tx_entries [of t ws "[]"] by simp
  ultimately show "journal_ok sb (tx_entries t ws)" by (simp add: journal_ok_def)
qed

lemma length_tx_stream:
  assumes "tx_ok sb ws"
  shows "length (journal_stream (tx_entries t ws)) = 64 + length ws * 4128"
proof -
  have "length (journal_stream (map (\<lambda>(b, x). Write t b x) ws)) = length ws * 4128"
    using assms
  proof (induction ws)
    case (Cons w ws)
    then show ?case by (cases w) (simp add: tx_ok_def length_journal_record)
  qed simp
  then show ?thesis by (simp add: tx_entries_def length_journal_record)
qed

lemma journal_fits_tx:
  "tx_ok sb ws \<Longrightarrow> journal_fits sb (tx_entries t ws) \<longleftrightarrow> tx_fits sb ws"
  by (simp add: journal_fits_def tx_fits_def tx_entries_ok length_tx_stream)

section \<open>What durable contents stand for\<close>

definition out_eq :: "superblock \<Rightarrow> (u64 \<Rightarrow> bytes) \<Rightarrow> (u64 \<Rightarrow> bytes) \<Rightarrow> bool" where
  "out_eq sb v w \<longleftrightarrow> (\<forall>b. b \<notin> set (journal_region sb) \<longrightarrow> v b = w b)"

text \<open>Recovering the durable contents \<open>u\<close> gives the contents \<open>v\<close> outside the journal.\<close>

definition settled :: "superblock \<Rightarrow> (u64 \<Rightarrow> bytes) \<Rightarrow> (u64 \<Rightarrow> bytes) \<Rightarrow> bool" where
  "settled sb u v \<longleftrightarrow> (\<exists>es. journal_of sb u = Inr es \<and> out_eq sb (replayed es u) v)"

lemma out_eq_refl [simp]: "out_eq sb v v"
  by (simp add: out_eq_def)

lemma out_eq_sym: "out_eq sb v w \<Longrightarrow> out_eq sb w v"
  by (simp add: out_eq_def)

lemma out_eq_trans: "out_eq sb v w \<Longrightarrow> out_eq sb w x \<Longrightarrow> out_eq sb v x"
  by (simp add: out_eq_def)

lemma out_eq_apply:
  "out_eq sb v w \<Longrightarrow> out_eq sb (apply_writes ws v id) (apply_writes ws w id)"
proof (induction ws arbitrary: v w)
  case (Cons x ws)
  obtain b y where x: "x = (b, y)" by (cases x)
  show ?case unfolding x apply_writes_Cons
    by (rule Cons.IH) (use Cons.prems in \<open>simp add: out_eq_def\<close>)
qed simp

lemma out_eq_cleared [simp]: "out_eq sb (cleared sb v) v"
  by (simp add: out_eq_def cleared_other)

lemma out_eq_journal_writes [simp]: "out_eq sb (apply_writes (journal_writes sb es) v id) v"
  by (simp add: out_eq_def journal_writes_def apply_writes_other)

lemma settled_empty: "journal_of sb u = Inr [] \<Longrightarrow> settled sb u u"
  by (simp add: settled_def replayed_def)

lemma settled_out_eq: "settled sb u v \<Longrightarrow> out_eq sb v w \<Longrightarrow> settled sb u w"
  by (auto simp: settled_def intro: out_eq_trans)

lemma settled_published:
  assumes "journal_of sb u = Inr (tx_entries t ws)"
    and "out_eq sb u v \<or> out_eq sb u (apply_writes ws v id)"
  shows "settled sb u (apply_writes ws v id)"
proof -
  have "out_eq sb (apply_writes ws u id) (apply_writes ws v id)"
    using assms(2)
  proof
    assume "out_eq sb u (apply_writes ws v id)"
    then show ?thesis using out_eq_apply [of sb u "apply_writes ws v id" ws]
      by (simp add: apply_writes_idem)
  qed (rule out_eq_apply)
  then show ?thesis using assms(1) by (simp add: settled_def replayed_def)
qed

section \<open>Publishing on a device\<close>

context block_dev
begin

lemma either_recovery_wp:
  assumes "sb_ok sb" and "at (total_blocks sb) v (if syncs then v else u) d"
    and "journal_of sb v = Inr es" and "es \<noteq> []"
    and "recover = recover_journal \<or> recover = recover_journal_and_checkpoint"
  shows "wp (recover D sb)
    (\<lambda>r d'. r = report_of es \<and>
       (\<exists>v'. at (total_blocks sb) v' (if syncs then v' else u) d' \<and>
          v' = (if recover = recover_journal then replayed es v else cleared sb (replayed es v))))
    (\<lambda>_ d'. faulty \<and>
       (\<exists>v' u'. at (total_blocks sb) v' u' d' \<and>
          (u' = (if syncs then v else u) \<or> syncs \<and> u' = replayed es v))) d"
proof (cases "recover = recover_journal")
  case True
  have "committed [] es = [] \<Longrightarrow> replayed es v = v" by (simp add: replayed_def)
  then show ?thesis
    unfolding True
    by (intro wp_mono [OF recover_wp [OF assms(1-3)]]) (cases "committed [] es = []"; cases syncs; force)+
next
  case False
  then have eq: "recover = recover_journal_and_checkpoint" using assms(5) by blast
  show ?thesis
    using False assms(4) unfolding eq
    by (intro wp_mono [OF recover_and_checkpoint_wp [OF assms(1-3)]])
      (cases syncs; force simp: Let_def)+
qed

text \<open>
  One published transaction: on success the new contents are visible and durable; on failure
  the durable contents still stand for the old or already for the new ones.
\<close>

lemma publish_wp:
  assumes "sb_ok sb" and "at (total_blocks sb) v u d" and "tx_ok sb ws"
    and "recover = recover_journal \<or> recover = recover_journal_and_checkpoint"
  shows "wp (publish D sb recover ws)
    (\<lambda>r d'. tx_fits sb ws \<and> r = tx_report ws \<and>
       (\<exists>v'. at (total_blocks sb) v' (if syncs then v' else u) d' \<and>
          (recover \<noteq> recover_journal \<longrightarrow> journal_of sb v' = Inr []) \<and>
          settled sb v' (apply_writes ws v id) \<and> out_eq sb v' (apply_writes ws v id)))
    (\<lambda>_ d'. \<not> tx_fits sb ws \<and> at (total_blocks sb) v u d' \<or>
       tx_fits sb ws \<and> faulty \<and>
       (\<exists>v' u'. at (total_blocks sb) v' u' d' \<and>
          (u' = u \<or> syncs \<and> settled sb u' (apply_writes ws v id)))) d"
proof -
  let ?es = "tx_entries 0 ws" and ?n = "total_blocks sb" and ?new = "apply_writes ws v id"
  let ?J = "apply_writes (journal_writes sb ?es) v id"
  let ?Q = "\<lambda>r d'. tx_fits sb ws \<and> r = tx_report ws \<and>
       (\<exists>v'. at ?n v' (if syncs then v' else u) d' \<and>
          (recover \<noteq> recover_journal \<longrightarrow> journal_of sb v' = Inr []) \<and>
          settled sb v' ?new \<and> out_eq sb v' ?new)"
  let ?E = "\<lambda>_ d'. \<not> tx_fits sb ws \<and> at ?n v u d' \<or>
       tx_fits sb ws \<and> faulty \<and>
       (\<exists>v' u'. at ?n v' u' d' \<and> (u' = u \<or> syncs \<and> settled sb u' ?new))"
  have fits: "journal_fits sb ?es \<longleftrightarrow> tx_fits sb ws" by (rule journal_fits_tx [OF assms(3)])
  have R: "out_eq sb (replayed ?es ?J) ?new"
    using out_eq_apply [OF out_eq_journal_writes [of sb ?es v], of ws] by (simp add: replayed_def)
  have rec: "wp (recover D sb) (\<lambda>report. wp (io_lift (check_report (length ws) report)) ?Q ?E) ?E d1"
    if fit: "tx_fits sb ws" and d1: "at ?n ?J (if syncs then ?J else u) d1" for d1
  proof -
    have J: "journal_of sb ?J = Inr ?es" by (rule journal_of_writes) (use assms fits fit in auto)
    have RJ: "journal_of sb (replayed ?es ?J) = Inr ?es"
      using replayed_journal [OF sb_ok_layout [OF assms(1)] tx_entries_ok(2) [OF assms(3)]] J by simp
    have S: "settled sb ?J ?new" "settled sb (replayed ?es ?J) ?new"
      using settled_published [OF J] settled_published [OF RJ] R by auto
    have C: "out_eq sb (cleared sb (replayed ?es ?J)) ?new"
      by (rule out_eq_trans [OF out_eq_cleared R])
    then have SC: "settled sb (cleared sb (replayed ?es ?J)) ?new"
      by (rule settled_out_eq [OF settled_empty [OF journal_of_cleared]])
    show ?thesis
    proof (rule wp_mono [OF either_recovery_wp [OF assms(1) d1 J _ assms(4)]], goal_cases)
      case (2 r d')
      then show ?case
        using fit R C S SC journal_of_cleared [of sb "replayed ?es ?J"] by (auto simp: wp_lift)
    next
      case (3 e d')
      then show ?case using fit S by (auto split: if_splits)
    qed simp
  qed
  have "wp (store_journal_image D sb ?es)
      (\<lambda>_ d1. tx_fits sb ws \<and> at ?n ?J (if syncs then ?J else u) d1) ?E d"
    by (rule wp_mono [OF store_journal_wp [OF assms(1,2) tx_entries_ok(1) [OF assms(3)]]])
      (auto simp: fits Let_def)
  then show ?thesis
    unfolding publish_def tx_log_entries_eq io_bind_lift_Inr wp_bind
    by (rule wp_mono) (use rec in auto)
qed

lemma recover_settled_wp:
  assumes "sb_ok sb" and "at (total_blocks sb) u u d" and "settled sb u v" and syncs
  shows "wp (recover_journal_and_checkpoint D sb)
    (\<lambda>r d'. \<exists>v'. at (total_blocks sb) v' v' d' \<and> journal_of sb v' = Inr [] \<and> out_eq sb v' v)
    (\<lambda>_ d'. faulty \<and> (\<exists>v' u'. at (total_blocks sb) v' u' d' \<and> settled sb u' v)) d"
proof -
  obtain es where es: "journal_of sb u = Inr es" "out_eq sb (replayed es u) v"
    using assms(3) by (auto simp: settled_def)
  have "journal_ok sb es"
    by (rule journal_of_ok [OF assms(1) es(1)]) (use view_length [OF assms(2)] in simp)
  then have "journal_of sb (replayed es u) = Inr es"
    using replayed_journal [OF sb_ok_layout [OF assms(1)]] es(1) by simp
  then have S: "settled sb (replayed es u) v"
    using es(2) by (auto simp: settled_def replayed_idem)
  have C: "out_eq sb (cleared sb (replayed es u)) v" by (rule out_eq_trans [OF out_eq_cleared es(2)])
  show ?thesis
    by (rule wp_mono [OF recover_and_checkpoint_wp [OF assms(1,2) es(1)]])
      (use assms(3,4) es S C journal_of_cleared [of sb "replayed es u"] in
        \<open>auto simp: Let_def replayed_def split: if_splits\<close>)
qed

end

section \<open>A crash at any point\<close>

definition crash_and_recover ::
  "superblock \<Rightarrow> nat option \<Rightarrow> (crash_device, 'a) io \<Rightarrow> crash_device \<Rightarrow>
   'a res \<times> recovery_report res \<times> crash_device" where
  "crash_and_recover sb crash_at op dev =
     (let (r, dev1) = op (cd_arm crash_at dev);
          (rep, dev2) = recover_journal_and_checkpoint crash_ops sb (cd_reboot dev1)
      in (r, rep, dev2))"

definition cd_settled :: "superblock \<Rightarrow> crash_device \<Rightarrow> bool" where
  "cd_settled sb dev \<longleftrightarrow>
     cd_inv dev \<and> block_count crash_ops dev = total_blocks sb \<and>
     settled sb (cd_durable dev) (cd_view dev)"

text \<open>
  The general form, for any operation whose failure leaves durable contents that stand for the
  contents before or after it.
\<close>

lemma crash_and_recover_atomic:
  assumes "sb_ok sb" and "cd_settled sb dev"
    and op: "wp op
      (\<lambda>_ d. \<exists>v' u'. crash_dev.at (total_blocks sb) v' u' d \<and> settled sb u' new)
      (\<lambda>_ d. \<exists>v' u'. crash_dev.at (total_blocks sb) v' u' d \<and>
         (settled sb u' (cd_view dev) \<or> settled sb u' new)) (cd_arm crash_at dev)"
    and run: "crash_and_recover sb crash_at op dev = (r, rep, dev')"
  shows "is_ok rep \<and> cd_settled sb dev' \<and> journal_of sb (cd_durable dev') = Inr [] \<and>
    (out_eq sb (cd_view dev') (cd_view dev) \<or> out_eq sb (cd_view dev') new) \<and>
    (is_ok r \<longrightarrow> out_eq sb (cd_view dev') new)"
proof -
  obtain dev1 where dev1: "op (cd_arm crash_at dev) = (r, dev1)"
    and rec: "recover_journal_and_checkpoint crash_ops sb (cd_reboot dev1) = (rep, dev')"
    using run by (auto simp: crash_and_recover_def split: prod.splits)
  obtain v' u' w where at: "crash_dev.at (total_blocks sb) v' u' dev1" and s: "settled sb u' w"
    and w: "w = cd_view dev \<or> w = new" "is_ok r \<Longrightarrow> w = new"
    using op dev1 by (auto simp: wp_def is_ok_iff split: sum.splits)
  have "wp (recover_journal_and_checkpoint crash_ops sb)
      (\<lambda>r d'. \<exists>v'. calm_dev.at (total_blocks sb) v' v' d' \<and> journal_of sb v' = Inr [] \<and> out_eq sb v' w)
      (\<lambda>_ _. False) (cd_reboot dev1)"
    using calm_dev.recover_settled_wp [OF assms(1) cd_reboot_at [OF at] s] by simp
  then obtain v2 where "is_ok rep" and v2: "calm_dev.at (total_blocks sb) v2 v2 dev'"
    "journal_of sb v2 = Inr []" "out_eq sb v2 w"
    using rec by (auto simp: wp_def is_ok_iff split: sum.splits)
  moreover have "cd_view dev' = v2" "cd_durable dev' = v2" "cd_inv dev'"
    "block_count crash_ops dev' = total_blocks sb"
    using v2(1) by (simp_all add: dev_at_def)
  ultimately show ?thesis
    using w settled_empty [of sb v2] by (auto simp: cd_settled_def)
qed

lemma publish_settled_wp:
  assumes "sb_ok sb" and "cd_settled sb dev" and "tx_ok sb ws"
    and "recover = recover_journal \<or> recover = recover_journal_and_checkpoint"
  shows "wp (publish crash_ops sb recover ws)
      (\<lambda>_ d. \<exists>v' u'. crash_dev.at (total_blocks sb) v' u' d \<and>
         settled sb u' (apply_writes ws (cd_view dev) id))
      (\<lambda>_ d. \<exists>v' u'. crash_dev.at (total_blocks sb) v' u' d \<and>
         (settled sb u' (cd_view dev) \<or> settled sb u' (apply_writes ws (cd_view dev) id)))
      (cd_arm crash_at dev)"
proof -
  have "crash_dev.at (total_blocks sb) (cd_view dev) (cd_durable dev) (cd_arm crash_at dev)"
    by (rule cd_arm_at) (use assms(2) in \<open>simp add: cd_settled_def dev_at_def\<close>)
  moreover have "settled sb (cd_durable dev) (cd_view dev)" using assms(2) by (simp add: cd_settled_def)
  ultimately show ?thesis
    by (intro wp_mono [OF crash_dev.publish_wp [OF assms(1) _ assms(3,4)]]) auto
qed

lemma publish_uninterrupted:
  assumes "sb_ok sb" and "cd_settled sb dev" and "tx_ok sb ws"
    and "recover = recover_journal \<or> recover = recover_journal_and_checkpoint"
  shows "is_ok (fst (publish crash_ops sb recover ws (cd_arm None dev))) \<longleftrightarrow> tx_fits sb ws"
proof -
  have "calm_dev.at (total_blocks sb) (cd_view dev) (cd_durable dev) (cd_arm None dev)"
    by (rule cd_arm_none_at) (use assms(2) in \<open>simp add: cd_settled_def dev_at_def\<close>)
  from calm_dev.publish_wp [OF assms(1) this assms(3,4)]
  show ?thesis by (auto simp: wp_def is_ok_iff split: prod.splits sum.splits)
qed

text \<open>A sequence of transactions, each interrupted at its own point, rebooted and recovered.\<close>

fun run_history ::
  "superblock \<Rightarrow> (writes \<times> nat option) list \<Rightarrow> crash_device \<Rightarrow> bool list \<times> crash_device" where
  "run_history sb [] dev = ([], dev)"
| "run_history sb ((ws, crash_at) # ops) dev =
     (case crash_and_recover sb crash_at (publish crash_ops sb recover_journal_and_checkpoint ws) dev of
        (r, _, dev1) \<Rightarrow>
          (case run_history sb ops dev1 of (oks, dev2) \<Rightarrow> (is_ok r # oks, dev2)))"

definition survivors :: "bool list \<Rightarrow> (writes \<times> nat option) list \<Rightarrow> writes" where
  "survivors flags ops = concat (map (\<lambda>(f, ws, _). if f then ws else []) (zip flags ops))"

lemma survivors_simps [simp]:
  "survivors [] ops = []"
  "survivors (f # fs) ((ws, k) # ops) = (if f then ws else []) @ survivors fs ops"
  by (simp_all add: survivors_def)

section \<open>A device for the concrete instances\<close>

lemma cd_new_journal: "journal_of demo_superblock (cd_view (cd_new 16)) = Inr []"
proof -
  have "region_bytes (cd_view (cd_new 16)) (journal_region demo_superblock) =
      region_bytes (\<lambda>_. zero_block) (journal_region demo_superblock)"
    by (rule region_bytes_cong)
      (use region_in_device(1) [OF sb_ok_layout [OF demo_superblock_ok]] in
        \<open>auto simp: cd_view_def cd_new_def blocks_view_def demo_superblock_def word_less_nat_alt\<close>)
  then show ?thesis
    by (simp add: journal_of_def decode_journal_region_def all_zero_region)
qed

lemma cd_new_settled: "cd_settled demo_superblock (cd_new 16)"
  using settled_empty [OF cd_new_journal]
  by (simp add: cd_settled_def cd_inv_def cd_new_def cd_durable_def cd_view_def crash_ops_def
      demo_superblock_def)

lemma demo_tx_ok: "tx_ok demo_superblock [(12, replicate 4096 7), (13, replicate 4096 8)]"
  by (simp add: tx_ok_def home_block_def demo_superblock_def reserved_blocks_def)

section \<open>Properties\<close>

text \<open>C3. Crash atomicity of one transaction. A transaction is published on a device whose durable
  contents stand for its visible ones; the device stops working before an arbitrary one of
  the block writes and flushes (or not at all), is rebooted, and the journal is recovered and
  checkpointed. Recovery then succeeds, and outside the journal the device holds the contents
  from before the transaction or those with every write of the transaction applied. They are
  the new ones if the operation had reported success, and with no crash it reports success
  exactly when the journal can hold the transaction. The result is again such a device.\<close>

theorem transaction_crash_atomic:
  assumes "sb_ok sb" and "cd_settled sb dev" and "tx_ok sb ws"
    and "recover = recover_journal \<or> recover = recover_journal_and_checkpoint"
    and "crash_and_recover sb crash_at (publish crash_ops sb recover ws) dev = (r, rep, dev')"
  shows "is_ok rep \<and> cd_settled sb dev' \<and> journal_of sb (cd_durable dev') = Inr [] \<and>
    (out_eq sb (cd_view dev') (cd_view dev) \<or>
     out_eq sb (cd_view dev') (apply_writes ws (cd_view dev) id)) \<and>
    (is_ok r \<longrightarrow> out_eq sb (cd_view dev') (apply_writes ws (cd_view dev) id)) \<and>
    (crash_at = None \<longrightarrow> is_ok r = tx_fits sb ws)"
proof -
  have "crash_at = None \<longrightarrow> is_ok r = tx_fits sb ws"
    using publish_uninterrupted [OF assms(1-4)] assms(5)
    by (auto simp: crash_and_recover_def split: prod.splits)
  with crash_and_recover_atomic [OF assms(1,2) publish_settled_wp [OF assms(1-4)] assms(5)]
  show ?thesis by blast
qed

theorem transaction_crash_atomic_witness:
  "let ws = [(12, replicate 4096 7), (13, replicate 4096 8)];
       (r, rep, dev') = crash_and_recover demo_superblock (Some 5)
         (publish crash_ops demo_superblock recover_journal_and_checkpoint ws) (cd_new 16)
   in is_ok rep \<and>
     (out_eq demo_superblock (cd_view dev') (cd_view (cd_new 16)) \<or>
      out_eq demo_superblock (cd_view dev') (apply_writes ws (cd_view (cd_new 16)) id))"
proof -
  let ?ws = "[(12, replicate 4096 7), (13, replicate 4096 8)]"
  obtain r rep dev' where run: "crash_and_recover demo_superblock (Some 5)
      (publish crash_ops demo_superblock recover_journal_and_checkpoint ?ws) (cd_new 16) = (r, rep, dev')"
    using prod_cases3 by blast
  show ?thesis
    using transaction_crash_atomic [OF demo_superblock_ok cd_new_settled demo_tx_ok _ run]
    unfolding Let_def run prod.case by blast
qed

text \<open>C4. Histories of transactions. A client runs any sequence of transactions; each one may be
  interrupted before any of its device mutations, and after each the device is rebooted and
  recovered. The final contents are those of applying, in order and completely, a
  subsequence of the transactions, which includes every transaction that reported success.\<close>

theorem history_crash_linearizable:
  assumes "sb_ok sb" and "cd_settled sb dev" and "list_all (\<lambda>(ws, k). tx_ok sb ws) ops"
    and "run_history sb ops dev = (oks, dev')"
  shows "\<exists>flags. length flags = length ops \<and> list_all2 (\<longrightarrow>) oks flags \<and>
    out_eq sb (cd_view dev') (apply_writes (survivors flags ops) (cd_view dev) id)"
  using assms(2-4)
proof (induction ops arbitrary: dev oks dev')
  case Nil
  then show ?case by (intro exI [of _ "[]"]) simp
next
  case (Cons op ops)
  obtain ws k where op: "op = (ws, k)" by (cases op)
  obtain r rep dev1 where one: "crash_and_recover sb k
      (publish crash_ops sb recover_journal_and_checkpoint ws) dev = (r, rep, dev1)"
    using prod_cases3 by blast
  obtain oks' where rest: "run_history sb ops dev1 = (oks', dev')" and oks: "oks = is_ok r # oks'"
    using Cons.prems(3) op one by (auto split: prod.splits)
  have ok: "tx_ok sb ws" "list_all (\<lambda>(ws, k). tx_ok sb ws) ops" using Cons.prems(2) op by simp_all
  note atomic = crash_and_recover_atomic [OF assms(1) Cons.prems(1)
      publish_settled_wp [OF assms(1) Cons.prems(1) ok(1)] one]
  obtain flags where flags: "length flags = length ops" "list_all2 (\<longrightarrow>) oks' flags"
    "out_eq sb (cd_view dev') (apply_writes (survivors flags ops) (cd_view dev1) id)"
    using Cons.IH [OF _ ok(2) rest] atomic by blast
  obtain f where f: "is_ok r \<longrightarrow> f"
    "out_eq sb (cd_view dev1) (apply_writes (if f then ws else []) (cd_view dev) id)"
    using atomic by (metis (full_types) apply_writes_Nil)
  have "out_eq sb (cd_view dev') (apply_writes (survivors (f # flags) (op # ops)) (cd_view dev) id)"
    using out_eq_trans [OF flags(3) out_eq_apply [OF f(2)]] by (simp add: op apply_writes_append)
  moreover have "length (f # flags) = length (op # ops)" "list_all2 (\<longrightarrow>) oks (f # flags)"
    using flags(1,2) f(1) oks by simp_all
  ultimately show ?case by blast
qed

theorem history_crash_linearizable_witness:
  "\<exists>flags. length flags = 1 \<and>
    out_eq demo_superblock
      (cd_view (snd (run_history demo_superblock
         [([(12, replicate 4096 7), (13, replicate 4096 8)], Some 2)] (cd_new 16))))
      (apply_writes (survivors flags [([(12, replicate 4096 7), (13, replicate 4096 8)], Some 2)])
         (cd_view (cd_new 16)) id)"
  using history_crash_linearizable [OF demo_superblock_ok cd_new_settled _ prod.collapse [symmetric],
      of "[([(12, replicate 4096 7), (13, replicate 4096 8)], Some 2)]"] demo_tx_ok
  by (auto simp del: run_history.simps survivors_simps)



end
