(* ===== verification/FS_Table.thy ===== *)
theory FS_Table
  imports FS_Transaction
begin

text \<open>
  What the metadata regions have in common. The inode table and the directory table wrap a
  stream of records in the same image format (32 header bytes with magic, version, flags,
  payload length, record count and checksum, then the payload and zero padding) and scan it
  with the same loop; all three metadata regions are read and written block by block with the
  same helpers. The image format is modelled here once, over the magic number and the record
  codec; the locale \<open>record_table\<close> proves that image decoding and encoding are exact inverses
  of one another, and the locale \<open>meta_region\<close> what storing an image in a region means for the
  contents of a device.
\<close>

section \<open>Reading and writing a region\<close>

definition region_read ::
  "'d block_device \<Rightarrow> io_error \<Rightarrow> u64 list \<Rightarrow> nat res \<Rightarrow> ('d, bytes) io" where
  "region_read D err blocks rlen =
     io_bind (io_lift rlen) (\<lambda>len. read_region_blocks D err blocks len)"

definition region_write ::
  "'d block_device \<Rightarrow> u64 list \<Rightarrow> nat res \<Rightarrow> bytes \<Rightarrow> ('d, unit) io" where
  "region_write D blocks rlen img =
     io_bind (io_lift rlen) (\<lambda>len.
       if length img \<noteq> len then io_fail InvalidInput else write_region_blocks D blocks img)"

lemma region_write_eq:
  assumes "rlen = Inr (length blocks * 4096)" and "length blocks * 4096 < 2 ^ 64"
    and "length img = length blocks * 4096"
  shows "region_write D blocks rlen img = write_all D (region_writes blocks img)"
  using assms by (simp add: region_write_def write_region_blocks_eq)

lemma apply_region_other:
  "b \<notin> set blocks \<Longrightarrow> apply_writes (region_writes blocks img) v emb b = v b"
  by (simp add: apply_writes_other)

text \<open>Writing the bytes that a region holds changes nothing.\<close>

lemma apply_region_same:
  assumes "img = region_bytes v blocks" and "\<And>b. b \<in> set blocks \<Longrightarrow> length (v b) = 4096"
    and "distinct blocks"
  shows "apply_writes (region_writes blocks img) v id = v"
proof
  fix b
  let ?w = "apply_writes (region_writes blocks img) v id"
  have len: "length img = length blocks * 4096" using assms(1,2) by (simp add: length_region_bytes)
  have "length (?w c) = 4096" if "c \<in> set blocks" for c
  proof -
    have "c \<in> fst ` set (region_writes blocks img)" using that by simp
    then obtain x where x: "(c, x) \<in> set (region_writes blocks img)" by (elim imageE) auto
    then show ?thesis
      using apply_writes_distinct [OF distinct_region_writes [OF assms(3)] x, of v id]
        region_writes_lengths [OF len x] by simp
  qed
  note lens = this
  show "?w b = v b"
  proof (cases "b \<in> set blocks")
    case True
    have "region_bytes ?w blocks = region_bytes v blocks"
      using region_bytes_writes [OF assms(3) len, of v] assms(1) by simp
    then show ?thesis by (rule region_bytes_eq_blocks [OF _ lens assms(2) True])
  qed (simp add: apply_writes_other)
qed

context block_dev
begin

lemma region_read_wp:
  assumes "at n v u d" and "rlen = Inr (length blocks * 4096)" and "length blocks * 4096 < 2 ^ 64"
    and "list_all (\<lambda>b. b < n) blocks"
  shows "wp (region_read D err blocks rlen)
    (\<lambda>img d'. at n v u d' \<and> img = region_bytes v blocks) (\<lambda>_ _. False) d"
  unfolding region_read_def assms(2) io_bind_lift_Inr
  by (rule wp_mono [OF read_region_wp [OF assms(1,3)]]) (use assms(4) in auto)

lemma load_region_wp:
  assumes "at n v u d" and "guard d = Inr ()" and "rlen = Inr (length blocks * 4096)"
    and "length blocks * 4096 < 2 ^ 64" and "list_all (\<lambda>b. b < n) blocks"
  shows "wp (io_bind (io_look guard) (\<lambda>_. io_bind (region_read D err blocks rlen) (\<lambda>img. io_lift (dec img))))
    (\<lambda>x d'. at n v u d' \<and> dec (region_bytes v blocks) = Inr x)
    (\<lambda>e d'. at n v u d' \<and> dec (region_bytes v blocks) = Inl e) d"
proof -
  have "wp (region_read D err blocks rlen)
      (\<lambda>img. wp (io_lift (dec img)) (\<lambda>x d'. at n v u d' \<and> dec (region_bytes v blocks) = Inr x)
        (\<lambda>e d'. at n v u d' \<and> dec (region_bytes v blocks) = Inl e))
      (\<lambda>e d'. at n v u d' \<and> dec (region_bytes v blocks) = Inl e) d"
    by (rule wp_mono [OF region_read_wp [OF assms(1,3-5)]]) (auto simp: wp_simps split: sum.splits)
  then show ?thesis using assms(2) by (simp add: wp_simps)
qed

lemma store_region_wp:
  assumes "at n v u d" and "guard d = Inr ()" and "rlen = Inr (length blocks * 4096)"
    and "length blocks * 4096 < 2 ^ 64" and "list_all (\<lambda>b. b < n) blocks"
    and "\<And>img. enc = Inr img \<Longrightarrow> length img = length blocks * 4096"
  shows "wp (io_bind (io_look guard) (\<lambda>_. io_bind (io_lift enc) (\<lambda>img.
      io_bind (region_write D blocks rlen img) (\<lambda>_. flush D))))
    (\<lambda>_ d'. \<exists>img. enc = Inr img \<and>
       at n (apply_writes (region_writes blocks img) v id)
         (if syncs then apply_writes (region_writes blocks img) v id else u) d')
    (\<lambda>e d'. enc = Inl e \<and> at n v u d' \<or>
       faulty \<and> (\<exists>img k. enc = Inr img \<and> at n (apply_writes (take k (region_writes blocks img)) v id) u d')) d"
proof (cases enc)
  case (Inl e)
  then show ?thesis using assms(1,2) by (simp add: wp_simps)
next
  case (Inr img)
  let ?ws = "region_writes blocks img"
  have len: "length img = length blocks * 4096" by (rule assms(6) [OF Inr])
  have "b \<in> set blocks" if "(b, x) \<in> set ?ws" for b x
    using that region_writes_blocks [of blocks img] by (metis fst_conv image_eqI)
  then have inside: "list_all (\<lambda>(b, x). b < n) ?ws"
    using assms(5) by (auto simp: list_all_iff)
  have "\<forall>(b, x) \<in> set ?ws. length x = BLOCK_SIZE"
    using region_writes_lengths [OF len] by auto
  from write_flush_wp [OF assms(1) this] inside
  have "wp (io_bind (write_all D ?ws) (\<lambda>_. flush D))
      (\<lambda>_ d'. at n (apply_writes ?ws v id) (if syncs then apply_writes ?ws v id else u) d')
      (\<lambda>_ d'. faulty \<and> (\<exists>k. at n (apply_writes (take k ?ws) v id) u d')) d"
    by (auto elim!: wp_mono)
  then have "wp (io_bind (region_write D blocks rlen img) (\<lambda>_. flush D))
      (\<lambda>_ d'. \<exists>img. enc = Inr img \<and>
         at n (apply_writes (region_writes blocks img) v id)
           (if syncs then apply_writes (region_writes blocks img) v id else u) d')
      (\<lambda>e d'. enc = Inl e \<and> at n v u d' \<or>
         faulty \<and> (\<exists>img k. enc = Inr img \<and> at n (apply_writes (take k (region_writes blocks img)) v id) u d')) d"
    unfolding region_write_eq [OF assms(3,4) len] by (rule wp_mono) (use Inr in auto)
  then show ?thesis using assms(2) Inr by (simp add: wp_simps)
qed

end

section \<open>Table images\<close>

definition TABLE_VERSION :: u32 where "TABLE_VERSION = 1"

definition table_image :: "bytes \<Rightarrow> nat \<Rightarrow> bytes \<Rightarrow> nat \<Rightarrow> bytes res" where
  "table_image magic capacity payload count =
     bindR (ok_or InvalidInput (usize_add 32 (length payload))) (\<lambda>used.
     if used > capacity then Inl InvalidInput
     else
       bindR (ok_or InvalidInput (word_try_from (length payload))) (\<lambda>payload_len :: u64.
       bindR (ok_or InvalidInput (word_try_from count)) (\<lambda>record_count :: u32.
         let img = copy_fields (replicate capacity 0)
               [(0, magic), (8, to_le_bytes TABLE_VERSION), (12, to_le_bytes (0 :: u32)),
                (16, to_le_bytes payload_len), (24, to_le_bytes record_count), (32, payload)];
             checksum = crc32_skip 28 (take used img)
         in Inr (copy_slice img 28 (to_le_bytes checksum)))))"

definition table_payload :: "bytes \<Rightarrow> bytes \<Rightarrow> (bytes \<times> nat) res" where
  "table_payload magic img =
     (if length img < 32 then Inl InvalidData
      else if subslice img 0 (length magic) \<noteq> magic then Inl InvalidData
      else if read_u32 img 8 \<noteq> TABLE_VERSION then Inl InvalidData
      else if read_u32 img 12 \<noteq> 0 then Inl InvalidData
      else
        (let payload_len = unat (read_u64 img 16); record_count = unat (read_u32 img 24) in
         bindR (ok_or InvalidData (usize_add 32 payload_len)) (\<lambda>used.
           if used > length img then Inl InvalidData
           else if \<not> all_zero (drop used img) then Inl InvalidData
           else
             let stored_checksum = read_u32 img 28;
                 checksummed = copy_slice (take used img) 28 (replicate 4 0) in
             if crc32_skip 28 checksummed \<noteq> stored_checksum then Inl InvalidData
             else Inr (subslice img 32 used, record_count))))"

text \<open>One round of the scan: the record at the offset, and the offset after it.\<close>

definition table_step :: "nat \<Rightarrow> (bytes \<Rightarrow> 'a res) \<Rightarrow> bytes \<Rightarrow> nat \<Rightarrow> ('a \<times> nat) res" where
  "table_step header_len dec payload offset =
     (let remaining = drop offset payload in
      if length remaining < header_len then Inl UnexpectedEof
      else
        (let total_len = unat (read_u32 remaining 8) in
         if total_len < header_len then Inl InvalidData
         else
           bindR (ok_or InvalidData (usize_add offset total_len)) (\<lambda>end.
             if end > length payload then Inl UnexpectedEof
             else bindR (dec (subslice payload offset end)) (\<lambda>x. Inr (x, end)))))"

lemma table_step_progress:
  "0 < h \<Longrightarrow> table_step h dec p c = Inr (x, e) \<Longrightarrow> c < e \<and> e \<le> length p"
  by (auto simp: table_step_def Let_def bindR_Inr_iff usize_add_Some_iff split: if_splits)

text \<open>The encoding loop, with the set of keys already seen.\<close>

definition encode_records :: "('a \<Rightarrow> bytes res) \<Rightarrow> ('a \<Rightarrow> 'k) \<Rightarrow> 'a list \<Rightarrow> bytes res" where
  "encode_records enc key xs =
     bindR
       (iterR
          (\<lambda>x (seen, payload).
             if key x \<in> seen then Inl InvalidInput
             else bindR (enc x) (\<lambda>r. Inr (insert (key x) seen, payload @ r)))
          xs ({}, []))
       (\<lambda>(_, payload). Inr payload)"

definition encode_table ::
  "bytes \<Rightarrow> ('a \<Rightarrow> bytes res) \<Rightarrow> ('a \<Rightarrow> 'k) \<Rightarrow> nat res \<Rightarrow> 'a list \<Rightarrow> bytes res" where
  "encode_table magic enc key rlen xs =
     bindR (encode_records enc key xs) (\<lambda>payload.
     bindR rlen (\<lambda>capacity. table_image magic capacity payload (length xs)))"

definition decode_table ::
  "bytes \<Rightarrow> (bytes \<Rightarrow> nat \<Rightarrow> 'a list \<Rightarrow> 'k set \<Rightarrow> 'a list res) \<Rightarrow> bytes \<Rightarrow> 'a list res" where
  "decode_table magic scan img =
     bindR (table_payload magic img) (\<lambda>(payload, record_count).
     bindR (scan payload 0 [] {}) (\<lambda>xs.
       if length xs \<noteq> record_count then Inl InvalidData else Inr xs))"

section \<open>The image format is exact\<close>

definition table_with :: "bytes \<Rightarrow> u32 \<Rightarrow> nat \<Rightarrow> bytes \<Rightarrow> nat \<Rightarrow> bytes" where
  "table_with magic c capacity payload count =
     magic @ to_le_bytes TABLE_VERSION @ to_le_bytes (0 :: u32) @
     to_le_bytes (word_of_nat (length payload) :: u64) @ to_le_bytes (word_of_nat count :: u32) @
     to_le_bytes c @ payload @ replicate (capacity - (32 + length payload)) 0"

definition table_bytes :: "bytes \<Rightarrow> nat \<Rightarrow> bytes \<Rightarrow> nat \<Rightarrow> bytes" where
  "table_bytes magic capacity payload count =
     table_with magic (crc32 (take (32 + length payload) (table_with magic 0 capacity payload count)))
       capacity payload count"

lemma length_table_with:
  "length magic = 8 \<Longrightarrow> 32 + length payload \<le> capacity \<Longrightarrow>
   length (table_with magic c capacity payload count) = capacity"
  by (simp add: table_with_def)

lemma table_with_fields:
  assumes "length magic = 8"
  shows "subslice (table_with magic c capacity payload count) 0 8 = magic"
    "subslice (table_with magic c capacity payload count) 8 12 = to_le_bytes TABLE_VERSION"
    "subslice (table_with magic c capacity payload count) 12 16 = to_le_bytes (0 :: u32)"
    "subslice (table_with magic c capacity payload count) 16 24 =
       to_le_bytes (word_of_nat (length payload) :: u64)"
    "subslice (table_with magic c capacity payload count) 24 28 = to_le_bytes (word_of_nat count :: u32)"
    "subslice (table_with magic c capacity payload count) 28 32 = to_le_bytes c"
    "drop 32 (table_with magic c capacity payload count) =
       payload @ replicate (capacity - (32 + length payload)) 0"
  using assms by (simp_all add: table_with_def slice_simps)

lemma table_with_checksum:
  "length magic = 8 \<Longrightarrow> copy_slice (table_with magic c capacity payload count) 28 (to_le_bytes c') =
   table_with magic c' capacity payload count"
  by (simp add: table_with_def copy_slice_def)

lemma table_with_crc:
  assumes "length magic = 8" and "32 + length payload \<le> capacity"
  shows "copy_slice (take (32 + length payload) (table_with magic c capacity payload count)) 28 (replicate 4 0) =
    take (32 + length payload) (table_with magic 0 capacity payload count)"
  using take_copy_slice_after [of 28 "replicate 4 0" "32 + length payload"
      "table_with magic c capacity payload count"] length_table_with [OF assms, of c count]
    table_with_checksum [OF assms(1), of c capacity payload count 0] assms(2) by simp

lemma crc32_skip_zeroed:
  "off + 4 \<le> length bs \<Longrightarrow> copy_slice bs off (replicate 4 0) = bs \<Longrightarrow> crc32_skip off bs = crc32 bs"
  by (simp add: crc32_skip_eq)

lemma table_with_skip:
  assumes "length magic = 8" and "32 + length payload \<le> capacity"
  shows "crc32_skip 28 (take (32 + length payload) (table_with magic 0 capacity payload count)) =
    crc32 (take (32 + length payload) (table_with magic 0 capacity payload count))"
  by (rule crc32_skip_zeroed)
    (use length_table_with [OF assms] assms table_with_crc [OF assms, of 0] in simp_all)

lemma table_image_eq:
  assumes "length magic = 8" and "capacity < 2 ^ 64"
  shows "table_image magic capacity payload count = Inr img \<longleftrightarrow>
    32 + length payload \<le> capacity \<and> count < 2 ^ 32 \<and> img = table_bytes magic capacity payload count"
proof (cases "32 + length payload \<le> capacity \<and> count < 2 ^ 32")
  case False
  then show ?thesis
    by (auto simp: table_image_def bindR_Inr_iff usize_add_Some_iff word_try_from_Some_iff
        split: if_splits)
next
  case True
  have "copy_fields (replicate capacity 0)
      [(0, magic), (8, to_le_bytes TABLE_VERSION), (12, to_le_bytes (0 :: u32)),
       (16, to_le_bytes (word_of_nat (length payload) :: u64)),
       (24, to_le_bytes (word_of_nat count :: u32)), (32, payload)] =
      table_with magic 0 capacity payload count"
    using True assms(1) by (simp add: copy_fields_lay table_with_def)
  moreover have "usize_add 32 (length payload) = Some (32 + length payload)"
    "word_try_from (length payload) = Some (word_of_nat (length payload) :: u64)"
    "word_try_from count = Some (word_of_nat count :: u32)"
    using True assms by (simp_all add: usize_add_def word_try_from_def)
  ultimately show ?thesis
    using True table_with_skip [OF assms(1)] table_with_checksum [OF assms(1)]
    by (auto simp: table_image_def Let_def table_bytes_def)
qed

lemma table_payload_image:
  assumes "length magic = 8" and "length img < 2 ^ 64"
  shows "table_payload magic img = Inr (payload, count) \<longleftrightarrow>
    32 + length payload \<le> length img \<and> count < 2 ^ 32 \<and>
    img = table_bytes magic (length img) payload count"
proof
  let ?cap = "length img"
  assume rhs: "32 + length payload \<le> ?cap \<and> count < 2 ^ 32 \<and>
    img = table_bytes magic ?cap payload count"
  let ?used = "32 + length payload"
  let ?c = "crc32 (take ?used (table_with magic 0 ?cap payload count))"
  have img: "img = table_with magic ?c ?cap payload count" using rhs by (simp add: table_bytes_def)
  note f = table_with_fields [OF assms(1), of ?c ?cap payload count, folded img]
  have u: "unat (word_of_nat (length payload) :: u64) = length payload"
    "unat (word_of_nat count :: u32) = count"
    using rhs assms(2) by (simp_all add: unat_of_nat)
  have reads: "read_u32 img 8 = TABLE_VERSION" "read_u32 img 12 = 0"
    "read_u64 img 16 = word_of_nat (length payload)" "read_u32 img 24 = word_of_nat count"
    "read_u32 img 28 = ?c"
    using rhs by (simp_all add: read_eq_iffs f)
  have tail: "drop ?used img = replicate (?cap - ?used) 0"
    using arg_cong [OF f(7), of "drop (length payload)"] by (simp add: add.commute)
  have payload: "subslice img 32 ?used = payload"
    using f(7) by (simp add: subslice_def)
  have crc: "crc32_skip 28 (copy_slice (take ?used img) 28 (replicate 4 0)) = ?c"
    using table_with_crc [OF assms(1), of payload ?cap ?c count] rhs
      table_with_skip [OF assms(1), of payload ?cap count] by (simp add: img [symmetric])
  have "usize_add 32 (length payload) = Some ?used" using rhs assms(2) by (simp add: usize_add_def)
  then show "table_payload magic img = Inr (payload, count)"
    using rhs assms(1) by (simp add: table_payload_def f(1) reads u tail payload crc)
next
  let ?cap = "length img" and ?n = "unat (read_u64 img 16)"
  assume "table_payload magic img = Inr (payload, count)"
  then have hdr: "32 \<le> ?cap" "subslice img 0 8 = magic" "read_u32 img 8 = TABLE_VERSION"
    "read_u32 img 12 = 0" "32 + ?n \<le> ?cap" "all_zero (drop (32 + ?n) img)"
    and crc: "crc32_skip 28 (copy_slice (take (32 + ?n) img) 28 (replicate 4 0)) = read_u32 img 28"
    and p: "payload = subslice img 32 (32 + ?n)" and count: "count = unat (read_u32 img 24)"
    using assms(1) unfolding table_payload_def Let_def
    by (auto simp: bindR_Inr_iff usize_add_Some_iff not_less split: if_splits)
  have n: "length payload = ?n" using hdr p by simp
  have sizes: "word_of_nat (length payload) = read_u64 img 16" "word_of_nat count = read_u32 img 24"
    using n count by simp_all
  have tail: "drop 32 img = payload @ replicate (?cap - (32 + length payload)) 0"
    using hdr(6) drop_slice_split [of 32 "32 + ?n" img] p by (simp add: all_zero_iff n)
  have r: "img = table_with magic (read_u32 img 28) ?cap payload count"
    by (rule same_fields_eq [where js = "[8, 12, 16, 24, 28, 32]"])
      (use hdr tail in \<open>simp add: table_with_fields [OF assms(1)] sizes slice_reads\<close>)
  have zeroed: "copy_slice (take (32 + ?n) img) 28 (replicate 4 0) =
      take (32 + length payload) (table_with magic 0 ?cap payload count)"
    using table_with_crc [OF assms(1), of payload ?cap "read_u32 img 28" count] hdr(5) n
    by (simp add: r [symmetric])
  have "crc32 (take (32 + length payload) (table_with magic 0 ?cap payload count)) = read_u32 img 28"
    using crc table_with_skip [OF assms(1), of payload ?cap count] hdr(5) n unfolding zeroed by simp
  then have "img = table_bytes magic ?cap payload count"
    using r by (simp add: table_bytes_def)
  moreover have "count < 2 ^ 32" using count unat_lt2p [of "read_u32 img 24"] by simp
  ultimately show "32 + length payload \<le> ?cap \<and> count < 2 ^ 32 \<and>
      img = table_bytes magic ?cap payload count"
    using hdr(5) n by simp
qed

section \<open>Tables of records\<close>

locale record_table =
  fixes header_len :: nat
    and magic :: bytes
    and rec_bytes :: "'a \<Rightarrow> bytes"
    and rec_ok :: "'a \<Rightarrow> bool"
    and enc :: "'a \<Rightarrow> bytes res"
    and dec :: "bytes \<Rightarrow> 'a res"
    and key :: "'a \<Rightarrow> 'k"
    and scan :: "bytes \<Rightarrow> nat \<Rightarrow> 'a list \<Rightarrow> 'k set \<Rightarrow> 'a list res"
  assumes magic_length: "length magic = 8"
    and header_room: "12 \<le> header_len"
    and record_length: "rec_ok x \<Longrightarrow> header_len \<le> length (rec_bytes x) \<and> length (rec_bytes x) < 2 ^ 32 \<and>
      read_u32 (rec_bytes x) 8 = word_of_nat (length (rec_bytes x))"
    and enc_iff: "enc x = Inr r \<longleftrightarrow> rec_ok x \<and> r = rec_bytes x"
    and dec_iff: "length r < 2 ^ 64 \<Longrightarrow> dec r = Inr x \<longleftrightarrow> rec_ok x \<and> r = rec_bytes x"
    and table_scan_eq: "scan payload offset acc seen =
      (if offset < length payload
       then bindR (table_step header_len dec payload offset) (\<lambda>(x, e).
         if key x \<in> seen then Inl InvalidData
         else scan payload e (acc @ [x]) (insert (key x) seen))
       else Inr acc)"
begin

abbreviation fresh :: "'a list \<Rightarrow> 'a \<Rightarrow> unit res" where
  "fresh acc x \<equiv> (if key x \<in> key ` set acc then Inl InvalidData else Inr ())"

lemma table_step_record:
  assumes "rec_ok x" and "length (pre @ rec_bytes x) < 2 ^ 64"
  shows "table_step header_len dec (pre @ rec_bytes x @ post) (length pre) =
    Inr (x, length pre + length (rec_bytes x))"
proof -
  note len = record_length [OF assms(1)]
  have "read_u32 (rec_bytes x @ post) 8 = word_of_nat (length (rec_bytes x))"
    using len header_room by (simp add: read_u32_def slice_append_left)
  then have "unat (read_u32 (rec_bytes x @ post) 8) = length (rec_bytes x)"
    using len by (simp add: unat_of_nat)
  moreover have "dec (rec_bytes x) = Inr x" using assms len by (simp add: dec_iff)
  ultimately show ?thesis
    using assms(2) len by (simp add: table_step_def Let_def usize_add_def subslice_def)
qed

lemma table_step_canonical:
  assumes "table_step header_len dec bs c = Inr (x, e)" and "c < length bs"
  shows "rec_ok x \<and> c < e \<and> e \<le> length bs \<and> subslice bs c e = rec_bytes x"
proof -
  have step: "c < e" "e \<le> length bs"
    using table_step_progress [OF _ assms(1)] header_room by simp_all
  have d: "dec (subslice bs c e) = Inr x" and e: "e = c + unat (read_u32 (drop c bs) 8)"
    using assms(1) by (auto simp: table_step_def Let_def bindR_Inr_iff usize_add_Some_iff split: if_splits)
  have "length (subslice bs c e) < 2 ^ 64"
    using step e unat_lt_32 [of "read_u32 (drop c bs) 8"] by simp
  with d step show ?thesis by (simp add: dec_iff)
qed

sublocale record_stream rec_bytes rec_ok "table_step header_len dec" fresh
  "\<lambda>bs c acc. scan bs c acc (key ` set acc)"
proof
  fix bs c acc
  show "scan bs c acc (key ` set acc) =
      (if c < length bs
       then bindR (table_step header_len dec bs c) (\<lambda>(x, e).
         bindR (fresh acc x) (\<lambda>_. scan bs e (acc @ [x]) (key ` set (acc @ [x]))))
       else Inr acc)"
    by (subst table_scan_eq) (auto intro!: arg_cong [where f = "bindR _"] ext)
qed (use table_step_record table_step_canonical in blast)+

lemma accepted_iff:
  "accepted acc xs \<longleftrightarrow> distinct (map key xs) \<and> key ` set acc \<inter> key ` set xs = {}"
  by (induction xs arbitrary: acc) auto

lemma scan_records:
  "length payload < 2 ^ 64 \<Longrightarrow> scan payload 0 [] {} = Inr xs \<longleftrightarrow>
   list_all rec_ok xs \<and> distinct (map key xs) \<and> payload = stream xs"
  using scan_iff [of payload xs] by (auto simp: accepted_iff)

lemma encode_records_acc:
  "iterR (\<lambda>x (seen, payload).
       if key x \<in> seen then Inl InvalidInput
       else bindR (enc x) (\<lambda>r. Inr (insert (key x) seen, payload @ r))) xs (seen, p) = Inr (seen', p') \<longleftrightarrow>
   list_all rec_ok xs \<and> distinct (map key xs) \<and> seen \<inter> key ` set xs = {} \<and>
   seen' = seen \<union> key ` set xs \<and> p' = p @ stream xs"
proof (induction xs arbitrary: seen p)
  case (Cons x xs)
  show ?case
  proof (cases "enc x")
    case (Inl e)
    then show ?thesis using enc_iff [of x] by auto
  next
    case (Inr r)
    then have "rec_ok x" "r = rec_bytes x" using enc_iff by auto
    then show ?thesis using Inr by (auto simp: Cons.IH)
  qed
qed auto

lemma encode_records_iff:
  "encode_records enc key xs = Inr p \<longleftrightarrow> list_all rec_ok xs \<and> distinct (map key xs) \<and> p = stream xs"
  by (auto simp: encode_records_def bindR_Inr_iff encode_records_acc)

lemma table_codec_exact:
  assumes "length img < 2 ^ 64"
  shows "decode_table magic scan img = Inr xs \<longleftrightarrow>
    encode_table magic enc key (Inr (length img)) xs = Inr img"
proof -
  have "decode_table magic scan img = Inr xs \<longleftrightarrow>
      (\<exists>p. table_payload magic img = Inr (p, length xs) \<and> scan p 0 [] {} = Inr xs)"
    by (auto simp: decode_table_def bindR_Inr_iff)
  also have "\<dots> \<longleftrightarrow> (\<exists>p. 32 + length p \<le> length img \<and> length xs < 2 ^ 32 \<and>
      img = table_bytes magic (length img) p (length xs) \<and> list_all rec_ok xs \<and>
      distinct (map key xs) \<and> p = stream xs)"
    unfolding table_payload_image [OF magic_length assms] using scan_records assms by auto
  also have "\<dots> \<longleftrightarrow> encode_table magic enc key (Inr (length img)) xs = Inr img"
    by (auto simp: encode_table_def bindR_Inr_iff encode_records_iff table_image_eq [OF magic_length assms])
  finally show ?thesis .
qed

lemma encode_table_iff:
  assumes "capacity < 2 ^ 64"
  shows "encode_table magic enc key (Inr capacity) xs = Inr img \<longleftrightarrow>
    list_all rec_ok xs \<and> distinct (map key xs) \<and> 32 + length (stream xs) \<le> capacity \<and>
    length xs < 2 ^ 32 \<and> img = table_bytes magic capacity (stream xs) (length xs)"
  by (auto simp: encode_table_def bindR_Inr_iff encode_records_iff table_image_eq [OF magic_length assms])

lemma encode_table_length:
  assumes "capacity < 2 ^ 64" and "encode_table magic enc key (Inr capacity) xs = Inr img"
  shows "length img = capacity"
  using assms(2) unfolding encode_table_iff [OF assms(1)] table_bytes_def
  by (auto simp: length_table_with magic_length)

end

section \<open>Metadata regions of a device\<close>

locale meta_region =
  fixes blocks :: "superblock \<Rightarrow> u64 list"
    and rlen :: "superblock \<Rightarrow> nat res"
    and ok :: "'v \<Rightarrow> bool"
    and enc :: "superblock \<Rightarrow> 'v \<Rightarrow> bytes res"
    and dec :: "superblock \<Rightarrow> bytes \<Rightarrow> 'v res"
  assumes blocks_home: "sb_layout sb \<Longrightarrow> b \<in> set (blocks sb) \<Longrightarrow> home_block sb b"
    and blocks_distinct: "distinct (blocks sb)"
    and blocks_bound: "sb_ok sb \<Longrightarrow> length (blocks sb) * 4096 < 2 ^ 64"
    and rlen_eq: "sb_ok sb \<Longrightarrow> rlen sb = Inr (length (blocks sb) * 4096)"
    and enc_length: "sb_ok sb \<Longrightarrow> enc sb x = Inr img \<Longrightarrow> length img = length (blocks sb) * 4096"
    and dec_iff: "sb_ok sb \<Longrightarrow> length img = length (blocks sb) * 4096 \<Longrightarrow>
      dec sb img = Inr x \<longleftrightarrow> ok x \<and> enc sb x = Inr img"
begin

lemma blocks_in_device:
  assumes "sb_ok sb"
  shows "list_all (\<lambda>b. b < total_blocks sb) (blocks sb)"
  using home_block_not_journal [OF sb_ok_layout [OF assms] blocks_home [OF sb_ok_layout [OF assms]]]
  by (simp add: list_all_iff)

lemma stored_contents:
  assumes "sb_ok sb" and "ok x" and "enc sb x = Inr img"
  shows "dec sb (region_bytes (apply_writes (region_writes (blocks sb) img) v id) (blocks sb)) = Inr x"
  using dec_iff [OF assms(1) enc_length [OF assms(1,3)]] assms
    region_bytes_writes [OF blocks_distinct enc_length [OF assms(1,3)]] by simp

lemma stored_tx_ok:
  assumes "sb_ok sb" and "enc sb x = Inr img"
  shows "tx_ok sb (region_writes (blocks sb) img)"
  unfolding tx_ok_def
proof (safe)
  fix b y assume mem: "(b, y) \<in> set (region_writes (blocks sb) img)"
  show "length y = 4096" by (rule region_writes_lengths [OF enc_length [OF assms] mem])
  have "b \<in> set (blocks sb)"
    using mem region_writes_blocks [of "blocks sb" img] by (metis fst_conv image_eqI)
  then show "home_block sb b" by (rule blocks_home [OF sb_ok_layout [OF assms(1)]])
qed

text \<open>The contents of the region are determined by the value it decodes to.\<close>

lemma region_determined:
  assumes "sb_ok sb" and "\<And>b. b < total_blocks sb \<Longrightarrow> length (v b) = 4096"
  shows "dec sb (region_bytes v (blocks sb)) = Inr x \<longleftrightarrow>
    ok x \<and> enc sb x = Inr (region_bytes v (blocks sb))"
proof (rule dec_iff [OF assms(1)])
  show "length (region_bytes v (blocks sb)) = length (blocks sb) * 4096"
    by (rule length_region_bytes) (use blocks_in_device [OF assms(1)] assms(2) in \<open>auto simp: list_all_iff\<close>)
qed

end

text \<open>A region with its load and store operations on the file-backed device.\<close>

locale file_table = meta_region blocks rlen ok enc dec
  for blocks rlen ok enc and dec :: "superblock \<Rightarrow> bytes \<Rightarrow> 'v res" +
  fixes load :: "superblock \<Rightarrow> (file_block_device, 'v) io"
    and store :: "superblock \<Rightarrow> 'v \<Rightarrow> (file_block_device, unit) io"
  assumes load_wp: "sb_ok sb \<Longrightarrow> file_dev.at (total_blocks sb) v u d \<Longrightarrow>
      wp (load sb)
        (\<lambda>x d'. file_dev.at (total_blocks sb) v u d' \<and> dec sb (region_bytes v (blocks sb)) = Inr x)
        (\<lambda>e d'. file_dev.at (total_blocks sb) v u d' \<and> dec sb (region_bytes v (blocks sb)) = Inl e) d"
    and store_wp: "sb_ok sb \<Longrightarrow> file_dev.at (total_blocks sb) v u d \<Longrightarrow>
      wp (store sb x)
        (\<lambda>_ d'. \<exists>img. enc sb x = Inr img \<and>
           file_dev.at (total_blocks sb) (apply_writes (region_writes (blocks sb) img) v id)
             (apply_writes (region_writes (blocks sb) img) v id) d')
        (\<lambda>e d'. enc sb x = Inl e \<and> file_dev.at (total_blocks sb) v u d') d"
begin

lemma load_fst:
  assumes "sb_ok sb" and "file_dev.at (total_blocks sb) v u d"
  shows "fst (load sb d) = dec sb (region_bytes v (blocks sb))"
  using load_wp [OF assms] by (cases "load sb d"; cases "fst (load sb d)") (auto simp: wp_def)

lemma store_roundtrip:
  assumes "sb_ok sb" and "ok x" and "fbd_inv dev" and "fbd_blocks dev = total_blocks sb"
    and "store sb x dev = (r, dev')"
  shows "(is_ok r \<longleftrightarrow> is_ok (enc sb x)) \<and>
    (is_ok r \<longrightarrow> fst (load sb dev') = Inr x \<and> fbd_durable dev' = fbd_view dev') \<and>
    (\<forall>b. b \<notin> set (blocks sb) \<longrightarrow> fbd_view dev' b = fbd_view dev b) \<and>
    (fst (load sb dev) = Inr x \<longrightarrow> is_ok r \<and> fbd_view dev' = fbd_view dev)"
proof -
  let ?n = "total_blocks sb" and ?v = "fbd_view dev"
  have at: "file_dev.at ?n ?v (fbd_durable dev) dev"
    using assms(3,4) by (simp add: dev_at_def file_device_def)
  note det = region_determined [OF assms(1), of ?v x] file_dev.view_length [OF at]
  have enc: "fst (load sb dev) = Inr x \<longleftrightarrow> enc sb x = Inr (region_bytes ?v (blocks sb))"
    using load_fst [OF assms(1) at] det assms(2) by simp
  note store = store_wp [OF assms(1) at, of x, unfolded wp_def assms(5)]
  show ?thesis
  proof (cases r)
    case (Inl e)
    then show ?thesis using store enc by (simp add: dev_at_def)
  next
    case (Inr u)
    then obtain img where img: "enc sb x = Inr img"
      and at': "file_dev.at ?n (apply_writes (region_writes (blocks sb) img) ?v id)
        (apply_writes (region_writes (blocks sb) img) ?v id) dev'"
      using store by auto
    have "apply_writes (region_writes (blocks sb) img) ?v id = ?v" if "fst (load sb dev) = Inr x"
    proof (rule apply_region_same [OF _ _ blocks_distinct])
      show "img = region_bytes ?v (blocks sb)" using that enc img by simp
      show "length (?v b) = 4096" if "b \<in> set (blocks sb)" for b
        using det(2) blocks_in_device [OF assms(1)] that by (simp add: list_all_iff)
    qed
    moreover have "fst (load sb dev') = Inr x"
      using load_fst [OF assms(1) at'] stored_contents [OF assms(1,2) img] by simp
    ultimately show ?thesis
      using Inr at' img by (simp add: dev_at_def apply_region_other)
  qed
qed

end

end
