(* ===== verification/FS_Allocation.thy ===== *)
theory FS_Allocation
  imports FS_Prelude
begin

text \<open>
  The block allocator, \<^verbatim>\<open>src/allocation.rs\<close>: a bitmap of owned data blocks with a
  counter, first-fit allocation, freeing, ownership queries and the accounting check. The
  allocator is shown to implement a plain set of owned blocks, and every allocator a client
  can reach to pass its own check. Unchecked Rust arithmetic is word arithmetic here; that it
  never wraps is part of the invariant.
\<close>

section \<open>The allocator\<close>

datatype allocation_error =
  InvalidLayout u64 u64
| AddressSpaceTooLarge u64
| OutOfRange u64 u64
| ReservedBlock u64
| AlreadyFree u64
| Exhausted

datatype allocation_invariant_error =
  AllocatedCountMismatch u64 u64
| AccountingOverflow
| AccountingMismatch u64 u64 u64 u64

record block_allocator =
  al_total_blocks :: u64
  al_reserved_blocks :: u64
  al_allocated :: "bool list"
  al_allocated_blocks :: u64

definition allocator_new :: "u64 \<Rightarrow> u64 \<Rightarrow> allocation_error + block_allocator" where
  "allocator_new tb rb =
     (if rb > tb then Inl (InvalidLayout tb rb)
      else Inr \<lparr>al_total_blocks = tb, al_reserved_blocks = rb,
                al_allocated = replicate (unat tb) False, al_allocated_blocks = 0\<rparr>)"

definition free_blocks :: "block_allocator \<Rightarrow> u64" where
  "free_blocks a = al_total_blocks a - al_reserved_blocks a - al_allocated_blocks a"

text \<open>\<^verbatim>\<open>iter().position(p)\<close>\<close>

fun position :: "('a \<Rightarrow> bool) \<Rightarrow> 'a list \<Rightarrow> nat option" where
  "position P [] = None"
| "position P (x # xs) = (if P x then Some 0 else map_option Suc (position P xs))"

definition allocate :: "block_allocator \<Rightarrow> (allocation_error + u64) \<times> block_allocator" where
  "allocate a =
     (let start = unat (al_reserved_blocks a) in
      case position Not (drop start (al_allocated a)) of
        None \<Rightarrow> (Inl Exhausted, a)
      | Some index \<Rightarrow>
          let absolute_index = start + index
          in (Inr (word_of_nat absolute_index),
              a\<lparr>al_allocated := (al_allocated a)[absolute_index := True],
                al_allocated_blocks := al_allocated_blocks a + 1\<rparr>))"

definition ensure_in_range :: "block_allocator \<Rightarrow> u64 \<Rightarrow> allocation_error + unit" where
  "ensure_in_range a b =
     (if b \<ge> al_total_blocks a then Inl (OutOfRange b (al_total_blocks a)) else Inr ())"

definition data_index :: "block_allocator \<Rightarrow> u64 \<Rightarrow> allocation_error + nat" where
  "data_index a b =
     bindR (ensure_in_range a b) (\<lambda>_.
       if b < al_reserved_blocks a then Inl (ReservedBlock b) else Inr (unat b))"

definition free :: "block_allocator \<Rightarrow> u64 \<Rightarrow> (allocation_error + unit) \<times> block_allocator" where
  "free a b =
     (case data_index a b of
        Inl e \<Rightarrow> (Inl e, a)
      | Inr index \<Rightarrow>
          if \<not> al_allocated a ! index then (Inl (AlreadyFree b), a)
          else (Inr (), a\<lparr>al_allocated := (al_allocated a)[index := False],
                          al_allocated_blocks := al_allocated_blocks a - 1\<rparr>))"

definition is_owned :: "block_allocator \<Rightarrow> u64 \<Rightarrow> allocation_error + bool" where
  "is_owned a b =
     bindR (ensure_in_range a b) (\<lambda>_.
       if b < al_reserved_blocks a then Inr True else Inr (al_allocated a ! unat b))"

definition allocator_validate :: "block_allocator \<Rightarrow> allocation_invariant_error + unit" where
  "allocator_validate a =
     (let start = unat (al_reserved_blocks a) in
      bindR (ok_or AccountingOverflow
              (word_try_from (length (filter (\<lambda>b. b) (drop start (al_allocated a)))))) (\<lambda>observed.
      if observed \<noteq> al_allocated_blocks a
      then Inl (AllocatedCountMismatch (al_allocated_blocks a) observed)
      else
        bindR (ok_or AccountingOverflow
                (case checked_add (al_reserved_blocks a) (al_allocated_blocks a) of
                   None \<Rightarrow> None
                 | Some value \<Rightarrow> checked_add value (free_blocks a))) (\<lambda>accounted.
        if accounted \<noteq> al_total_blocks a
        then Inl (AccountingMismatch (al_total_blocks a) (al_reserved_blocks a)
                   (al_allocated_blocks a) (free_blocks a))
        else Inr ())))"

section \<open>Invariant and abstraction\<close>

definition alloc_inv :: "block_allocator \<Rightarrow> bool" where
  "alloc_inv a \<longleftrightarrow>
     al_reserved_blocks a \<le> al_total_blocks a \<and>
     length (al_allocated a) = unat (al_total_blocks a) \<and>
     (\<forall>i < unat (al_reserved_blocks a). \<not> al_allocated a ! i) \<and>
     unat (al_allocated_blocks a) = length (filter (\<lambda>b. b) (al_allocated a))"

definition data_blocks :: "block_allocator \<Rightarrow> u64 set" where
  "data_blocks a = {b. al_reserved_blocks a \<le> b \<and> b < al_total_blocks a}"

definition owned :: "block_allocator \<Rightarrow> u64 set" where
  "owned a = {b \<in> data_blocks a. al_allocated a ! unat b}"

abbreviation same_geometry :: "block_allocator \<Rightarrow> block_allocator \<Rightarrow> bool" where
  "same_geometry a a' \<equiv> al_total_blocks a' = al_total_blocks a \<and>
     al_reserved_blocks a' = al_reserved_blocks a"

text \<open>The states a client reaches from a new allocator.\<close>

inductive alloc_step :: "block_allocator \<Rightarrow> block_allocator \<Rightarrow> bool" where
  step_allocate: "alloc_step a (snd (allocate a))"
| step_free: "alloc_step a (snd (free a b))"

inductive alloc_reachable :: "block_allocator \<Rightarrow> bool" where
  new_reachable: "allocator_new tb rb = Inr a \<Longrightarrow> alloc_reachable a"
| step_reachable: "alloc_reachable a \<Longrightarrow> alloc_step a a' \<Longrightarrow> alloc_reachable a'"

inductive_cases alloc_stepE: "alloc_step a a'"

section \<open>Counting bits\<close>

lemma unat_inj: "unat (a :: 'w::len word) = unat b \<longleftrightarrow> a = b"
  using unsigned_word_eqI by blast

lemma position_Some_iff:
  "position P xs = Some i \<longleftrightarrow> i < length xs \<and> P (xs ! i) \<and> (\<forall>j < i. \<not> P (xs ! j))"
proof (induction xs arbitrary: i)
  case (Cons x xs)
  show ?case
  proof (cases i)
    case (Suc k)
    have "(\<forall>j < Suc k. \<not> P ((x # xs) ! j)) \<longleftrightarrow> \<not> P x \<and> (\<forall>j < k. \<not> P (xs ! j))"
      by (auto simp: less_Suc_eq_0_disj)
    then show ?thesis using Suc Cons.IH [of k] by auto
  qed auto
qed simp

lemma position_None_iff: "position P xs = None \<longleftrightarrow> (\<forall>x \<in> set xs. \<not> P x)"
  by (induction xs) auto

lemma filter_set_bit:
  "i < length xs \<Longrightarrow> \<not> xs ! i \<Longrightarrow>
   length (filter (\<lambda>b. b) (xs[i := True])) = Suc (length (filter (\<lambda>b. b) xs))"
  by (induction xs arbitrary: i) (auto split: nat.splits)

lemma filter_clear_bit:
  "i < length xs \<Longrightarrow> xs ! i \<Longrightarrow>
   Suc (length (filter (\<lambda>b. b) (xs[i := False]))) = length (filter (\<lambda>b. b) xs)"
  by (induction xs arbitrary: i) (auto split: nat.splits)

lemma filter_drop_clear:
  assumes "\<forall>i < n. \<not> xs ! i" and "n \<le> length xs"
  shows "filter (\<lambda>b. b) (drop n xs) = filter (\<lambda>b. b) xs"
proof -
  have "filter (\<lambda>b. b) (take n xs) = []"
    using assms by (auto simp: filter_empty_conv in_set_conv_nth)
  then show ?thesis
    using filter_append [of "\<lambda>b. b" "take n xs" "drop n xs"] by simp
qed

lemma free_room:
  assumes "alloc_inv a"
  shows "unat (al_reserved_blocks a) + unat (al_allocated_blocks a) \<le> unat (al_total_blocks a)"
    and "unat (free_blocks a) =
      unat (al_total_blocks a) - unat (al_reserved_blocks a) - unat (al_allocated_blocks a)"
proof -
  have le: "unat (al_reserved_blocks a) \<le> unat (al_total_blocks a)"
    using assms by (simp add: alloc_inv_def word_le_nat_alt)
  have "length (filter (\<lambda>b. b) (drop (unat (al_reserved_blocks a)) (al_allocated a)))
      \<le> unat (al_total_blocks a) - unat (al_reserved_blocks a)"
    using assms length_filter_le [of "\<lambda>b. b" "drop (unat (al_reserved_blocks a)) (al_allocated a)"]
    by (simp add: alloc_inv_def)
  then show 1: "unat (al_reserved_blocks a) + unat (al_allocated_blocks a) \<le> unat (al_total_blocks a)"
    using assms le by (simp add: alloc_inv_def filter_drop_clear)
  show "unat (free_blocks a) =
      unat (al_total_blocks a) - unat (al_reserved_blocks a) - unat (al_allocated_blocks a)"
    unfolding free_blocks_def using 1 le
    by (subst unat_sub; simp add: word_le_nat_alt unat_sub)+
qed

lemma allocator_validate_ok:
  assumes "alloc_inv a"
  shows "allocator_validate a = Inr ()"
proof -
  let ?r = "al_reserved_blocks a" and ?n = "al_allocated_blocks a" and ?t = "al_total_blocks a"
  have le: "unat ?r \<le> unat ?t" using assms by (simp add: alloc_inv_def word_le_nat_alt)
  have cnt: "length (filter (\<lambda>b. b) (drop (unat ?r) (al_allocated a))) = unat ?n"
    using assms le by (simp add: alloc_inv_def filter_drop_clear)
  have "unat ?t < 2 ^ 64" using unat_lt2p [of ?t] by simp
  then have 1: "checked_add ?r ?n = Some (?r + ?n)" and 2: "unat (?r + ?n) = unat ?r + unat ?n"
    using free_room(1) [OF assms] by (auto simp: checked_add_def intro: unat_add_no_overflow)
  have "unat (?r + ?n) + unat (free_blocks a) = unat ?t"
    using free_room [OF assms] 2 by simp
  moreover have "?r + ?n + free_blocks a = ?t" by (simp add: free_blocks_def)
  ultimately have "checked_add (?r + ?n) (free_blocks a) = Some ?t"
    using unat_lt2p [of ?t] by (simp add: checked_add_def)
  then show ?thesis
    using 1 unat_lt2p [of ?n]
    by (simp add: allocator_validate_def cnt word_try_from_def Let_def)
qed

section \<open>The operations\<close>

lemma allocator_new_inv: "allocator_new tb rb = Inr a \<Longrightarrow> alloc_inv a \<and> owned a = {}"
  by (auto simp: allocator_new_def alloc_inv_def owned_def data_blocks_def filter_empty_conv
      word_less_nat_alt word_le_nat_alt not_less split: if_splits)

lemma bit_to_block:
  assumes "length xs = unat tb" and "i < length xs"
  shows "unat (word_of_nat i :: u64) = i" and "(word_of_nat i :: u64) < tb"
proof -
  have "i < 2 ^ 64" using assms unat_lt2p [of tb] by simp
  then show "unat (word_of_nat i :: u64) = i" by simp
  then show "(word_of_nat i :: u64) < tb" using assms by (simp add: word_less_nat_alt)
qed

lemma count_room:
  assumes "alloc_inv a" and "i < length (al_allocated a)" and "\<not> al_allocated a ! i"
  shows "unat (al_allocated_blocks a + 1) = Suc (unat (al_allocated_blocks a))"
proof -
  have "Suc (unat (al_allocated_blocks a)) \<le> unat (al_total_blocks a)"
    using assms filter_set_bit [OF assms(2,3)]
      length_filter_le [of "\<lambda>b. b" "(al_allocated a)[i := True]"] by (simp add: alloc_inv_def)
  then have "unat (al_allocated_blocks a) + unat (1 :: u64) < 2 ^ 64"
    using unat_lt2p [of "al_total_blocks a"] by simp
  then show ?thesis by (subst unat_add_no_overflow) simp_all
qed

lemma allocate_exhausted:
  assumes "alloc_inv a" and "allocate a = (Inl e, a')"
  shows "e = Exhausted \<and> a' = a \<and> owned a = data_blocks a"
proof -
  let ?r = "unat (al_reserved_blocks a)"
  have none: "position Not (drop ?r (al_allocated a)) = None" and "e = Exhausted" "a' = a"
    using assms(2) by (auto simp: allocate_def Let_def split: option.splits)
  have "al_allocated a ! unat b" if "b \<in> data_blocks a" for b
  proof -
    have "?r \<le> unat b" "unat b < length (al_allocated a)"
      using that assms(1) by (auto simp: data_blocks_def alloc_inv_def word_le_nat_alt word_less_nat_alt)
    then have "al_allocated a ! unat b \<in> set (drop ?r (al_allocated a))"
      using nth_mem [of "unat b - ?r" "drop ?r (al_allocated a)"] by simp
    then show ?thesis using none by (auto simp: position_None_iff)
  qed
  then show ?thesis using \<open>e = Exhausted\<close> \<open>a' = a\<close> by (auto simp: owned_def)
qed

lemma allocate_found:
  assumes "alloc_inv a" and "allocate a = (Inr b, a')"
  shows "b \<in> data_blocks a - owned a" and "c \<in> data_blocks a - owned a \<Longrightarrow> b \<le> c"
    and "owned a' = insert b (owned a)" and "alloc_inv a'" and "same_geometry a a'"
    and "al_allocated a' = (al_allocated a)[unat b := True]"
proof -
  let ?r = "unat (al_reserved_blocks a)" and ?xs = "al_allocated a"
  obtain i where pos: "position Not (drop ?r ?xs) = Some i" and b: "b = word_of_nat (?r + i)"
    and a': "a' = a\<lparr>al_allocated := ?xs[?r + i := True],
                   al_allocated_blocks := al_allocated_blocks a + 1\<rparr>"
    using assms(2) by (auto simp: allocate_def Let_def split: option.splits)
  have len: "length ?xs = unat (al_total_blocks a)" using assms(1) by (simp add: alloc_inv_def)
  have i: "?r + i < length ?xs" "\<not> ?xs ! (?r + i)" and least: "\<And>j. j < i \<Longrightarrow> ?xs ! (?r + j)"
    using pos by (auto simp: position_Some_iff)
  note ub = bit_to_block [OF len i(1)]
  show b': "b \<in> data_blocks a - owned a"
    using ub i b by (simp add: data_blocks_def owned_def word_le_nat_alt)
  show "b \<le> c" if "c \<in> data_blocks a - owned a"
  proof (rule ccontr)
    assume "\<not> b \<le> c"
    then have "unat c - ?r < i" "?r + (unat c - ?r) = unat c"
      using that ub b by (auto simp: word_le_nat_alt data_blocks_def)
    then show False using least [of "unat c - ?r"] that by (auto simp: owned_def)
  qed
  show "same_geometry a a'" by (simp add: a')
  show "al_allocated a' = ?xs[unat b := True]" using ub b by (simp add: a')
  have ubi: "unat b = ?r + i" using ub b by simp
  have bit: "?xs[?r + i := True] ! unat c \<longleftrightarrow> c = b \<or> ?xs ! unat c" for c :: u64
    using i unfolding ubi [symmetric] by (auto simp: nth_list_update unat_inj)
  show "owned a' = insert b (owned a)"
    using b' by (auto simp: owned_def data_blocks_def a' bit)
  show "alloc_inv a'"
    using assms(1) i filter_set_bit [OF i] count_room [OF assms(1) i]
    by (auto simp: alloc_inv_def a' nth_list_update)
qed

lemma free_spec:
  assumes "alloc_inv a"
  shows "free a b =
    (if b \<ge> al_total_blocks a then (Inl (OutOfRange b (al_total_blocks a)), a)
     else if b < al_reserved_blocks a then (Inl (ReservedBlock b), a)
     else if b \<notin> owned a then (Inl (AlreadyFree b), a)
     else (Inr (), a\<lparr>al_allocated := (al_allocated a)[unat b := False],
                     al_allocated_blocks := al_allocated_blocks a - 1\<rparr>))"
  by (auto simp: free_def data_index_def ensure_in_range_def owned_def data_blocks_def)

lemma free_found:
  assumes "alloc_inv a" and "free a b = (Inr u, a')"
  shows "b \<in> owned a" and "owned a' = owned a - {b}" and "alloc_inv a'" and "same_geometry a a'"
    and "al_allocated a' = (al_allocated a)[unat b := False]"
proof -
  let ?xs = "al_allocated a"
  have own: "b \<in> owned a" and a': "a' = a\<lparr>al_allocated := ?xs[unat b := False],
                   al_allocated_blocks := al_allocated_blocks a - 1\<rparr>"
    using assms(2) by (auto simp: free_spec [OF assms(1)] split: if_splits)
  show "b \<in> owned a" by (rule own)
  show "same_geometry a a'" and "al_allocated a' = ?xs[unat b := False]" by (simp_all add: a')
  have i: "unat b < length ?xs" "?xs ! unat b"
    using own assms(1) by (simp_all add: owned_def data_blocks_def alloc_inv_def word_less_nat_alt)
  show "owned a' = owned a - {b}"
    using i by (auto simp: owned_def data_blocks_def a' nth_list_update unat_inj)
  have "al_allocated_blocks a \<noteq> 0"
    using filter_clear_bit [OF i] assms(1) by (auto simp: alloc_inv_def)
  then have "unat (al_allocated_blocks a - 1) = unat (al_allocated_blocks a) - 1"
    by (metis unat_minus_one)
  then show "alloc_inv a'"
    using assms(1) i filter_clear_bit [OF i]
    by (auto simp: alloc_inv_def a' nth_list_update)
qed

lemma allocate_inv:
  assumes "alloc_inv a" and "allocate a = (r, a')"
  shows "alloc_inv a' \<and> same_geometry a a'"
proof (cases r)
  case (Inl e)
  then show ?thesis using allocate_exhausted [OF assms(1)] assms by blast
next
  case (Inr b)
  then show ?thesis using allocate_found(4,5) [OF assms(1)] assms(2) by blast
qed

lemma free_inv:
  assumes "alloc_inv a" and "free a b = (r, a')"
  shows "alloc_inv a' \<and> same_geometry a a'"
proof (cases r)
  case (Inl e)
  then have "a' = a" using assms(2) unfolding free_spec [OF assms(1)] by (simp split: if_splits)
  then show ?thesis using assms(1) by simp
next
  case (Inr u)
  then show ?thesis using free_found(3,4) [OF assms(1)] assms(2) by blast
qed

lemma alloc_step_inv: "alloc_step a a' \<Longrightarrow> alloc_inv a \<Longrightarrow> alloc_inv a' \<and> same_geometry a a'"
  by (elim alloc_stepE) (metis allocate_inv free_inv surjective_pairing)+

lemma alloc_reachable_inv: "alloc_reachable a \<Longrightarrow> alloc_inv a"
  by (induction rule: alloc_reachable.induct) (auto simp: allocator_new_inv dest: alloc_step_inv)

lemma is_owned_spec:
  assumes "alloc_inv a"
  shows "is_owned a b =
    (if b \<ge> al_total_blocks a then Inl (OutOfRange b (al_total_blocks a))
     else Inr (b < al_reserved_blocks a \<or> b \<in> owned a))"
  by (auto simp: is_owned_def ensure_in_range_def owned_def data_blocks_def)

lemma card_owned:
  assumes "alloc_inv a"
  shows "card (owned a) = unat (al_allocated_blocks a)"
proof -
  let ?xs = "al_allocated a"
  have len: "length ?xs = unat (al_total_blocks a)" using assms by (simp add: alloc_inv_def)
  have "unat ` owned a = {i. i < length ?xs \<and> ?xs ! i}"
  proof (intro set_eqI iffI)
    fix i assume i: "i \<in> {i. i < length ?xs \<and> ?xs ! i}"
    then have "unat (al_reserved_blocks a) \<le> i"
      using assms by (auto simp: alloc_inv_def not_less [symmetric])
    then have "(word_of_nat i :: u64) \<in> owned a" and "unat (word_of_nat i :: u64) = i"
      using i bit_to_block [OF len, of i] by (auto simp: owned_def data_blocks_def word_le_nat_alt)
    then show "i \<in> unat ` owned a" by (metis image_eqI)
  qed (use len in \<open>auto simp: owned_def data_blocks_def word_less_nat_alt\<close>)
  then have "card (unat ` owned a) = unat (al_allocated_blocks a)"
    using assms length_filter_conv_card [of "\<lambda>b. b" ?xs] by (simp add: alloc_inv_def)
  then show ?thesis by (simp add: card_image inj_on_def unat_inj)
qed

section \<open>Properties\<close>

text \<open>C24. The allocator's invariant. Every allocator reached from a new one by any sequence of
  allocations and frees, successful or refused, passes its own accounting check; the number of
  data blocks it owns is its counter, and reserved, owned and free blocks add up to the device
  size without wrap-around.\<close>

theorem allocator_invariant:
  assumes "alloc_reachable a"
  shows "allocator_validate a = Inr () \<and> card (owned a) = unat (al_allocated_blocks a) \<and>
    unat (al_reserved_blocks a) + card (owned a) + unat (free_blocks a) = unat (al_total_blocks a)"
  using allocator_validate_ok card_owned free_room alloc_reachable_inv [OF assms] by force

theorem allocator_invariant_witness:
  "\<exists>a. allocator_new 16 12 = Inr a \<and> allocator_validate (snd (allocate a)) = Inr ()"
proof -
  obtain a where a: "allocator_new 16 12 = Inr a" by (simp add: allocator_new_def)
  have "alloc_reachable (snd (allocate a))"
    by (intro step_reachable [OF new_reachable [OF a]] step_allocate)
  from allocator_invariant [OF this] a show ?thesis by blast
qed

text \<open>C25. The allocator implements a set of owned blocks. Allocation returns the lowest free data
  block and adds exactly it, and fails only when every data block is owned; freeing removes
  exactly the given block and is refused, without a change, for a block outside the device, a
  reserved block or a free one; the ownership query answers membership, reserved blocks
  included.\<close>

theorem allocator_refines_set:
  assumes "alloc_reachable a"
  shows "(case allocate a of
      (Inl e, a') \<Rightarrow> e = Exhausted \<and> a' = a \<and> owned a = data_blocks a
    | (Inr b, a') \<Rightarrow> b \<in> data_blocks a - owned a \<and> b = Min (data_blocks a - owned a) \<and>
        owned a' = insert b (owned a) \<and> data_blocks a' = data_blocks a \<and> alloc_reachable a') \<and>
    (case free a b of
      (Inl e, a') \<Rightarrow> a' = a \<and> b \<notin> owned a \<and>
        e = (if b \<ge> al_total_blocks a then OutOfRange b (al_total_blocks a)
             else if b < al_reserved_blocks a then ReservedBlock b else AlreadyFree b)
    | (Inr _, a') \<Rightarrow> b \<in> owned a \<and> owned a' = owned a - {b} \<and> data_blocks a' = data_blocks a \<and>
        alloc_reachable a') \<and>
    is_owned a b = (if b \<ge> al_total_blocks a then Inl (OutOfRange b (al_total_blocks a))
                    else Inr (b < al_reserved_blocks a \<or> b \<in> owned a))"
proof (intro conjI)
  note inv = alloc_reachable_inv [OF assms]
  show "case allocate a of
      (Inl e, a') \<Rightarrow> e = Exhausted \<and> a' = a \<and> owned a = data_blocks a
    | (Inr b, a') \<Rightarrow> b \<in> data_blocks a - owned a \<and> b = Min (data_blocks a - owned a) \<and>
        owned a' = insert b (owned a) \<and> data_blocks a' = data_blocks a \<and> alloc_reachable a'"
  proof (cases "allocate a")
    case (Pair r a')
    show ?thesis
    proof (cases r)
      case (Inl e)
      show ?thesis unfolding Pair Inl prod.case sum.case
        by (rule allocate_exhausted [OF inv]) (simp add: Pair Inl)
    next
      case (Inr c)
      have "allocate a = (Inr c, a')" using Pair Inr by simp
      note found = allocate_found [OF inv this]
      have "alloc_reachable a'"
        using step_reachable [OF assms step_allocate] Pair by simp
      moreover have "c = Min (data_blocks a - owned a)"
        using found(1,2) by (intro Min_eqI [symmetric]) auto
      moreover have "data_blocks a' = data_blocks a"
        using found(5) by (simp add: data_blocks_def)
      ultimately show ?thesis unfolding Pair Inr prod.case sum.case using found(1,3) by blast
    qed
  qed
  show "case free a b of
      (Inl e, a') \<Rightarrow> a' = a \<and> b \<notin> owned a \<and>
        e = (if b \<ge> al_total_blocks a then OutOfRange b (al_total_blocks a)
             else if b < al_reserved_blocks a then ReservedBlock b else AlreadyFree b)
    | (Inr _, a') \<Rightarrow> b \<in> owned a \<and> owned a' = owned a - {b} \<and> data_blocks a' = data_blocks a \<and>
        alloc_reachable a'"
  proof (cases "free a b")
    case (Pair r a')
    have "alloc_reachable a'"
      using step_reachable [OF assms step_free] Pair by (metis snd_conv)
    moreover have "data_blocks a' = data_blocks a"
      using free_inv [OF inv Pair] by (simp add: data_blocks_def)
    moreover have "b \<in> owned a \<Longrightarrow> b < al_total_blocks a \<and> al_reserved_blocks a \<le> b"
      by (simp add: owned_def data_blocks_def)
    moreover have "b \<in> owned a \<and> owned a' = owned a - {b}" if "r = Inr u" for u
      using free_found(1,2) [OF inv] Pair that by blast
    ultimately show ?thesis
      using Pair unfolding free_spec [OF inv]
      by (cases r) (auto split: if_splits)
  qed
qed (rule is_owned_spec [OF alloc_reachable_inv [OF assms]])

theorem allocator_refines_set_witness:
  "\<exists>a b a'. allocator_new 16 12 = Inr a \<and> allocate a = (Inr b, a') \<and> owned a' = {b}"
proof -
  obtain a where a: "allocator_new 16 12 = Inr a" by (simp add: allocator_new_def)
  have "owned a \<noteq> data_blocks a"
    using allocator_new_inv [OF a] a by (auto simp: data_blocks_def allocator_new_def intro: exI [of _ 13])
  then have "\<exists>b a'. allocate a = (Inr b, a') \<and> owned a' = insert b (owned a)"
    using allocator_refines_set [OF new_reachable [OF a], of 0]
    by (cases "allocate a"; cases "fst (allocate a)") auto
  then show ?thesis using allocator_new_inv [OF a] a by auto
qed

end
