(* ===== verification/FS_Allocation_Disk.thy ===== *)
theory FS_Allocation_Disk
  imports FS_Table FS_Allocation
begin

text \<open>
  The durable allocation bitmap, \<^verbatim>\<open>src/allocation_disk.rs\<close>: one bit per block of
  the device behind a 32-byte header, in the allocation region. Storing sets the bits of the
  owned data blocks; loading checks the image, builds an allocator with every data block
  allocated and frees the blocks whose bit is clear. Both directions are shown to be exact.
\<close>

section \<open>The bitmap\<close>

definition bit_is_set :: "bytes \<Rightarrow> u64 \<Rightarrow> bool res" where
  "bit_is_set bitmap b =
     (let byte_index = unat (b div 8); bit_index = unat (b mod 8) in
      if byte_index < length bitmap
      then Inr ((bitmap ! byte_index) AND push_bit bit_index 1 \<noteq> 0)
      else Inl InvalidData)"

definition set_bitmap_bit :: "bytes \<Rightarrow> u64 \<Rightarrow> bytes res" where
  "set_bitmap_bit bitmap b =
     (let byte_index = unat (b div 8); bit_index = unat (b mod 8) in
      if byte_index < length bitmap
      then Inr (bitmap[byte_index := (bitmap ! byte_index) OR push_bit bit_index 1])
      else Inl InvalidInput)"

definition alloc_validate_geometry :: "'d block_device \<Rightarrow> superblock \<Rightarrow> 'd \<Rightarrow> unit res" where
  "alloc_validate_geometry D sb d =
     (if block_count D d \<noteq> total_blocks sb then Inl InvalidInput else Inr ())"

definition bitmap_len :: "superblock \<Rightarrow> nat res" where
  "bitmap_len sb = bindR (allocation_bitmap_bytes (total_blocks sb)) (\<lambda>n. Inr (unat n))"

definition alloc_region_len :: "superblock \<Rightarrow> nat res" where
  "alloc_region_len sb = ok_or InvalidInput (usize_mul (unat (allocation_blocks sb)) BLOCK_SIZE)"

definition bits_clear :: "bytes \<Rightarrow> u64 list \<Rightarrow> unit res" where
  "bits_clear bitmap blocks =
     iterR (\<lambda>b _. bindR (bit_is_set bitmap b) (\<lambda>s. if s then Inl InvalidData else Inr ())) blocks ()"

definition validate_bitmap_bits :: "bytes \<Rightarrow> superblock \<Rightarrow> unit res" where
  "validate_bitmap_bits bitmap sb =
     bindR (bits_clear bitmap (u64_range 0 (reserved_blocks sb))) (\<lambda>_.
     bindR (ok_or InvalidData (word_try_from (length bitmap))) (\<lambda>n.
     bindR (ok_or InvalidData (checked_mul n 8)) (\<lambda>bit_capacity.
       bits_clear bitmap (u64_range (total_blocks sb) bit_capacity))))"

section \<open>The image\<close>

definition ALLOCATION_IMAGE_MAGIC :: bytes where
  "ALLOCATION_IMAGE_MAGIC = [70, 83, 76, 65, 76, 79, 67, 0]"

definition ALLOCATION_IMAGE_VERSION :: u32 where "ALLOCATION_IMAGE_VERSION = 1"

definition alloc_encode_image :: "superblock \<Rightarrow> bytes \<Rightarrow> bytes res" where
  "alloc_encode_image sb bitmap =
     bindR (bitmap_len sb) (\<lambda>n.
     if length bitmap \<noteq> n then Inl InvalidInput
     else
       bindR (validate_bitmap_bits bitmap sb) (\<lambda>_.
       bindR (alloc_region_len sb) (\<lambda>len.
       bindR (ok_or InvalidInput (usize_add 32 (length bitmap))) (\<lambda>payload_end.
       if payload_end > len \<or> word_try_from 32 \<noteq> Some ALLOCATION_IMAGE_HEADER_LEN then Inl InvalidInput
       else
         bindR (ok_or InvalidInput (word_try_from (length bitmap))) (\<lambda>bitmap_bytes :: u64.
           Inr (copy_fields (replicate len 0)
             [(0, ALLOCATION_IMAGE_MAGIC), (8, to_le_bytes ALLOCATION_IMAGE_VERSION),
              (12, to_le_bytes (0 :: u32)), (16, to_le_bytes bitmap_bytes),
              (24, to_le_bytes (crc32 bitmap)), (28, to_le_bytes (0 :: u32)), (32, bitmap)]))))))"

definition alloc_decode_image :: "superblock \<Rightarrow> bytes \<Rightarrow> bytes res" where
  "alloc_decode_image sb img =
     bindR (alloc_region_len sb) (\<lambda>len.
     if length img \<noteq> len \<or> length img < 32 then Inl InvalidData
     else if subslice img 0 8 \<noteq> ALLOCATION_IMAGE_MAGIC then Inl InvalidData
     else if read_u32 img 8 \<noteq> ALLOCATION_IMAGE_VERSION then Inl InvalidData
     else if read_u32 img 12 \<noteq> 0 \<or> read_u32 img 28 \<noteq> 0 then Inl InvalidData
     else
       (let encoded_bytes = read_u64 img 16 in
        bindR (allocation_bitmap_bytes (total_blocks sb)) (\<lambda>expected_bytes.
        if encoded_bytes \<noteq> expected_bytes then Inl InvalidData
        else
          bindR (ok_or InvalidData (usize_add 32 (unat encoded_bytes))) (\<lambda>payload_end.
          if payload_end > length img then Inl InvalidData
          else
            (let bitmap = subslice img 32 payload_end in
             if read_u32 img 24 \<noteq> crc32 bitmap then Inl InvalidData
             else if \<not> all_zero (drop payload_end img) then Inl InvalidData
             else bindR (validate_bitmap_bits bitmap sb) (\<lambda>_. Inr bitmap))))))"

definition alloc_read_region :: "'d block_device \<Rightarrow> superblock \<Rightarrow> ('d, bytes) io" where
  "alloc_read_region D sb =
     region_read D InvalidInput (range_blocks (allocation_range sb)) (alloc_region_len sb)"

definition alloc_write_region :: "'d block_device \<Rightarrow> superblock \<Rightarrow> bytes \<Rightarrow> ('d, unit) io" where
  "alloc_write_region D sb img =
     region_write D (range_blocks (allocation_range sb)) (alloc_region_len sb) img"

section \<open>Loading and storing\<close>

text \<open>The pure part of \<^verbatim>\<open>load_allocator\<close>, after the bitmap has been read.\<close>

definition rebuild_allocator :: "superblock \<Rightarrow> bytes \<Rightarrow> block_allocator res" where
  "rebuild_allocator sb bitmap =
     bindR (map_err (\<lambda>_. InvalidData) (allocator_new (total_blocks sb) (reserved_blocks sb))) (\<lambda>a.
     let data_blocks = total_blocks sb - reserved_blocks sb in
     bindR (iterR (\<lambda>_ a. case allocate a of (Inl e, _) \<Rightarrow> Inl InvalidData | (Inr _, a') \<Rightarrow> Inr a')
              (u64_range 0 data_blocks) a) (\<lambda>a.
     bindR (iterR (\<lambda>b a. bindR (bit_is_set bitmap b) (\<lambda>s.
                if s then Inr a
                else case free a b of (Inl e, _) \<Rightarrow> Inl InvalidData | (Inr _, a') \<Rightarrow> Inr a'))
              (u64_range (reserved_blocks sb) (total_blocks sb)) a) (\<lambda>a.
     bindR (map_err (\<lambda>_. InvalidData) (allocator_validate a)) (\<lambda>_. Inr a))))"

definition decode_allocator :: "superblock \<Rightarrow> bytes \<Rightarrow> block_allocator res" where
  "decode_allocator sb img = bindR (alloc_decode_image sb img) (rebuild_allocator sb)"

definition load_allocator :: "'d block_device \<Rightarrow> superblock \<Rightarrow> ('d, block_allocator) io" where
  "load_allocator D sb =
     io_bind (io_look (alloc_validate_geometry D sb)) (\<lambda>_.
     io_bind (alloc_read_region D sb) (\<lambda>img. io_lift (decode_allocator sb img)))"

text \<open>The pure part of \<^verbatim>\<open>store_allocator\<close>, before the region is written.\<close>

definition encode_allocator :: "superblock \<Rightarrow> block_allocator \<Rightarrow> bytes res" where
  "encode_allocator sb a =
     (if al_total_blocks a \<noteq> total_blocks sb \<or> al_reserved_blocks a \<noteq> reserved_blocks sb
      then Inl InvalidInput
      else
        bindR (map_err (\<lambda>_. InvalidInput) (allocator_validate a)) (\<lambda>_.
        bindR (bitmap_len sb) (\<lambda>n.
        bindR (iterR (\<lambda>b bitmap. bindR (map_err (\<lambda>_. InvalidInput) (is_owned a b)) (\<lambda>o'.
                   if o' then set_bitmap_bit bitmap b else Inr bitmap))
                 (u64_range (reserved_blocks sb) (total_blocks sb)) (replicate n 0)) (\<lambda>bitmap.
          alloc_encode_image sb bitmap))))"

definition store_allocator ::
  "'d block_device \<Rightarrow> superblock \<Rightarrow> block_allocator \<Rightarrow> ('d, unit) io" where
  "store_allocator D sb a =
     io_bind (io_look (alloc_validate_geometry D sb)) (\<lambda>_.
     io_bind (io_lift (encode_allocator sb a)) (\<lambda>img.
     io_bind (alloc_write_region D sb img) (\<lambda>_. flush D)))"

definition initialize_allocation_region :: "'d block_device \<Rightarrow> superblock \<Rightarrow> ('d, unit) io" where
  "initialize_allocation_region D sb =
     io_bind (io_look (alloc_validate_geometry D sb)) (\<lambda>_.
     io_bind (io_lift (bindR (bitmap_len sb) (\<lambda>n. alloc_encode_image sb (replicate n 0)))) (\<lambda>img.
       alloc_write_region D sb img))"

section \<open>Bits of a bitmap\<close>

definition bm_bit :: "bytes \<Rightarrow> nat \<Rightarrow> bool" where
  "bm_bit bitmap i = bit (bitmap ! (i div 8)) (i mod 8)"

lemma byte_index: "unat ((b :: u64) div 8) = unat b div 8" "unat (b mod 8) = unat b mod 8"
  by (simp_all add: unat_div unat_mod)

lemma div8_less: "i div 8 < n \<longleftrightarrow> i < 8 * n" for i n :: nat
  by (simp add: div_less_iff_less_mult mult.commute)

lemma div_mod_eq_iff: "i = j \<longleftrightarrow> i div 8 = j div 8 \<and> i mod 8 = j mod 8" for i j :: nat
proof
  assume "i div 8 = j div 8 \<and> i mod 8 = j mod 8"
  then have "i div 8 * 8 + i mod 8 = j div 8 * 8 + j mod 8" by simp
  then show "i = j" unfolding div_mult_mod_eq .
qed simp

lemma bit_is_set_eq:
  "bit_is_set bitmap b =
   (if unat b < 8 * length bitmap then Inr (bm_bit bitmap (unat b)) else Inl InvalidData)"
  by (simp add: bit_is_set_def Let_def byte_index div8_less bm_bit_def bit_iff_and_push_bit_not_eq_0)

lemma set_bitmap_bit_eq:
  assumes "unat b < 8 * length bitmap"
  obtains bitmap' where "set_bitmap_bit bitmap b = Inr bitmap'" and "length bitmap' = length bitmap"
    and "\<And>i. bm_bit bitmap' i \<longleftrightarrow> i = unat b \<or> bm_bit bitmap i"
proof -
  let ?k = "unat b div 8" and ?j = "unat b mod 8"
  have k: "?k < length bitmap" using assms by (simp add: div8_less)
  have bits: "bit (w OR 2 ^ ?j) n \<longleftrightarrow> bit w n \<or> n = ?j" for w :: u8 and n
    by (auto simp: bit_or_iff bit_exp_iff)
  have split: "i = unat b \<longleftrightarrow> i div 8 = ?k \<and> i mod 8 = ?j" for i
    by (rule div_mod_eq_iff)
  have "bm_bit (bitmap[?k := bitmap ! ?k OR push_bit ?j 1]) i \<longleftrightarrow> i = unat b \<or> bm_bit bitmap i" for i
    using k unfolding split by (auto simp: bm_bit_def nth_list_update bits)
  moreover have "set_bitmap_bit bitmap b = Inr (bitmap[?k := bitmap ! ?k OR push_bit ?j 1])"
    using k by (simp add: set_bitmap_bit_def Let_def byte_index)
  ultimately show thesis by (intro that [of "bitmap[?k := bitmap ! ?k OR push_bit ?j 1]"]) simp_all
qed

lemma bitmap_eqI:
  assumes "length xs = length ys" and "\<And>i. i < 8 * length xs \<Longrightarrow> bm_bit xs i = bm_bit ys i"
  shows "xs = ys"
proof (rule nth_equalityI [OF assms(1)])
  fix k assume k: "k < length xs"
  show "xs ! k = ys ! k"
  proof (rule bit_word_eqI)
    fix n assume n: "n < LENGTH(8)"
    then have "8 * k + n < 8 * length xs" "(8 * k + n) div 8 = k" "(8 * k + n) mod 8 = n"
      using k by simp_all
    then show "bit (xs ! k) n = bit (ys ! k) n"
      using assms(2) [of "8 * k + n"] by (simp add: bm_bit_def)
  qed
qed

lemma bits_clear_iff:
  assumes "\<And>b. b \<in> set blocks \<Longrightarrow> unat b < 8 * length bitmap"
  shows "bits_clear bitmap blocks =
    (if \<exists>b \<in> set blocks. bm_bit bitmap (unat b) then Inl InvalidData else Inr ())"
proof -
  have "bits_clear bitmap blocks =
      iterR (\<lambda>b _. if bm_bit bitmap (unat b) then Inl InvalidData else Inr ()) blocks ()"
    unfolding bits_clear_def by (rule iterR_cong) (simp add: bit_is_set_eq assms)
  then show ?thesis by (simp add: iterR_check)
qed

section \<open>Well-formed bitmaps\<close>

abbreviation bitmap_size :: "superblock \<Rightarrow> nat" where
  "bitmap_size sb \<equiv> (unat (total_blocks sb) + 7) div 8"

text \<open>Only data blocks have their bit set.\<close>

definition bitmap_ok :: "superblock \<Rightarrow> bytes \<Rightarrow> bool" where
  "bitmap_ok sb bm \<longleftrightarrow> length bm = bitmap_size sb \<and>
     (\<forall>i < 8 * length bm. bm_bit bm i \<longrightarrow> unat (reserved_blocks sb) \<le> i \<and> i < unat (total_blocks sb))"

lemma bitmap_size_bounds:
  assumes "sb_ok sb"
  shows "unat (total_blocks sb) \<le> 8 * bitmap_size sb" "8 * bitmap_size sb < 2 ^ 64"
    "32 + bitmap_size sb \<le> length (allocation_region sb) * 4096"
    "bitmap_len sb = Inr (bitmap_size sb)"
    "allocation_bitmap_bytes (total_blocks sb) = Inr (word_of_nat (bitmap_size sb))"
    "unat (word_of_nat (bitmap_size sb) :: u64) = bitmap_size sb"
proof -
  have req: "required_allocation_blocks (total_blocks sb) = Inr (allocation_blocks sb)"
    using sb_ok_layout [OF assms] by (simp add: sb_layout_def)
  note size = required_allocation_blocks_eq [OF req]
  show 1: "unat (total_blocks sb) \<le> 8 * bitmap_size sb" by linarith
  have "8 * bitmap_size sb \<le> unat (total_blocks sb) + 7" by simp
  then show 2: "8 * bitmap_size sb < 2 ^ 64" using size(1) by simp
  show "32 + bitmap_size sb \<le> length (allocation_region sb) * 4096"
    using size(2) region_lengths(2) [OF sb_ok_layout [OF assms]]
      div_mult_mod_eq [of "32 + bitmap_size sb + 4095" 4096]
      mod_less_divisor [of 4096 "32 + bitmap_size sb + 4095"] by linarith
  show u: "unat (word_of_nat (bitmap_size sb) :: u64) = bitmap_size sb" using 2 by (simp add: unat_of_nat)
  then show bytes: "allocation_bitmap_bytes (total_blocks sb) = Inr (word_of_nat (bitmap_size sb))"
    using size(1) by (simp only: allocation_bitmap_bytes_eq simp_thms)
  show "bitmap_len sb = Inr (bitmap_size sb)" unfolding bitmap_len_def bytes using u by simp
qed

lemma alloc_region_len_eq:
  assumes "sb_ok sb"
  shows "alloc_region_len sb = Inr (length (allocation_region sb) * 4096)"
    "length (allocation_region sb) * 4096 < 2 ^ 64"
  using region_bytes_bound(2) [OF assms] region_lengths(2) [OF sb_ok_layout [OF assms]]
  by (simp_all add: alloc_region_len_def usize_mul_def)

lemma reserved_le_total: "sb_ok sb \<Longrightarrow> unat (reserved_blocks sb) \<le> unat (total_blocks sb)"
  using sb_layout_unat(8,9) [OF sb_ok_layout] by simp

lemma validate_bitmap_bits_iff:
  assumes "sb_ok sb" and "length bm = bitmap_size sb"
  shows "validate_bitmap_bits bm sb = (if bitmap_ok sb bm then Inr () else Inl InvalidData)"
proof -
  note size = bitmap_size_bounds [OF assms(1)]
  let ?r = "reserved_blocks sb" and ?t = "total_blocks sb" and ?cap = "word_of_nat (8 * length bm) :: u64"
  have n: "word_try_from (length bm) = Some (word_of_nat (length bm) :: u64)"
    using size(2) assms(2) by (simp add: word_try_from_def)
  have small: "length bm < 2 ^ 64" using size(2) assms(2) by simp
  have cap1: "checked_mul (word_of_nat (length bm) :: u64) 8 = Some ?cap"
    using size(2) assms(2) by (simp add: checked_mul_def unat_of_nat mult.commute)
  note cap = cap1 checked_mul_unat [OF cap1, unfolded unat_u64_of_nat [OF small], simplified mult.commute [of _ 8]]
  have low: "bits_clear bm (u64_range 0 ?r) =
      (if \<exists>b \<in> set (u64_range 0 ?r). bm_bit bm (unat b) then Inl InvalidData else Inr ())"
    by (rule bits_clear_iff)
      (use reserved_le_total [OF assms(1)] size(1) assms(2) in
        \<open>auto simp: u64_range_eq_iff word_less_nat_alt\<close>)
  have high: "bits_clear bm (u64_range ?t ?cap) =
      (if \<exists>b \<in> set (u64_range ?t ?cap). bm_bit bm (unat b) then Inl InvalidData else Inr ())"
    by (rule bits_clear_iff) (use cap(2) in \<open>auto simp: u64_range_eq_iff word_less_nat_alt\<close>)
  have word: "(\<exists>b \<in> set (u64_range lo hi). bm_bit bm (unat b)) \<longleftrightarrow>
      (\<exists>i. unat lo \<le> i \<and> i < unat hi \<and> bm_bit bm i)" for lo hi :: u64
  proof
    assume "\<exists>i. unat lo \<le> i \<and> i < unat hi \<and> bm_bit bm i"
    then obtain i where i: "unat lo \<le> i" "i < unat hi" "bm_bit bm i" by blast
    then have "unat (word_of_nat i :: u64) = i" using unat_lt2p [of hi] by (simp add: unat_of_nat)
    with i show "\<exists>b \<in> set (u64_range lo hi). bm_bit bm (unat b)"
      by (intro bexI [of _ "word_of_nat i"]) (simp_all add: u64_range_eq_iff word_le_nat_alt word_less_nat_alt)
  qed (auto simp: u64_range_eq_iff word_le_nat_alt word_less_nat_alt)
  have "bitmap_ok sb bm \<longleftrightarrow> \<not> (\<exists>i. 0 \<le> i \<and> i < unat ?r \<and> bm_bit bm i) \<and>
      \<not> (\<exists>i. unat ?t \<le> i \<and> i < 8 * length bm \<and> bm_bit bm i)"
    using assms size(1) reserved_le_total [OF assms(1)] unfolding bitmap_ok_def
    by (metis le_zero_eq less_le_trans linorder_not_le zero_le)
  then show ?thesis
    unfolding validate_bitmap_bits_def n cap(1) ok_or_simps bindR.simps low high word cap(2) unat_0
    by auto
qed

text \<open>The bytes of an image: header, bitmap, zero padding.\<close>

definition alloc_bytes :: "superblock \<Rightarrow> bytes \<Rightarrow> bytes" where
  "alloc_bytes sb bm =
     ALLOCATION_IMAGE_MAGIC @ to_le_bytes ALLOCATION_IMAGE_VERSION @ to_le_bytes (0 :: u32) @
     to_le_bytes (word_of_nat (length bm) :: u64) @ to_le_bytes (crc32 bm) @ to_le_bytes (0 :: u32) @
     bm @ replicate (length (allocation_region sb) * 4096 - (32 + length bm)) 0"

lemma length_ALLOCATION_IMAGE_MAGIC [simp]: "length ALLOCATION_IMAGE_MAGIC = 8"
  by (simp add: ALLOCATION_IMAGE_MAGIC_def)

lemma alloc_bytes_fields:
  "subslice (alloc_bytes sb bm) 0 8 = ALLOCATION_IMAGE_MAGIC"
  "subslice (alloc_bytes sb bm) 8 12 = to_le_bytes ALLOCATION_IMAGE_VERSION"
  "subslice (alloc_bytes sb bm) 12 16 = to_le_bytes (0 :: u32)"
  "subslice (alloc_bytes sb bm) 16 24 = to_le_bytes (word_of_nat (length bm) :: u64)"
  "subslice (alloc_bytes sb bm) 24 28 = to_le_bytes (crc32 bm)"
  "subslice (alloc_bytes sb bm) 28 32 = to_le_bytes (0 :: u32)"
  "drop 32 (alloc_bytes sb bm) = bm @ replicate (length (allocation_region sb) * 4096 - (32 + length bm)) 0"
  by (simp_all add: alloc_bytes_def slice_simps del: range_blocks.simps)

lemma length_alloc_bytes:
  "32 + length bm \<le> length (allocation_region sb) * 4096 \<Longrightarrow>
   length (alloc_bytes sb bm) = length (allocation_region sb) * 4096"
  by (simp add: alloc_bytes_def del: range_blocks.simps)

lemma alloc_encode_image_iff:
  assumes "sb_ok sb"
  shows "alloc_encode_image sb bm = Inr img \<longleftrightarrow> bitmap_ok sb bm \<and> img = alloc_bytes sb bm"
proof (cases "length bm = bitmap_size sb")
  case False
  then show ?thesis
    by (simp add: alloc_encode_image_def bitmap_size_bounds(4) [OF assms] bitmap_ok_def)
next
  case True
  note size = bitmap_size_bounds [OF assms]
  let ?len = "length (allocation_region sb) * 4096"
  have "copy_fields (replicate ?len 0)
      [(0, ALLOCATION_IMAGE_MAGIC), (8, to_le_bytes ALLOCATION_IMAGE_VERSION),
       (12, to_le_bytes (0 :: u32)), (16, to_le_bytes (word_of_nat (length bm) :: u64)),
       (24, to_le_bytes (crc32 bm)), (28, to_le_bytes (0 :: u32)), (32, bm)] = alloc_bytes sb bm"
    using size(3) True by (simp add: copy_fields_lay alloc_bytes_def del: range_blocks.simps)
  moreover have "usize_add 32 (length bm) = Some (32 + length bm)"
    "word_try_from (length bm) = Some (word_of_nat (length bm) :: u64)"
    "word_try_from 32 = Some ALLOCATION_IMAGE_HEADER_LEN"
    using size(2) True by (simp_all add: usize_add_def word_try_from_def ALLOCATION_IMAGE_HEADER_LEN_def)
  moreover have "\<not> ?len < 32 + length bm" using size(3) True by simp
  ultimately show ?thesis
    using True unfolding alloc_encode_image_def size(4) alloc_region_len_eq(1) [OF assms]
      validate_bitmap_bits_iff [OF assms True]
    by (auto simp del: range_blocks.simps)
qed

lemma alloc_decode_image_iff:
  assumes "sb_ok sb" and "length img = length (allocation_region sb) * 4096"
  shows "alloc_decode_image sb img = Inr bm \<longleftrightarrow> bitmap_ok sb bm \<and> img = alloc_bytes sb bm"
proof
  note size = bitmap_size_bounds [OF assms(1)]
  assume rhs: "bitmap_ok sb bm \<and> img = alloc_bytes sb bm"
  then have n: "length bm = bitmap_size sb" and ok: "bitmap_ok sb bm" and img: "img = alloc_bytes sb bm"
    by (simp_all add: bitmap_ok_def)
  note f = alloc_bytes_fields [of sb bm, folded img]
  have room: "32 + length bm \<le> length img" using size(3) assms(2) n by simp
  have reads: "read_u32 img 8 = ALLOCATION_IMAGE_VERSION" "read_u32 img 12 = 0" "read_u32 img 28 = 0"
    "read_u64 img 16 = word_of_nat (length bm)" "read_u32 img 24 = crc32 bm"
    using room by (simp_all add: read_eq_iffs f)
  have tail: "all_zero (drop (32 + length bm) img)"
    using arg_cong [OF f(7), of "drop (length bm)"] by (simp add: add.commute)
  have bits: "subslice img 32 (32 + length bm) = bm" using f(7) by (simp add: subslice_def)
  have "usize_add 32 (length bm) = Some (32 + length bm)"
    using size(2) n by (simp add: usize_add_def)
  then show "alloc_decode_image sb img = Inr bm"
    using ok room tail bits validate_bitmap_bits_iff [OF assms(1) n] size(5,6)
    unfolding alloc_decode_image_def alloc_region_len_eq(1) [OF assms(1)] Let_def
    by (simp add: reads f(1) n assms(2) [symmetric] del: range_blocks.simps)
next
  note size = bitmap_size_bounds [OF assms(1)]
  assume "alloc_decode_image sb img = Inr bm"
  then have hdr: "32 \<le> length img" "subslice img 0 8 = ALLOCATION_IMAGE_MAGIC"
    "read_u32 img 8 = ALLOCATION_IMAGE_VERSION" "read_u32 img 12 = 0" "read_u32 img 28 = 0"
    "read_u64 img 16 = word_of_nat (bitmap_size sb)" "32 + bitmap_size sb \<le> length img"
    and bm: "bm = subslice img 32 (32 + bitmap_size sb)" and crc: "read_u32 img 24 = crc32 bm"
    and tail: "all_zero (drop (32 + bitmap_size sb) img)" and bits: "validate_bitmap_bits bm sb = Inr ()"
    using size(6) unfolding alloc_decode_image_def alloc_region_len_eq(1) [OF assms(1)] size(5) Let_def
    by (auto simp: bindR_Inr_iff usize_add_Some_iff not_less split: if_splits)
  have n: "length bm = bitmap_size sb" using hdr(7) bm by simp
  have "drop 32 img = bm @ replicate (length img - (32 + length bm)) 0"
    using tail drop_slice_split [of 32 "32 + bitmap_size sb" img] bm n by (simp add: all_zero_iff)
  then have "img = alloc_bytes sb bm"
    by (intro same_fields_eq [where js = "[8, 12, 16, 24, 28, 32]"])
      (use hdr crc n assms(2) in \<open>simp add: alloc_bytes_fields slice_reads del: range_blocks.simps\<close>)
  with bits show "bitmap_ok sb bm \<and> img = alloc_bytes sb bm"
    using validate_bitmap_bits_iff [OF assms(1) n] by (simp split: if_splits)
qed

section \<open>Allocators and bitmaps\<close>

definition alloc_fits :: "superblock \<Rightarrow> block_allocator \<Rightarrow> bool" where
  "alloc_fits sb a \<longleftrightarrow> al_total_blocks a = total_blocks sb \<and> al_reserved_blocks a = reserved_blocks sb"

definition bitmap_for :: "superblock \<Rightarrow> block_allocator \<Rightarrow> bytes \<Rightarrow> bool" where
  "bitmap_for sb a bm \<longleftrightarrow> length bm = bitmap_size sb \<and>
     (\<forall>i < 8 * length bm. bm_bit bm i \<longleftrightarrow> i < unat (total_blocks sb) \<and> al_allocated a ! i)"

lemma alloc_eqI:
  assumes "alloc_inv a" and "alloc_inv a'" and "same_geometry a a'" and "al_allocated a = al_allocated a'"
  shows "a = a'"
proof -
  have "unat (al_allocated_blocks a) = unat (al_allocated_blocks a')"
    using assms by (simp add: alloc_inv_def)
  then show ?thesis using assms(3,4) by (simp add: unat_inj block_allocator.equality)
qed

lemma bitmap_for_ok:
  assumes "alloc_inv a" and "alloc_fits sb a" and "bitmap_for sb a bm"
  shows "bitmap_ok sb bm"
  using assms unfolding bitmap_ok_def bitmap_for_def alloc_inv_def alloc_fits_def
  by (metis linorder_not_le)

lemma bitmap_for_unique: "bitmap_for sb a bm \<Longrightarrow> bitmap_for sb a bm' \<Longrightarrow> bm = bm'"
  by (rule bitmap_eqI) (simp_all add: bitmap_for_def)

lemma bitmap_for_allocator:
  assumes "alloc_inv a" "alloc_fits sb a" "bitmap_for sb a bm"
    and "alloc_inv a'" "alloc_fits sb a'" "bitmap_for sb a' bm" and "sb_ok sb"
  shows "a = a'"
proof (rule alloc_eqI [OF assms(1,4)])
  have len: "length (al_allocated a) = unat (total_blocks sb)" "length (al_allocated a') = unat (total_blocks sb)"
    using assms(1,2,4,5) by (simp_all add: alloc_inv_def alloc_fits_def)
  show "al_allocated a = al_allocated a'"
  proof (rule nth_equalityI)
    fix i assume "i < length (al_allocated a)"
    then have i: "i < unat (total_blocks sb)" "i < 8 * length bm"
      using len bitmap_size_bounds(1) [OF assms(7)] assms(3) by (simp_all add: bitmap_for_def)
    have "bm_bit bm i = al_allocated a ! i" "bm_bit bm i = al_allocated a' ! i"
      using i assms(3,6) unfolding bitmap_for_def by blast+
    then show "al_allocated a ! i = al_allocated a' ! i" by simp
  qed (simp add: len)
qed (use assms(2,5) in \<open>simp add: alloc_fits_def\<close>)

lemma encode_bitmap_loop:
  assumes "sb_ok sb" and "alloc_inv a" and "alloc_fits sb a"
  shows "\<exists>bm. iterR (\<lambda>b bitmap. bindR (map_err (\<lambda>_. InvalidInput) (is_owned a b)) (\<lambda>o'.
       if o' then set_bitmap_bit bitmap b else Inr bitmap))
     (u64_range (reserved_blocks sb) (total_blocks sb)) (replicate (bitmap_size sb) 0) = Inr bm \<and>
     bitmap_for sb a bm"
proof -
  let ?r = "reserved_blocks sb" and ?t = "total_blocks sb"
  let ?I = "\<lambda>done bm. length bm = bitmap_size sb \<and>
    (\<forall>i < 8 * bitmap_size sb. bm_bit bm i \<longleftrightarrow> (\<exists>b \<in> set done. unat b = i \<and> al_allocated a ! i))"
  have "\<exists>bm. iterR (\<lambda>b bitmap. bindR (map_err (\<lambda>_. InvalidInput) (is_owned a b)) (\<lambda>o'.
       if o' then set_bitmap_bit bitmap b else Inr bitmap)) (u64_range ?r ?t)
     (replicate (bitmap_size sb) 0) = Inr bm \<and> ?I (u64_range ?r ?t) bm"
  proof (rule iterR_inv [where I = ?I])
    show "?I [] (replicate (bitmap_size sb) 0)" by (simp add: bm_bit_def div8_less)
  next
    fix pre b post bm
    assume split: "u64_range ?r ?t = pre @ b # post" and I: "?I pre bm"
    have "b \<in> set (u64_range ?r ?t)" unfolding split by simp
    then have b: "?r \<le> b" "b < ?t" by (simp_all add: u64_range_eq_iff)
    then have owned: "is_owned a b = Inr (al_allocated a ! unat b)"
      using assms(3) by (auto simp: is_owned_def ensure_in_range_def alloc_fits_def)
    have "unat b < 8 * length bm"
      using b I bitmap_size_bounds(1) [OF assms(1)] by (simp add: word_less_nat_alt)
    then obtain bm' where "set_bitmap_bit bm b = Inr bm'" "length bm' = length bm"
      "\<And>i. bm_bit bm' i \<longleftrightarrow> i = unat b \<or> bm_bit bm i"
      by (rule set_bitmap_bit_eq) blast
    then show "\<exists>bm'. bindR (map_err (\<lambda>_. InvalidInput) (is_owned a b)) (\<lambda>o'.
        if o' then set_bitmap_bit bm b else Inr bm) = Inr bm' \<and> ?I (pre @ [b]) bm'"
      using I by (cases "al_allocated a ! unat b") (auto simp: owned)
  qed
  then obtain bm where bm: "iterR (\<lambda>b bitmap. bindR (map_err (\<lambda>_. InvalidInput) (is_owned a b)) (\<lambda>o'.
       if o' then set_bitmap_bit bitmap b else Inr bitmap)) (u64_range ?r ?t)
     (replicate (bitmap_size sb) 0) = Inr bm" "?I (u64_range ?r ?t) bm" by blast
  have "(\<exists>b \<in> set (u64_range ?r ?t). unat b = i \<and> al_allocated a ! i) \<longleftrightarrow> i < unat ?t \<and> al_allocated a ! i" for i
  proof
    assume i: "i < unat ?t \<and> al_allocated a ! i"
    then have "unat ?r \<le> i" using assms(2,3) by (metis alloc_inv_def alloc_fits_def linorder_not_le)
    moreover have "unat (word_of_nat i :: u64) = i" using i unat_lt2p [of ?t] by (simp add: unat_of_nat)
    ultimately show "\<exists>b \<in> set (u64_range ?r ?t). unat b = i \<and> al_allocated a ! i"
      using i by (intro bexI [of _ "word_of_nat i"])
        (simp_all add: u64_range_eq_iff word_le_nat_alt word_less_nat_alt)
  qed (auto simp: u64_range_eq_iff word_less_nat_alt)
  with bm show ?thesis by (auto simp: bitmap_for_def)
qed

lemma encode_allocator_eq:
  assumes "sb_ok sb" and "alloc_inv a"
  shows "encode_allocator sb a = Inr img \<longleftrightarrow>
    alloc_fits sb a \<and> (\<exists>bm. bitmap_for sb a bm \<and> img = alloc_bytes sb bm)"
proof (cases "alloc_fits sb a")
  case False
  then show ?thesis by (auto simp: encode_allocator_def alloc_fits_def)
next
  case True
  obtain bm where bm: "iterR (\<lambda>b bitmap. bindR (map_err (\<lambda>_. InvalidInput) (is_owned a b)) (\<lambda>o'.
       if o' then set_bitmap_bit bitmap b else Inr bitmap))
     (u64_range (reserved_blocks sb) (total_blocks sb)) (replicate (bitmap_size sb) 0) = Inr bm"
    and for_a: "bitmap_for sb a bm"
    using encode_bitmap_loop [OF assms True] by blast
  have "encode_allocator sb a = Inr img \<longleftrightarrow> img = alloc_bytes sb bm"
    using True bitmap_for_ok [OF assms(2) True for_a]
    by (simp add: encode_allocator_def alloc_fits_def allocator_validate_ok [OF assms(2)]
        bitmap_size_bounds(4) [OF assms(1)] bm alloc_encode_image_iff [OF assms(1)])
  then show ?thesis using True for_a bitmap_for_unique by blast
qed

lemma data_blocks_range:
  assumes "alloc_fits sb a"
  shows "data_blocks a = set (u64_range (reserved_blocks sb) (total_blocks sb))"
    "card (data_blocks a) = unat (total_blocks sb) - unat (reserved_blocks sb)"
proof -
  show eq: "data_blocks a = set (u64_range (reserved_blocks sb) (total_blocks sb))"
    using assms by (auto simp: data_blocks_def alloc_fits_def u64_range_eq_iff)
  show "card (data_blocks a) = unat (total_blocks sb) - unat (reserved_blocks sb)"
    unfolding eq by (simp add: distinct_card distinct_u64_range)
qed

lemma owned_subset: "owned a \<subseteq> data_blocks a" "finite (data_blocks a)"
  by (auto simp: owned_def)

lemma allocate_all_loop:
  assumes "sb_ok sb" and "allocator_new (total_blocks sb) (reserved_blocks sb) = Inr a0"
  shows "\<exists>a. iterR (\<lambda>_ a. case allocate a of (Inl e, _) \<Rightarrow> Inl InvalidData | (Inr _, a') \<Rightarrow> Inr a')
      (u64_range 0 (total_blocks sb - reserved_blocks sb)) a0 = Inr a \<and>
    alloc_inv a \<and> alloc_fits sb a \<and> owned a = data_blocks a"
proof -
  let ?n = "unat (total_blocks sb) - unat (reserved_blocks sb)"
  let ?xs = "u64_range 0 (total_blocks sb - reserved_blocks sb)"
  let ?I = "\<lambda>done a. alloc_inv a \<and> alloc_fits sb a \<and> card (owned a) = length done"
  have n: "length ?xs = ?n"
    using reserved_le_total [OF assms(1)] by (simp add: unat_sub word_le_nat_alt)
  have "\<exists>a. iterR (\<lambda>_ a. case allocate a of (Inl e, _) \<Rightarrow> Inl InvalidData | (Inr _, a') \<Rightarrow> Inr a') ?xs a0 = Inr a \<and>
      ?I ?xs a"
  proof (rule iterR_inv [where I = ?I])
    show "?I [] a0"
      using allocator_new_inv [OF assms(2)] assms(2)
      by (auto simp: alloc_fits_def allocator_new_def split: if_splits)
  next
    fix pre x post a
    assume split: "?xs = pre @ x # post" and I: "?I pre a"
    have fits: "alloc_fits sb a" and inv: "alloc_inv a" using I by simp_all
    have "length pre < ?n" using arg_cong [OF split, of length] n by simp
    then have "owned a \<noteq> data_blocks a" using I data_blocks_range(2) [OF fits] by auto
    then obtain b a' where ok: "allocate a = (Inr b, a')"
      using allocate_exhausted [OF inv] by (metis old.sum.exhaust surj_pair)
    note found = allocate_found [OF inv ok]
    have "finite (owned a)" by (rule finite_subset [OF owned_subset])
    then have "?I (pre @ [x]) a'" using found(1,3,4,5) I by (auto simp: alloc_fits_def)
    then show "\<exists>s'. (case allocate a of (Inl e, _) \<Rightarrow> Inl InvalidData | (Inr _, a') \<Rightarrow> Inr a') = Inr s' \<and>
        ?I (pre @ [x]) s'"
      by (simp add: ok)
  qed
  then obtain a where a: "iterR (\<lambda>_ a. case allocate a of (Inl e, _) \<Rightarrow> Inl InvalidData | (Inr _, a') \<Rightarrow> Inr a') ?xs a0 = Inr a"
    "?I ?xs a" by blast
  have "owned a = data_blocks a"
    using a(2) n data_blocks_range(2) [of sb a] owned_subset by (intro card_subset_eq) simp_all
  with a show ?thesis by blast
qed

lemma free_clear_loop:
  assumes "sb_ok sb" and "bitmap_ok sb bm" and "alloc_inv a0" and "alloc_fits sb a0"
    and "owned a0 = data_blocks a0"
  shows "\<exists>a. iterR (\<lambda>b a. bindR (bit_is_set bm b) (\<lambda>s. if s then Inr a
        else case free a b of (Inl e, _) \<Rightarrow> Inl InvalidData | (Inr _, a') \<Rightarrow> Inr a'))
      (u64_range (reserved_blocks sb) (total_blocks sb)) a0 = Inr a \<and>
    alloc_inv a \<and> alloc_fits sb a \<and> owned a = {b \<in> data_blocks a. bm_bit bm (unat b)}"
proof -
  let ?xs = "u64_range (reserved_blocks sb) (total_blocks sb)"
  let ?I = "\<lambda>done a. alloc_inv a \<and> alloc_fits sb a \<and>
    owned a = {b \<in> set ?xs. b \<in> set done \<longrightarrow> bm_bit bm (unat b)}"
  have "\<exists>a. iterR (\<lambda>b a. bindR (bit_is_set bm b) (\<lambda>s. if s then Inr a
        else case free a b of (Inl e, _) \<Rightarrow> Inl InvalidData | (Inr _, a') \<Rightarrow> Inr a')) ?xs a0 = Inr a \<and> ?I ?xs a"
  proof (rule iterR_inv [where I = ?I])
    show "?I [] a0" using assms(3-5) data_blocks_range(1) [OF assms(4)] by simp
  next
    fix pre b post a
    assume split: "?xs = pre @ b # post" and I: "?I pre a"
    have b: "b \<in> set ?xs" and new: "b \<notin> set pre"
      using split distinct_u64_range [of "reserved_blocks sb" "total_blocks sb"] by simp_all
    then have "unat b < 8 * length bm"
      using bitmap_size_bounds(1) [OF assms(1)] assms(2)
      by (simp add: u64_range_eq_iff word_less_nat_alt bitmap_ok_def)
    then have bit: "bit_is_set bm b = Inr (bm_bit bm (unat b))" by (simp add: bit_is_set_eq)
    have inv: "alloc_inv a" and own: "b \<in> owned a" using I b new by simp_all
    then have "\<not> b < al_reserved_blocks a" "\<not> al_total_blocks a \<le> b"
      by (auto simp: owned_def data_blocks_def)
    then obtain a' where free: "free a b = (Inr (), a')"
      using own free_spec [OF inv, of b] by simp
    note found = free_found [OF inv free]
    have "owned (if bm_bit bm (unat b) then a else a') =
        {c \<in> set ?xs. c \<in> set (pre @ [b]) \<longrightarrow> bm_bit bm (unat c)}"
    proof (cases "bm_bit bm (unat b)")
      case True
      then show ?thesis using I by auto
    next
      case False
      then show ?thesis using I found(2) by auto
    qed
    moreover have "alloc_inv (if bm_bit bm (unat b) then a else a')"
      "alloc_fits sb (if bm_bit bm (unat b) then a else a')"
      using I found(3,4) by (simp_all add: alloc_fits_def)
    ultimately have "?I (pre @ [b]) (if bm_bit bm (unat b) then a else a')" by blast
    then show "\<exists>s'. bindR (bit_is_set bm b) (\<lambda>s. if s then Inr a
        else case free a b of (Inl e, _) \<Rightarrow> Inl InvalidData | (Inr _, a') \<Rightarrow> Inr a') = Inr s' \<and> ?I (pre @ [b]) s'"
      by (simp add: bit free split: if_splits)
  qed
  then obtain a where a: "iterR (\<lambda>b a. bindR (bit_is_set bm b) (\<lambda>s. if s then Inr a
        else case free a b of (Inl e, _) \<Rightarrow> Inl InvalidData | (Inr _, a') \<Rightarrow> Inr a')) ?xs a0 = Inr a"
    "?I ?xs a" by blast
  then have "owned a = {b \<in> data_blocks a. bm_bit bm (unat b)}"
    using data_blocks_range(1) [of sb a] by auto
  with a show ?thesis by blast
qed

lemma owned_bitmap_for:
  assumes "sb_ok sb" and "alloc_inv a" and "alloc_fits sb a" and "bitmap_ok sb bm"
    and own: "owned a = {b \<in> data_blocks a. bm_bit bm (unat b)}"
  shows "bitmap_for sb a bm"
  unfolding bitmap_for_def
proof (intro conjI allI impI)
  show "length bm = bitmap_size sb" using assms(4) by (simp add: bitmap_ok_def)
  fix i assume i: "i < 8 * length bm"
  show "bm_bit bm i \<longleftrightarrow> i < unat (total_blocks sb) \<and> al_allocated a ! i"
  proof (cases "unat (reserved_blocks sb) \<le> i \<and> i < unat (total_blocks sb)")
    case True
    then have u: "unat (word_of_nat i :: u64) = i"
      using unat_lt2p [of "total_blocks sb"] by (simp add: unat_of_nat)
    then have "(word_of_nat i :: u64) \<in> data_blocks a"
      using True assms(3) by (simp add: data_blocks_def alloc_fits_def word_le_nat_alt word_less_nat_alt)
    then have "al_allocated a ! unat (word_of_nat i :: u64) \<longleftrightarrow> bm_bit bm (unat (word_of_nat i :: u64))"
      using own by (auto simp: owned_def)
    then show ?thesis using True u by simp
  next
    case False
    then show ?thesis
      using i assms(2-4) unfolding bitmap_ok_def alloc_inv_def alloc_fits_def by (metis linorder_not_le)
  qed
qed

lemma rebuild_allocator_eq:
  assumes "sb_ok sb" and "bitmap_ok sb bm"
  shows "rebuild_allocator sb bm = Inr a \<longleftrightarrow> alloc_inv a \<and> alloc_fits sb a \<and> bitmap_for sb a bm"
proof -
  obtain a0 where new: "allocator_new (total_blocks sb) (reserved_blocks sb) = Inr a0"
    using reserved_le_total [OF assms(1)] by (simp add: allocator_new_def word_le_nat_alt not_less)
  obtain a1 where all: "iterR (\<lambda>_ a. case allocate a of (Inl e, _) \<Rightarrow> Inl InvalidData | (Inr _, a') \<Rightarrow> Inr a')
      (u64_range 0 (total_blocks sb - reserved_blocks sb)) a0 = Inr a1"
    and a1: "alloc_inv a1" "alloc_fits sb a1" "owned a1 = data_blocks a1"
    using allocate_all_loop [OF assms(1) new] by blast
  obtain a2 where clear: "iterR (\<lambda>b a. bindR (bit_is_set bm b) (\<lambda>s. if s then Inr a
        else case free a b of (Inl e, _) \<Rightarrow> Inl InvalidData | (Inr _, a') \<Rightarrow> Inr a'))
      (u64_range (reserved_blocks sb) (total_blocks sb)) a1 = Inr a2"
    and a2: "alloc_inv a2" "alloc_fits sb a2" "owned a2 = {b \<in> data_blocks a2. bm_bit bm (unat b)}"
    using free_clear_loop [OF assms a1] by blast
  have "rebuild_allocator sb bm = Inr a2"
    by (simp only: rebuild_allocator_def new all clear map_err_simps bindR.simps Let_def
        allocator_validate_ok [OF a2(1)])
  then show ?thesis
    using owned_bitmap_for [OF assms(1) a2(1,2) assms(2) a2(3)] a2(1,2) bitmap_for_allocator assms(1) by auto
qed

interpretation atab: meta_region allocation_region alloc_region_len alloc_inv encode_allocator decode_allocator
proof
  fix sb b assume "sb_layout sb" "b \<in> set (allocation_region sb)"
  then show "home_block sb b" by (rule region_home(1))
next
  fix sb a img assume ok: "sb_ok sb" and enc: "encode_allocator sb a = Inr img"
  then obtain bm where "bitmap_ok sb bm" "img = alloc_bytes sb bm"
    unfolding encode_allocator_def by (auto simp: bindR_Inr_iff alloc_encode_image_iff [OF ok] split: if_splits)
  then show "length img = length (allocation_region sb) * 4096"
    using length_alloc_bytes bitmap_size_bounds(3) [OF ok] by (auto simp: bitmap_ok_def)
next
  fix sb and img :: bytes and a assume ok: "sb_ok sb" and len: "length img = length (allocation_region sb) * 4096"
  have "decode_allocator sb img = Inr a \<longleftrightarrow>
      (\<exists>bm. bitmap_ok sb bm \<and> img = alloc_bytes sb bm \<and> rebuild_allocator sb bm = Inr a)"
    by (auto simp: decode_allocator_def bindR_Inr_iff alloc_decode_image_iff [OF ok len])
  then show "decode_allocator sb img = Inr a \<longleftrightarrow> alloc_inv a \<and> encode_allocator sb a = Inr img"
    using rebuild_allocator_eq [OF ok] encode_allocator_eq [OF ok] bitmap_for_ok by blast
qed (use distinct_range_blocks alloc_region_len_eq in blast)+

text \<open>The allocator that the contents of a device hold.\<close>

definition allocator_of :: "superblock \<Rightarrow> (u64 \<Rightarrow> bytes) \<Rightarrow> block_allocator res" where
  "allocator_of sb v = decode_allocator sb (region_bytes v (allocation_region sb))"

lemma allocator_of_cong:
  "(\<And>b. b \<in> set (allocation_region sb) \<Longrightarrow> v b = v' b) \<Longrightarrow> allocator_of sb v = allocator_of sb v'"
  unfolding allocator_of_def by (simp add: region_bytes_cong [of _ v v'])

lemma allocator_of_stored:
  "sb_ok sb \<Longrightarrow> alloc_inv a \<Longrightarrow> encode_allocator sb a = Inr img \<Longrightarrow>
   allocator_of sb (apply_writes (region_writes (allocation_region sb) img) v id) = Inr a"
  unfolding allocator_of_def by (rule atab.stored_contents)

lemma encode_allocator_fits:
  assumes "sb_ok sb" and "alloc_inv a"
  shows "is_ok (encode_allocator sb a) \<longleftrightarrow> alloc_fits sb a"
  using encode_bitmap_loop [OF assms] encode_allocator_eq [OF assms] by (fastforce simp: is_ok_iff)

section \<open>On a device\<close>

lemma alloc_geometry_ok: "block_count D d = total_blocks sb \<Longrightarrow> alloc_validate_geometry D sb d = Inr ()"
  by (simp add: alloc_validate_geometry_def)

context block_dev
begin

lemma load_allocator_wp:
  assumes "sb_ok sb" and "at (total_blocks sb) v u d"
  shows "wp (load_allocator D sb)
    (\<lambda>a d'. at (total_blocks sb) v u d' \<and> allocator_of sb v = Inr a)
    (\<lambda>e d'. at (total_blocks sb) v u d' \<and> allocator_of sb v = Inl e) d"
  unfolding load_allocator_def alloc_read_region_def allocator_of_def
  by (rule load_region_wp [OF assms(2) alloc_geometry_ok])
    (use assms alloc_region_len_eq [OF assms(1)] atab.blocks_in_device [OF assms(1)] in
      \<open>simp_all add: dev_at_def\<close>)

lemma store_allocator_wp:
  assumes "sb_ok sb" and "at (total_blocks sb) v u d"
  shows "wp (store_allocator D sb a)
    (\<lambda>_ d'. \<exists>img. encode_allocator sb a = Inr img \<and>
       at (total_blocks sb) (apply_writes (region_writes (allocation_region sb) img) v id)
         (if syncs then apply_writes (region_writes (allocation_region sb) img) v id else u) d')
    (\<lambda>e d'. encode_allocator sb a = Inl e \<and> at (total_blocks sb) v u d' \<or>
       faulty \<and> (\<exists>img k. encode_allocator sb a = Inr img \<and>
         at (total_blocks sb) (apply_writes (take k (region_writes (allocation_region sb) img)) v id) u d')) d"
  unfolding store_allocator_def alloc_write_region_def
  by (rule store_region_wp [OF assms(2) alloc_geometry_ok])
    (use assms alloc_region_len_eq [OF assms(1)] atab.blocks_in_device [OF assms(1)]
      atab.enc_length [OF assms(1)] in \<open>simp_all add: dev_at_def\<close>)

end

interpretation afile: file_table allocation_region alloc_region_len alloc_inv encode_allocator
  decode_allocator "load_allocator file_device" "store_allocator file_device"
proof
  fix sb v u d assume "sb_ok sb" "file_dev.at (total_blocks sb) v u d"
  from file_dev.load_allocator_wp [OF this]
  show "wp (load_allocator file_device sb)
      (\<lambda>x d'. file_dev.at (total_blocks sb) v u d' \<and>
        decode_allocator sb (region_bytes v (allocation_region sb)) = Inr x)
      (\<lambda>e d'. file_dev.at (total_blocks sb) v u d' \<and>
        decode_allocator sb (region_bytes v (allocation_region sb)) = Inl e) d"
    by (simp add: allocator_of_def)
qed (use file_dev.store_allocator_wp in \<open>simp\<close>)

section \<open>Properties\<close>

text \<open>C21. Allocation bitmap round trip. On a file-backed device of the right size, storing any
  allocator a client can reach succeeds exactly when its geometry is that of the superblock;
  then loading rebuilds exactly the stored allocator, ownership bits and counter included,
  every block outside the allocation region keeps its contents and the result is durable.
  Conversely, storing the allocator a region loads as leaves the region byte for byte as it
  was.\<close>

theorem allocator_roundtrip:
  assumes "sb_ok sb" and "alloc_reachable a" and "fbd_inv dev" and "fbd_blocks dev = total_blocks sb"
    and "store_allocator file_device sb a dev = (r, dev')"
  shows "(is_ok r \<longleftrightarrow> al_total_blocks a = total_blocks sb \<and> al_reserved_blocks a = reserved_blocks sb) \<and>
    (is_ok r \<longrightarrow> fst (load_allocator file_device sb dev') = Inr a \<and> fbd_durable dev' = fbd_view dev') \<and>
    (\<forall>b. b \<notin> set (allocation_region sb) \<longrightarrow> fbd_view dev' b = fbd_view dev b) \<and>
    (fst (load_allocator file_device sb dev) = Inr a \<longrightarrow> is_ok r \<and> fbd_view dev' = fbd_view dev)"
  using afile.store_roundtrip [OF assms(1) alloc_reachable_inv [OF assms(2)] assms(3-5)]
    encode_allocator_fits [OF assms(1) alloc_reachable_inv [OF assms(2)]]
  unfolding alloc_fits_def by blast

theorem allocator_roundtrip_witness:
  "\<exists>a a' dev'. allocator_new 16 (reserved_blocks demo_superblock) = Inr a \<and> a' = snd (allocate a) \<and>
     store_allocator file_device demo_superblock a' (blank_device 16) = (Inr (), dev') \<and>
     fst (load_allocator file_device demo_superblock dev') = Inr a'"
proof -
  obtain a where a: "allocator_new 16 (reserved_blocks demo_superblock) = Inr a"
    by (simp add: allocator_new_def demo_superblock_def reserved_blocks_def)
  let ?a = "snd (allocate a)"
  have reach: "alloc_reachable ?a"
    by (rule step_reachable [OF new_reachable [OF a] step_allocate])
  have "al_total_blocks ?a = 16" "al_reserved_blocks ?a = reserved_blocks demo_superblock"
    using alloc_step_inv [OF step_allocate [of a]] allocator_new_inv [OF a] a
    by (auto simp: allocator_new_def split: if_splits)
  moreover have "total_blocks demo_superblock = 16" by (simp add: demo_superblock_def)
  moreover have "fbd_inv (blank_device 16)" "fbd_blocks (blank_device 16) = total_blocks demo_superblock"
    using blank_device_inv [of 16] by (simp_all add: blank_device_def demo_superblock_def)
  moreover obtain r dev' where "store_allocator file_device demo_superblock ?a (blank_device 16) = (r, dev')"
    by (cases "store_allocator file_device demo_superblock ?a (blank_device 16)")
  ultimately show ?thesis
    using allocator_roundtrip [OF demo_superblock_ok reach] a by (auto simp: is_ok_iff)
qed

end
