(* ===== verification/FS_Inode_Codec.thy ===== *)
theory FS_Inode_Codec
  imports FS_Table
begin

text \<open>
  Persisted inodes, \<^verbatim>\<open>src/inode_codec.rs\<close>: one record is a 32-byte header with
  magic, version, kind, length, identifier, block count and checksum, followed by the block
  numbers. Encoding and decoding are shown to be exact inverses.
\<close>

section \<open>The codec\<close>

datatype inode_kind = File | Directory

record persisted_inode =
  pi_id :: u64
  pi_kind :: inode_kind
  pi_blocks :: "u64 list"

definition INODE_RECORD_MAGIC :: bytes where
  "INODE_RECORD_MAGIC = [73, 78, 79, 49]"

definition INODE_RECORD_VERSION :: u16 where "INODE_RECORD_VERSION = 1"

definition INODE_RECORD_HEADER_LEN :: nat where "INODE_RECORD_HEADER_LEN = 32"

definition KIND_FILE :: u16 where "KIND_FILE = 1"
definition KIND_DIRECTORY :: u16 where "KIND_DIRECTORY = 2"

fun kind_code :: "inode_kind \<Rightarrow> u16" where
  "kind_code File = KIND_FILE"
| "kind_code Directory = KIND_DIRECTORY"

definition inode_record_crc :: "bytes \<Rightarrow> u32" where
  "inode_record_crc bs = crc32_skip 24 bs"

text \<open>\<^verbatim>\<open>sort_unstable\<close>, then a search for equal neighbours.\<close>

definition has_duplicates :: "u64 list \<Rightarrow> bool" where
  "has_duplicates blocks =
     (let sorted = sort blocks in list_ex (\<lambda>(a, b). a = b) (zip sorted (tl sorted)))"

definition encode_inode :: "persisted_inode \<Rightarrow> bytes res" where
  "encode_inode inode =
     (if pi_id inode = 0 then Inl InvalidInput
      else
        bindR (ok_or InvalidInput (word_try_from (length (pi_blocks inode)))) (\<lambda>block_count :: u32.
        bindR (ok_or InvalidInput (usize_mul (length (pi_blocks inode)) 8)) (\<lambda>payload_len.
        bindR (ok_or InvalidInput (usize_add INODE_RECORD_HEADER_LEN payload_len)) (\<lambda>total_len.
        bindR (ok_or InvalidInput (word_try_from total_len)) (\<lambda>total_len_u32 :: u32.
          if has_duplicates (pi_blocks inode) then Inl InvalidInput
          else
            let bs = copy_fields (replicate total_len 0)
                  [(0, INODE_RECORD_MAGIC), (4, to_le_bytes INODE_RECORD_VERSION),
                   (6, to_le_bytes (kind_code (pi_kind inode))), (8, to_le_bytes total_len_u32),
                   (12, to_le_bytes (pi_id inode)), (20, to_le_bytes block_count)];
                bs = copy_fields bs
                  (map (\<lambda>(index, b). (INODE_RECORD_HEADER_LEN + index * 8, to_le_bytes b))
                     (enumerate 0 (pi_blocks inode)));
                crc = inode_record_crc bs
            in Inr (copy_slice bs 24 (to_le_bytes crc)))))))"

definition decode_inode :: "bytes \<Rightarrow> persisted_inode res" where
  "decode_inode bs =
     (if length bs < INODE_RECORD_HEADER_LEN then Inl UnexpectedEof
      else if subslice bs 0 4 \<noteq> INODE_RECORD_MAGIC then Inl InvalidData
      else if read_u16 bs 4 \<noteq> INODE_RECORD_VERSION then Inl InvalidData
      else if \<not> all_zero (subslice bs 28 32) then Inl InvalidData
      else
        (let total_len = unat (read_u32 bs 8); block_count = unat (read_u32 bs 20) in
         bindR (ok_or InvalidData (usize_mul block_count 8)) (\<lambda>payload_len.
         bindR (ok_or InvalidData (usize_add INODE_RECORD_HEADER_LEN payload_len)) (\<lambda>expected_len.
           if total_len \<noteq> expected_len then Inl InvalidData
           else if length bs < total_len then Inl UnexpectedEof
           else if length bs \<noteq> total_len then Inl InvalidData
           else if read_u32 bs 24 \<noteq> inode_record_crc bs then Inl InvalidData
           else
             (let id = read_u64 bs 12 in
              if id = 0 then Inl InvalidData
              else
                bindR (let code = read_u16 bs 6 in
                       if code = KIND_FILE then Inr File
                       else if code = KIND_DIRECTORY then Inr Directory
                       else Inl InvalidData) (\<lambda>kind.
                  let blocks = map (\<lambda>index. read_u64 bs (INODE_RECORD_HEADER_LEN + index * 8))
                        [0..<block_count] in
                  if has_duplicates blocks then Inl InvalidData
                  else Inr \<lparr>pi_id = id, pi_kind = kind, pi_blocks = blocks\<rparr>))))))"

section \<open>Block lists as bytes\<close>

lemma has_duplicates_iff [simp]: "has_duplicates blocks \<longleftrightarrow> \<not> distinct blocks"
proof -
  have "sorted xs \<Longrightarrow> list_ex (\<lambda>(a, b). a = b) (zip xs (tl xs)) \<longleftrightarrow> \<not> distinct xs" for xs :: "u64 list"
  proof (induction xs)
    case (Cons x xs)
    show ?case
    proof (cases xs)
      case (Cons y ys)
      have "x \<in> set xs \<longleftrightarrow> x = y"
        using Cons.prems Cons by auto
      then show ?thesis using Cons.IH Cons.prems Cons by auto
    qed simp
  qed simp
  from this [of "sort blocks"] show ?thesis by (simp add: has_duplicates_def)
qed

lemma read_words:
  "map (\<lambda>i. read_u64 (pre @ concat (map to_le_bytes ws)) (length pre + i * 8)) [0..<length ws] = ws"
proof (induction ws arbitrary: pre)
  case (Cons w ws)
  have "read_u64 (pre @ concat (map to_le_bytes (w # ws))) (length pre) = w"
    by (subst read_u64_eq_iff) (simp_all add: slice_simps)
  moreover have "map (\<lambda>i. read_u64 (pre @ concat (map to_le_bytes (w # ws))) (length pre + Suc i * 8))
      [0..<length ws] = ws"
    using Cons.IH [of "pre @ to_le_bytes w"] by (simp add: add.assoc)
  ultimately show ?case
    by (simp add: upt_conv_Cons map_Suc_upt [symmetric] comp_def del: upt_Suc)
qed simp

lemma words_exist:
  "length bs = 8 * n \<Longrightarrow> \<exists>ws :: u64 list. length ws = n \<and> bs = concat (map to_le_bytes ws)"
proof (induction n arbitrary: bs)
  case (Suc n)
  have "length (drop 8 bs) = 8 * n" using Suc.prems by simp
  then obtain ws :: "u64 list" where "length ws = n" "drop 8 bs = concat (map to_le_bytes ws)"
    using Suc.IH by blast
  moreover have "to_le_bytes (from_le_bytes (take 8 bs) :: u64) = take 8 bs"
    using Suc.prems by (intro to_from_le_bytes) simp
  ultimately show ?case
    by (intro exI [of _ "from_le_bytes (take 8 bs) # ws"]) (simp, metis append_take_drop_id)
qed simp

lemma length_concat_words [simp]: "length (concat (map to_le_bytes (ws :: u64 list))) = 8 * length ws"
  by (induction ws) simp_all

lemma copy_block_fields:
  "length hdr = 32 + k * 8 \<Longrightarrow>
   copy_fields (hdr @ replicate (8 * length ws) 0)
     (map (\<lambda>(index, b). (32 + index * 8, to_le_bytes b)) (enumerate k ws)) =
   hdr @ concat (map to_le_bytes (ws :: u64 list))"
proof (induction ws arbitrary: k hdr)
  case (Cons w ws)
  have "copy_slice (hdr @ replicate (8 * length (w # ws)) 0) (32 + k * 8) (to_le_bytes w) =
      (hdr @ to_le_bytes w) @ replicate (8 * length ws) 0"
    using Cons.prems by (simp add: copy_slice_def)
  then show ?case
    using Cons.IH [of "hdr @ to_le_bytes w" "Suc k"] Cons.prems by (simp add: copy_fields_def)
qed (simp add: copy_fields_def)

section \<open>One record\<close>

definition inode_ok :: "persisted_inode \<Rightarrow> bool" where
  "inode_ok inode \<longleftrightarrow>
     pi_id inode \<noteq> 0 \<and> distinct (pi_blocks inode) \<and> 32 + 8 * length (pi_blocks inode) < 2 ^ 32"

definition inode_record_with :: "u32 \<Rightarrow> persisted_inode \<Rightarrow> bytes" where
  "inode_record_with c inode =
     INODE_RECORD_MAGIC @ to_le_bytes INODE_RECORD_VERSION @ to_le_bytes (kind_code (pi_kind inode)) @
     to_le_bytes (word_of_nat (32 + 8 * length (pi_blocks inode)) :: u32) @ to_le_bytes (pi_id inode) @
     to_le_bytes (word_of_nat (length (pi_blocks inode)) :: u32) @ to_le_bytes c @ replicate 4 0 @
     concat (map to_le_bytes (pi_blocks inode))"

definition inode_record :: "persisted_inode \<Rightarrow> bytes" where
  "inode_record inode = inode_record_with (crc32 (inode_record_with 0 inode)) inode"

lemma length_INODE_RECORD_MAGIC [simp]: "length INODE_RECORD_MAGIC = 4"
  by (simp add: INODE_RECORD_MAGIC_def)

lemma length_inode_record_with:
  "length (inode_record_with c inode) = 32 + 8 * length (pi_blocks inode)"
  by (simp add: inode_record_with_def)

lemma length_inode_record: "length (inode_record inode) = 32 + 8 * length (pi_blocks inode)"
  by (simp add: inode_record_def length_inode_record_with)

lemma inode_record_with_fields:
  "subslice (inode_record_with c inode) 0 4 = INODE_RECORD_MAGIC"
  "subslice (inode_record_with c inode) 4 6 = to_le_bytes INODE_RECORD_VERSION"
  "subslice (inode_record_with c inode) 6 8 = to_le_bytes (kind_code (pi_kind inode))"
  "subslice (inode_record_with c inode) 8 12 =
     to_le_bytes (word_of_nat (32 + 8 * length (pi_blocks inode)) :: u32)"
  "subslice (inode_record_with c inode) 12 20 = to_le_bytes (pi_id inode)"
  "subslice (inode_record_with c inode) 20 24 =
     to_le_bytes (word_of_nat (length (pi_blocks inode)) :: u32)"
  "subslice (inode_record_with c inode) 24 28 = to_le_bytes c"
  "subslice (inode_record_with c inode) 28 32 = replicate 4 0"
  "drop 32 (inode_record_with c inode) = concat (map to_le_bytes (pi_blocks inode))"
  by (simp_all add: inode_record_with_def slice_simps del: of_nat_add)

lemma inode_record_with_checksum:
  "copy_slice (inode_record_with c inode) 24 (to_le_bytes c') = inode_record_with c' inode"
  by (simp add: inode_record_with_def copy_slice_def del: of_nat_add)

lemma inode_record_crc_with: "inode_record_crc (inode_record_with c inode) = crc32 (inode_record_with 0 inode)"
  using inode_record_with_checksum [of c inode 0]
  by (simp add: inode_record_crc_def crc32_skip_eq length_inode_record_with)

lemma encode_inode_iff: "encode_inode inode = Inr r \<longleftrightarrow> inode_ok inode \<and> r = inode_record inode"
proof (cases "inode_ok inode")
  case False
  then show ?thesis
    by (auto simp: encode_inode_def inode_ok_def bindR_Inr_iff usize_add_Some_iff usize_mul_Some_iff
        word_try_from_Some_iff INODE_RECORD_HEADER_LEN_def split: if_splits)
next
  case True
  let ?n = "length (pi_blocks inode)" and ?b = "concat (map to_le_bytes (pi_blocks inode))"
  let ?hdr = "take 32 (inode_record_with 0 inode)"
  have hdr: "inode_record_with 0 inode = ?hdr @ ?b" "length ?hdr = 32"
    using inode_record_with_fields(9) [of 0 inode] append_take_drop_id [of 32 "inode_record_with 0 inode"]
    by (simp_all add: length_inode_record_with)
  have "copy_fields (replicate (32 + 8 * ?n) 0)
      [(0, INODE_RECORD_MAGIC), (4, to_le_bytes INODE_RECORD_VERSION),
       (6, to_le_bytes (kind_code (pi_kind inode))),
       (8, to_le_bytes (word_of_nat (32 + 8 * ?n) :: u32)),
       (12, to_le_bytes (pi_id inode)), (20, to_le_bytes (word_of_nat ?n :: u32))] =
      ?hdr @ replicate (8 * ?n) 0"
    using replicate_add [of 4 4 "0 :: u8"] replicate_add [of 8 "8 * ?n" "0 :: u8"]
    by (simp add: copy_fields_lay inode_record_with_def del: of_nat_add)
  then have raw: "copy_fields (copy_fields (replicate (32 + 8 * ?n) 0)
      [(0, INODE_RECORD_MAGIC), (4, to_le_bytes INODE_RECORD_VERSION),
       (6, to_le_bytes (kind_code (pi_kind inode))),
       (8, to_le_bytes (word_of_nat (32 + 8 * ?n) :: u32)),
       (12, to_le_bytes (pi_id inode)), (20, to_le_bytes (word_of_nat ?n :: u32))])
      (map (\<lambda>(index, b). (32 + index * 8, to_le_bytes b)) (enumerate 0 (pi_blocks inode))) =
      inode_record_with 0 inode"
    using copy_block_fields [of ?hdr 0 "pi_blocks inode"] hdr by simp
  have sizes: "word_try_from ?n = Some (word_of_nat ?n :: u32)" "usize_mul ?n 8 = Some (8 * ?n)"
    "usize_add 32 (8 * ?n) = Some (32 + 8 * ?n)"
    "word_try_from (32 + 8 * ?n) = Some (word_of_nat (32 + 8 * ?n) :: u32)"
    using True by (simp_all add: inode_ok_def word_try_from_def usize_mul_def usize_add_def)
  have "encode_inode inode = Inr (inode_record inode)"
    using True unfolding encode_inode_def INODE_RECORD_HEADER_LEN_def inode_ok_def sizes ok_or_simps bindR.simps raw Let_def
    by (simp add: inode_record_crc_with inode_record_with_checksum inode_record_def)
  then show ?thesis using True by auto
qed

lemma decode_inode_record:
  assumes "inode_ok inode"
  shows "decode_inode (inode_record inode) = Inr inode"
proof -
  let ?c = "crc32 (inode_record_with 0 inode)" and ?n = "length (pi_blocks inode)"
  let ?r = "inode_record inode"
  have r: "?r = inode_record_with ?c inode" by (simp add: inode_record_def)
  note f = inode_record_with_fields [of ?c inode, folded r]
  have u: "unat (word_of_nat ?n :: u32) = ?n"
    "unat (word_of_nat (32 + 8 * ?n) :: u32) = 32 + 8 * ?n"
    using assms by (simp_all add: inode_ok_def unat_of_nat del: of_nat_add)
  have reads: "read_u16 ?r 4 = INODE_RECORD_VERSION" "read_u16 ?r 6 = kind_code (pi_kind inode)"
    "read_u32 ?r 8 = word_of_nat (32 + 8 * ?n)" "read_u64 ?r 12 = pi_id inode"
    "read_u32 ?r 20 = word_of_nat ?n" "read_u32 ?r 24 = ?c"
    by (simp_all add: read_eq_iffs f length_inode_record del: of_nat_add)
  have "?r = take 32 ?r @ concat (map to_le_bytes (pi_blocks inode))"
    using f(9) append_take_drop_id [of 32 ?r] by simp
  then have blocks: "map (\<lambda>i. read_u64 ?r (32 + i * 8)) [0..<?n] = pi_blocks inode"
    using read_words [of "take 32 ?r" "pi_blocks inode"] by (simp add: length_inode_record)
  have crc: "inode_record_crc ?r = ?c" unfolding r by (rule inode_record_crc_with)
  have "usize_mul ?n 8 = Some (8 * ?n)" "usize_add 32 (8 * ?n) = Some (32 + 8 * ?n)"
    using assms by (simp_all add: inode_ok_def usize_mul_def usize_add_def)
  then show ?thesis
    using assms unfolding decode_inode_def INODE_RECORD_HEADER_LEN_def Let_def reads u f(1) crc blocks
    by (cases "pi_kind inode") (simp_all add: length_inode_record f(8) inode_ok_def KIND_FILE_def KIND_DIRECTORY_def)
qed

lemma decode_inode_canonical:
  assumes "decode_inode r = Inr inode"
  shows "inode_ok inode \<and> r = inode_record inode"
proof -
  let ?n = "unat (read_u32 r 20)"
  have hdr: "subslice r 0 4 = INODE_RECORD_MAGIC" "read_u16 r 4 = INODE_RECORD_VERSION"
    "all_zero (subslice r 28 32)" and len: "length r = 32 + 8 * ?n" "unat (read_u32 r 8) = 32 + 8 * ?n"
    and crc: "read_u32 r 24 = inode_record_crc r" and id: "pi_id inode = read_u64 r 12" "pi_id inode \<noteq> 0"
    and kind: "read_u16 r 6 = kind_code (pi_kind inode)"
    and blocks: "pi_blocks inode = map (\<lambda>i. read_u64 r (32 + i * 8)) [0..<?n]" "distinct (pi_blocks inode)"
    using assms unfolding decode_inode_def INODE_RECORD_HEADER_LEN_def Let_def
    by (auto simp: bindR_Inr_iff usize_add_Some_iff usize_mul_Some_iff split: if_splits)
  obtain ws :: "u64 list" where ws: "length ws = ?n" "drop 32 r = concat (map to_le_bytes ws)"
    using words_exist [of "drop 32 r" ?n] len by auto
  have "r = take 32 r @ concat (map to_le_bytes ws)" using ws(2) append_take_drop_id [of 32 r] by simp
  then have "pi_blocks inode = ws"
    using read_words [of "take 32 r" ws] blocks(1) ws(1) len by simp
  then have payload: "drop 32 r = concat (map to_le_bytes (pi_blocks inode))"
    and n: "length (pi_blocks inode) = ?n" using ws by simp_all
  have sizes: "word_of_nat (32 + 8 * length (pi_blocks inode)) = read_u32 r 8"
    "word_of_nat (length (pi_blocks inode)) = read_u32 r 20"
    unfolding n len(2) [symmetric] by simp_all
  have r: "r = inode_record_with (read_u32 r 24) inode"
    by (rule same_fields_eq [where js = "[4, 6, 8, 12, 20, 24, 28, 32]"])
      (use hdr len(1) id(1) kind payload in
        \<open>simp add: inode_record_with_fields [unfolded sizes] slice_reads all_zero_iff sizes del: of_nat_add\<close>)
  have "inode_ok inode"
    using id blocks(2) n len(2) unat_lt_32 [of "read_u32 r 8"] by (simp add: inode_ok_def)
  moreover have "read_u32 r 24 = crc32 (inode_record_with 0 inode)"
    using crc inode_record_crc_with [of "read_u32 r 24" inode] r by simp
  ultimately show ?thesis using r by (simp add: inode_record_def)
qed

lemma decode_inode_iff: "decode_inode r = Inr inode \<longleftrightarrow> inode_ok inode \<and> r = inode_record inode"
  using decode_inode_record decode_inode_canonical by blast

end
