(* ===== verification/FS_Inode_Table.thy ===== *)
theory FS_Inode_Table
  imports FS_Inode_Codec
begin

text \<open>
  The durable inode table, \<^verbatim>\<open>src/inode_table.rs\<close>: a checksummed image of inode records in the
  inode region of the device. Loading and storing are shown to be exact inverses on the
  contents of the region, for every device that meets the block device contract.
\<close>

section \<open>The table\<close>

definition INODE_TABLE_MAGIC :: bytes where
  "INODE_TABLE_MAGIC = [70, 83, 76, 73, 78, 79, 68, 0]"

definition inode_region_len :: "superblock \<Rightarrow> nat res" where
  "inode_region_len sb = ok_or InvalidInput (usize_mul (unat (inode_blocks sb)) BLOCK_SIZE)"

definition inode_validate_geometry :: "'d block_device \<Rightarrow> superblock \<Rightarrow> 'd \<Rightarrow> unit res" where
  "inode_validate_geometry D sb d =
     (if block_count D d \<noteq> total_blocks sb then Inl InvalidInput
      else if inode_blocks sb = 0 \<or> snd (inode_range sb) > total_blocks sb then Inl InvalidInput
      else Inr ())"

definition inode_encode_image :: "superblock \<Rightarrow> persisted_inode list \<Rightarrow> bytes res" where
  "inode_encode_image sb inodes =
     encode_table INODE_TABLE_MAGIC encode_inode pi_id (inode_region_len sb) inodes"

function inode_table_scan ::
  "bytes \<Rightarrow> nat \<Rightarrow> persisted_inode list \<Rightarrow> u64 set \<Rightarrow> persisted_inode list res" where
  "inode_table_scan payload offset inodes seen =
     (if offset < length payload
      then (case table_step INODE_RECORD_HEADER_LEN decode_inode payload offset of
              Inl e \<Rightarrow> Inl e
            | Inr (inode, end) \<Rightarrow>
                if pi_id inode \<in> seen then Inl InvalidData
                else inode_table_scan payload end (inodes @ [inode]) (insert (pi_id inode) seen))
      else Inr inodes)"
  by pat_completeness auto
termination
  by (relation "measure (\<lambda>(payload, offset, _). length payload - offset)")
    (auto dest!: table_step_progress [rotated] simp: INODE_RECORD_HEADER_LEN_def)

declare inode_table_scan.simps [simp del]

definition inode_decode_image :: "bytes \<Rightarrow> persisted_inode list res" where
  "inode_decode_image img = decode_table INODE_TABLE_MAGIC inode_table_scan img"

definition inode_read_region :: "'d block_device \<Rightarrow> superblock \<Rightarrow> ('d, bytes) io" where
  "inode_read_region D sb =
     region_read D InvalidData (range_blocks (inode_range sb)) (inode_region_len sb)"

definition inode_write_region :: "'d block_device \<Rightarrow> superblock \<Rightarrow> bytes \<Rightarrow> ('d, unit) io" where
  "inode_write_region D sb img =
     region_write D (range_blocks (inode_range sb)) (inode_region_len sb) img"

definition load_inode_table :: "'d block_device \<Rightarrow> superblock \<Rightarrow> ('d, persisted_inode list) io" where
  "load_inode_table D sb =
     io_bind (io_look (inode_validate_geometry D sb)) (\<lambda>_.
     io_bind (inode_read_region D sb) (\<lambda>img. io_lift (inode_decode_image img)))"

definition store_inode_table ::
  "'d block_device \<Rightarrow> superblock \<Rightarrow> persisted_inode list \<Rightarrow> ('d, unit) io" where
  "store_inode_table D sb inodes =
     io_bind (io_look (inode_validate_geometry D sb)) (\<lambda>_.
     io_bind (io_lift (inode_encode_image sb inodes)) (\<lambda>img.
     io_bind (inode_write_region D sb img) (\<lambda>_. flush D)))"

definition initialize_inode_table_region :: "'d block_device \<Rightarrow> superblock \<Rightarrow> ('d, unit) io" where
  "initialize_inode_table_region D sb =
     io_bind (io_look (inode_validate_geometry D sb)) (\<lambda>_.
     io_bind (io_lift (inode_encode_image sb [])) (\<lambda>img. inode_write_region D sb img))"

section \<open>The image\<close>

interpretation irec: record_table INODE_RECORD_HEADER_LEN INODE_TABLE_MAGIC inode_record inode_ok
  encode_inode decode_inode pi_id inode_table_scan
proof
  fix payload offset acc seen
  show "inode_table_scan payload offset acc seen =
      (if offset < length payload
       then bindR (table_step INODE_RECORD_HEADER_LEN decode_inode payload offset) (\<lambda>(x, e).
         if pi_id x \<in> seen then Inl InvalidData
         else inode_table_scan payload e (acc @ [x]) (insert (pi_id x) seen))
       else Inr acc)"
    by (subst inode_table_scan.simps) (auto split: sum.splits)
next
  fix x assume ok: "inode_ok x"
  have "read_u32 (inode_record x) 8 = word_of_nat (length (inode_record x))"
    by (subst read_u32_eq_iff)
      (simp_all add: length_inode_record inode_record_def inode_record_with_fields length_inode_record_with del: of_nat_add)
  then show "INODE_RECORD_HEADER_LEN \<le> length (inode_record x) \<and> length (inode_record x) < 2 ^ 32 \<and>
      read_u32 (inode_record x) 8 = word_of_nat (length (inode_record x))"
    using ok by (simp add: length_inode_record inode_ok_def  INODE_RECORD_HEADER_LEN_def)
qed (simp_all add: INODE_TABLE_MAGIC_def INODE_RECORD_HEADER_LEN_def encode_inode_iff decode_inode_iff)

lemma inode_region_len_eq:
  assumes "sb_ok sb"
  shows "inode_region_len sb = Inr (length (inode_region sb) * 4096)"
    "length (inode_region sb) * 4096 < 2 ^ 64"
  using region_bytes_bound(3) [OF assms] region_lengths(3) [OF sb_ok_layout [OF assms]]
  by (simp_all add: inode_region_len_def usize_mul_def)

interpretation itab: meta_region inode_region inode_region_len "\<lambda>_. True" inode_encode_image
  "\<lambda>_. inode_decode_image"
proof
  fix sb b assume "sb_layout sb" "b \<in> set (inode_region sb)"
  then show "home_block sb b" by (rule region_home(2))
next
  fix sb x img assume ok: "sb_ok sb" and enc: "inode_encode_image sb x = Inr img"
  show "length img = length (inode_region sb) * 4096"
    by (rule irec.encode_table_length [OF inode_region_len_eq(2) [OF ok]])
      (use enc in \<open>simp add: inode_encode_image_def inode_region_len_eq(1) [OF ok]\<close>)
next
  fix sb and img :: bytes and x assume ok: "sb_ok sb" and len: "length img = length (inode_region sb) * 4096"
  then show "inode_decode_image img = Inr x \<longleftrightarrow> True \<and> inode_encode_image sb x = Inr img"
    using irec.table_codec_exact [of img x] inode_region_len_eq [OF ok]
    by (simp add: inode_decode_image_def inode_encode_image_def)
qed (use distinct_range_blocks inode_region_len_eq in blast)+

text \<open>The table that the contents of a device hold.\<close>

definition inodes_of :: "superblock \<Rightarrow> (u64 \<Rightarrow> bytes) \<Rightarrow> persisted_inode list res" where
  "inodes_of sb v = inode_decode_image (region_bytes v (inode_region sb))"

lemma inodes_of_cong: "(\<And>b. b \<in> set (inode_region sb) \<Longrightarrow> v b = v' b) \<Longrightarrow> inodes_of sb v = inodes_of sb v'"
  unfolding inodes_of_def by (simp add: region_bytes_cong [of _ v v'])

lemma inodes_of_stored:
  "sb_ok sb \<Longrightarrow> inode_encode_image sb xs = Inr img \<Longrightarrow>
   inodes_of sb (apply_writes (region_writes (inode_region sb) img) v id) = Inr xs"
  unfolding inodes_of_def by (rule itab.stored_contents) simp_all

definition inode_fits :: "superblock \<Rightarrow> persisted_inode list \<Rightarrow> bool" where
  "inode_fits sb xs \<longleftrightarrow>
     list_all inode_ok xs \<and> distinct (map pi_id xs) \<and> length xs < 2 ^ 32 \<and>
     32 + length (concat (map inode_record xs)) \<le> unat (inode_blocks sb) * 4096"

lemma inode_encode_fits:
  assumes "sb_ok sb"
  shows "is_ok (inode_encode_image sb xs) \<longleftrightarrow> inode_fits sb xs"
  using irec.encode_table_iff [OF inode_region_len_eq(2) [OF assms], of xs]
    region_lengths(3) [OF sb_ok_layout [OF assms]]
  by (auto simp: is_ok_iff inode_encode_image_def inode_region_len_eq(1) [OF assms] inode_fits_def
      irec.stream_def)

section \<open>On a device\<close>

lemma inode_geometry_ok:
  assumes "sb_ok sb" and "block_count D d = total_blocks sb"
  shows "inode_validate_geometry D sb d = Inr ()"
  using assms sb_layout_unat [OF sb_ok_layout [OF assms(1)]] sb_ok_layout [OF assms(1)]
  by (auto simp: inode_validate_geometry_def inode_range_def sb_layout_def reserved_blocks_def
      word_less_nat_alt)

context block_dev
begin

lemma load_inode_wp:
  assumes "sb_ok sb" and "at (total_blocks sb) v u d"
  shows "wp (load_inode_table D sb)
    (\<lambda>xs d'. at (total_blocks sb) v u d' \<and> inodes_of sb v = Inr xs)
    (\<lambda>e d'. at (total_blocks sb) v u d' \<and> inodes_of sb v = Inl e) d"
  unfolding load_inode_table_def inode_read_region_def inodes_of_def
  by (rule load_region_wp [OF assms(2) inode_geometry_ok])
    (use assms inode_region_len_eq [OF assms(1)] itab.blocks_in_device [OF assms(1)] in
      \<open>simp_all add: dev_at_def\<close>)

lemma store_inode_wp:
  assumes "sb_ok sb" and "at (total_blocks sb) v u d"
  shows "wp (store_inode_table D sb xs)
    (\<lambda>_ d'. \<exists>img. inode_encode_image sb xs = Inr img \<and>
       at (total_blocks sb) (apply_writes (region_writes (inode_region sb) img) v id)
         (if syncs then apply_writes (region_writes (inode_region sb) img) v id else u) d')
    (\<lambda>e d'. inode_encode_image sb xs = Inl e \<and> at (total_blocks sb) v u d' \<or>
       faulty \<and> (\<exists>img k. inode_encode_image sb xs = Inr img \<and>
         at (total_blocks sb) (apply_writes (take k (region_writes (inode_region sb) img)) v id) u d')) d"
  unfolding store_inode_table_def inode_write_region_def
  by (rule store_region_wp [OF assms(2) inode_geometry_ok])
    (use assms inode_region_len_eq [OF assms(1)] itab.blocks_in_device [OF assms(1)]
      itab.enc_length [OF assms(1)] in \<open>simp_all add: dev_at_def\<close>)

end

interpretation ifile: file_table inode_region inode_region_len "\<lambda>_. True" inode_encode_image
  "\<lambda>_. inode_decode_image" "load_inode_table file_device" "store_inode_table file_device"
proof
  fix sb v u d assume "sb_ok sb" "file_dev.at (total_blocks sb) v u d"
  from file_dev.load_inode_wp [OF this]
  show "wp (load_inode_table file_device sb)
      (\<lambda>x d'. file_dev.at (total_blocks sb) v u d' \<and>
        inode_decode_image (region_bytes v (inode_region sb)) = Inr x)
      (\<lambda>e d'. file_dev.at (total_blocks sb) v u d' \<and>
        inode_decode_image (region_bytes v (inode_region sb)) = Inl e) d"
    by (simp add: inodes_of_def)
qed (use file_dev.store_inode_wp in \<open>simp\<close>)

section \<open>Properties\<close>

text \<open>C22. Inode table round trip. On a file-backed device of the right size, storing a table
  succeeds exactly when every inode is well formed, no two share an identifier and
  the image fits its reservation; then loading returns exactly the stored table, every block
  outside the inode region keeps its contents and the result is durable. Conversely, whatever table a region loads as, storing that table leaves
  the region byte for byte as it was.\<close>

theorem inode_table_roundtrip:
  assumes "sb_ok sb" and "fbd_inv dev" and "fbd_blocks dev = total_blocks sb"
    and "store_inode_table file_device sb xs dev = (r, dev')"
  shows "(is_ok r \<longleftrightarrow> inode_fits sb xs) \<and>
    (is_ok r \<longrightarrow> fst (load_inode_table file_device sb dev') = Inr xs \<and> fbd_durable dev' = fbd_view dev') \<and>
    (\<forall>b. b \<notin> set (inode_region sb) \<longrightarrow> fbd_view dev' b = fbd_view dev b) \<and>
    (fst (load_inode_table file_device sb dev) = Inr xs \<longrightarrow> is_ok r \<and> fbd_view dev' = fbd_view dev)"
  using ifile.store_roundtrip [OF assms(1) TrueI assms(2-4)] inode_encode_fits [OF assms(1), of xs] by blast

theorem inode_table_roundtrip_witness:
  "\<exists>dev'. store_inode_table file_device demo_superblock [\<lparr>pi_id = 1, pi_kind = File, pi_blocks = [12, 13]\<rparr>] (blank_device 16) = (Inr (), dev') \<and>
     fst (load_inode_table file_device demo_superblock dev') = Inr [\<lparr>pi_id = 1, pi_kind = File, pi_blocks = [12, 13]\<rparr>]"
proof -
  obtain r dev' where st: "store_inode_table file_device demo_superblock [\<lparr>pi_id = 1, pi_kind = File, pi_blocks = [12, 13]\<rparr>] (blank_device 16) = (r, dev')"
    by (cases "store_inode_table file_device demo_superblock [\<lparr>pi_id = 1, pi_kind = File, pi_blocks = [12, 13]\<rparr>] (blank_device 16)")
  have "inode_fits demo_superblock [\<lparr>pi_id = 1, pi_kind = File, pi_blocks = [12, 13]\<rparr>]"
    by (simp add: inode_fits_def demo_superblock_def length_inode_record inode_ok_def )
  moreover have "fbd_inv (blank_device 16)" "fbd_blocks (blank_device 16) = total_blocks demo_superblock"
    using blank_device_inv [of 16] by (simp_all add: blank_device_def demo_superblock_def)
  ultimately show ?thesis
    using inode_table_roundtrip [OF demo_superblock_ok _ _ st] st by (auto simp: is_ok_iff)
qed

end
