(* ===== verification/FS_Directory_Codec.thy ===== *)
theory FS_Directory_Codec
  imports FS_Table
begin

text \<open>
  Persisted directory entries, \<^verbatim>\<open>src/directory_codec.rs\<close>. A Rust
  \<^verbatim>\<open>String\<close> is a byte string that is valid UTF-8, as a type of its own; one record
  is a 40-byte header followed by the name. Encoding and decoding are shown to be exact
  inverses.
\<close>

section \<open>UTF-8 strings\<close>

definition utf8_cont :: "u8 \<Rightarrow> bool" where
  "utf8_cont b \<longleftrightarrow> 0x80 \<le> b \<and> b \<le> 0xBF"

text \<open>Well-formed byte sequences, as \<^verbatim>\<open>str::from_utf8\<close> accepts them: no overlong
  forms, no surrogates, nothing above \<open>10FFFF\<close>.\<close>

fun valid_utf8 :: "bytes \<Rightarrow> bool" where
  "valid_utf8 [] = True"
| "valid_utf8 (b # bs) =
     (if b < 0x80 then valid_utf8 bs
      else if 0xC2 \<le> b \<and> b \<le> 0xDF then
        (case bs of c # r \<Rightarrow> utf8_cont c \<and> valid_utf8 r | _ \<Rightarrow> False)
      else if 0xE0 \<le> b \<and> b \<le> 0xEF then
        (case bs of c # d # r \<Rightarrow>
           (if b = 0xE0 then 0xA0 \<le> c \<and> c \<le> 0xBF
            else if b = 0xED then 0x80 \<le> c \<and> c \<le> 0x9F else utf8_cont c) \<and>
           utf8_cont d \<and> valid_utf8 r
         | _ \<Rightarrow> False)
      else if 0xF0 \<le> b \<and> b \<le> 0xF4 then
        (case bs of c # d # e # r \<Rightarrow>
           (if b = 0xF0 then 0x90 \<le> c \<and> c \<le> 0xBF
            else if b = 0xF4 then 0x80 \<le> c \<and> c \<le> 0x8F else utf8_cont c) \<and>
           utf8_cont d \<and> utf8_cont e \<and> valid_utf8 r
         | _ \<Rightarrow> False)
      else False)"

typedef rust_string = "{bs :: bytes. valid_utf8 bs}"
  morphisms as_bytes string_of_bytes
  by (rule exI [of _ "[]"]) simp

lemma as_bytes_valid [simp]: "valid_utf8 (as_bytes s)"
  using as_bytes [of s] by simp

lemma as_bytes_of_bytes [simp]: "valid_utf8 bs \<Longrightarrow> as_bytes (string_of_bytes bs) = bs"
  by (rule string_of_bytes_inverse) simp

lemma of_bytes_as_bytes [simp]: "string_of_bytes (as_bytes s) = s"
  by (rule as_bytes_inverse)

lemma as_bytes_eq_iff: "as_bytes s = as_bytes t \<longleftrightarrow> s = t"
  by (rule as_bytes_inject)

instantiation rust_string :: equal
begin

definition equal_rust_string :: "rust_string \<Rightarrow> rust_string \<Rightarrow> bool" where
  "equal_rust_string s t \<longleftrightarrow> as_bytes s = as_bytes t"

instance
  by standard (simp add: equal_rust_string_def as_bytes_eq_iff)

end

definition from_utf8 :: "bytes \<Rightarrow> rust_string option" where
  "from_utf8 bs = (if valid_utf8 bs then Some (string_of_bytes bs) else None)"

lemma from_utf8_Some_iff: "from_utf8 bs = Some s \<longleftrightarrow> as_bytes s = bs"
  by (auto simp: from_utf8_def)

section \<open>The codec\<close>

record persisted_directory_entry =
  pd_parent :: u64
  pd_target :: u64
  pd_name :: rust_string

definition DIRECTORY_ENTRY_MAGIC :: bytes where
  "DIRECTORY_ENTRY_MAGIC = [68, 78, 84, 49]"

definition DIRECTORY_ENTRY_VERSION :: u16 where "DIRECTORY_ENTRY_VERSION = 1"

definition DIRECTORY_ENTRY_HEADER_LEN :: nat where "DIRECTORY_ENTRY_HEADER_LEN = 40"

definition DIRECTORY_NAME_MAX_BYTES :: nat where "DIRECTORY_NAME_MAX_BYTES = 255"

text \<open>The bytes of \<open>.\<close>, \<open>/\<close> and NUL are 46, 47 and 0; in UTF-8 they occur only as themselves.\<close>

definition validate_name :: "rust_string \<Rightarrow> io_error \<Rightarrow> unit res" where
  "validate_name name kind =
     (if as_bytes name = [] \<or> as_bytes name = [46] \<or> as_bytes name = [46, 46] \<or>
         47 \<in> set (as_bytes name) \<or> 0 \<in> set (as_bytes name) \<or>
         length (as_bytes name) > DIRECTORY_NAME_MAX_BYTES
      then Inl kind else Inr ())"

definition directory_record_crc :: "bytes \<Rightarrow> u32" where
  "directory_record_crc bs = crc32_skip 32 bs"

definition encode_directory_entry :: "persisted_directory_entry \<Rightarrow> bytes res" where
  "encode_directory_entry entry =
     (if pd_parent entry = 0 \<or> pd_target entry = 0 then Inl InvalidInput
      else
        bindR (validate_name (pd_name entry) InvalidInput) (\<lambda>_.
        bindR (ok_or InvalidInput (word_try_from (length (as_bytes (pd_name entry))))) (\<lambda>name_len :: u16.
        bindR (ok_or InvalidInput
                (usize_add DIRECTORY_ENTRY_HEADER_LEN (length (as_bytes (pd_name entry))))) (\<lambda>total_len.
        bindR (ok_or InvalidInput (word_try_from total_len)) (\<lambda>total_len_u32 :: u32.
          let bs = copy_fields (replicate total_len 0)
                [(0, DIRECTORY_ENTRY_MAGIC), (4, to_le_bytes DIRECTORY_ENTRY_VERSION),
                 (8, to_le_bytes total_len_u32), (12, to_le_bytes name_len),
                 (16, to_le_bytes (pd_parent entry)), (24, to_le_bytes (pd_target entry)),
                 (DIRECTORY_ENTRY_HEADER_LEN, as_bytes (pd_name entry))];
              crc = directory_record_crc bs
          in Inr (copy_slice bs 32 (to_le_bytes crc)))))))"

definition decode_directory_entry :: "bytes \<Rightarrow> persisted_directory_entry res" where
  "decode_directory_entry bs =
     (if length bs < DIRECTORY_ENTRY_HEADER_LEN then Inl UnexpectedEof
      else if subslice bs 0 4 \<noteq> DIRECTORY_ENTRY_MAGIC then Inl InvalidData
      else if read_u16 bs 4 \<noteq> DIRECTORY_ENTRY_VERSION then Inl InvalidData
      else if read_u16 bs 6 \<noteq> 0 \<or> read_u16 bs 14 \<noteq> 0 \<or> read_u32 bs 36 \<noteq> 0 then Inl InvalidData
      else
        (let total_len = unat (read_u32 bs 8); name_len = unat (read_u16 bs 12) in
         bindR (ok_or InvalidData (usize_add DIRECTORY_ENTRY_HEADER_LEN name_len)) (\<lambda>expected_len.
           if total_len \<noteq> expected_len then Inl InvalidData
           else if length bs < total_len then Inl UnexpectedEof
           else if length bs \<noteq> total_len then Inl InvalidData
           else if read_u32 bs 32 \<noteq> directory_record_crc bs then Inl InvalidData
           else
             (let parent = read_u64 bs 16; target = read_u64 bs 24 in
              if parent = 0 \<or> target = 0 then Inl InvalidData
              else
                bindR (ok_or InvalidData (from_utf8 (drop DIRECTORY_ENTRY_HEADER_LEN bs))) (\<lambda>name.
                bindR (validate_name name InvalidData) (\<lambda>_.
                  Inr \<lparr>pd_parent = parent, pd_target = target, pd_name = name\<rparr>))))))"

section \<open>One record\<close>

definition name_ok :: "rust_string \<Rightarrow> bool" where
  "name_ok name \<longleftrightarrow>
     as_bytes name \<notin> {[], [46], [46, 46]} \<and> 47 \<notin> set (as_bytes name) \<and> 0 \<notin> set (as_bytes name) \<and>
     length (as_bytes name) \<le> 255"

lemma validate_name_iff: "validate_name name kind = (if name_ok name then Inr () else Inl kind)"
  by (auto simp: validate_name_def name_ok_def DIRECTORY_NAME_MAX_BYTES_def)

definition dentry_ok :: "persisted_directory_entry \<Rightarrow> bool" where
  "dentry_ok entry \<longleftrightarrow> pd_parent entry \<noteq> 0 \<and> pd_target entry \<noteq> 0 \<and> name_ok (pd_name entry)"

definition dentry_record_with :: "u32 \<Rightarrow> persisted_directory_entry \<Rightarrow> bytes" where
  "dentry_record_with c entry =
     (let name = as_bytes (pd_name entry) in
      DIRECTORY_ENTRY_MAGIC @ to_le_bytes DIRECTORY_ENTRY_VERSION @ replicate 2 0 @
      to_le_bytes (word_of_nat (40 + length name) :: u32) @
      to_le_bytes (word_of_nat (length name) :: u16) @ replicate 2 0 @
      to_le_bytes (pd_parent entry) @ to_le_bytes (pd_target entry) @ to_le_bytes c @
      replicate 4 0 @ name)"

definition dentry_record :: "persisted_directory_entry \<Rightarrow> bytes" where
  "dentry_record entry = dentry_record_with (crc32 (dentry_record_with 0 entry)) entry"

lemma length_DIRECTORY_ENTRY_MAGIC [simp]: "length DIRECTORY_ENTRY_MAGIC = 4"
  by (simp add: DIRECTORY_ENTRY_MAGIC_def)

lemma length_dentry_record_with:
  "length (dentry_record_with c entry) = 40 + length (as_bytes (pd_name entry))"
  by (simp add: dentry_record_with_def Let_def)

lemma length_dentry_record: "length (dentry_record entry) = 40 + length (as_bytes (pd_name entry))"
  by (simp add: dentry_record_def length_dentry_record_with)

lemma dentry_record_with_fields:
  "subslice (dentry_record_with c entry) 0 4 = DIRECTORY_ENTRY_MAGIC"
  "subslice (dentry_record_with c entry) 4 6 = to_le_bytes DIRECTORY_ENTRY_VERSION"
  "subslice (dentry_record_with c entry) 6 8 = replicate 2 0"
  "subslice (dentry_record_with c entry) 8 12 =
     to_le_bytes (word_of_nat (40 + length (as_bytes (pd_name entry))) :: u32)"
  "subslice (dentry_record_with c entry) 12 14 =
     to_le_bytes (word_of_nat (length (as_bytes (pd_name entry))) :: u16)"
  "subslice (dentry_record_with c entry) 14 16 = replicate 2 0"
  "subslice (dentry_record_with c entry) 16 24 = to_le_bytes (pd_parent entry)"
  "subslice (dentry_record_with c entry) 24 32 = to_le_bytes (pd_target entry)"
  "subslice (dentry_record_with c entry) 32 36 = to_le_bytes c"
  "subslice (dentry_record_with c entry) 36 40 = replicate 4 0"
  "drop 40 (dentry_record_with c entry) = as_bytes (pd_name entry)"
  by (simp_all add: dentry_record_with_def Let_def slice_simps del: of_nat_add)

lemma dentry_record_with_checksum:
  "copy_slice (dentry_record_with c entry) 32 (to_le_bytes c') = dentry_record_with c' entry"
  by (simp add: dentry_record_with_def Let_def copy_slice_def del: of_nat_add)

lemma dentry_record_crc_with:
  "directory_record_crc (dentry_record_with c entry) = crc32 (dentry_record_with 0 entry)"
  using dentry_record_with_checksum [of c entry 0]
  by (simp add: directory_record_crc_def crc32_skip_eq length_dentry_record_with)

lemma encode_dentry_iff:
  "encode_directory_entry entry = Inr r \<longleftrightarrow> dentry_ok entry \<and> r = dentry_record entry"
proof (cases "dentry_ok entry")
  case False
  then show ?thesis
    by (auto simp: encode_directory_entry_def dentry_ok_def bindR_Inr_iff validate_name_iff
        split: if_splits)
next
  case True
  let ?name = "as_bytes (pd_name entry)"
  let ?n = "length ?name"
  have raw: "copy_fields (replicate (40 + ?n) 0)
      [(0, DIRECTORY_ENTRY_MAGIC), (4, to_le_bytes DIRECTORY_ENTRY_VERSION),
       (8, to_le_bytes (word_of_nat (40 + ?n) :: u32)), (12, to_le_bytes (word_of_nat ?n :: u16)),
       (16, to_le_bytes (pd_parent entry)), (24, to_le_bytes (pd_target entry)), (40, ?name)] =
      dentry_record_with 0 entry"
    using replicate_add [of 4 4 "0 :: u8"]
    by (simp add: copy_fields_lay dentry_record_with_def Let_def del: of_nat_add)
  have sizes: "word_try_from ?n = Some (word_of_nat ?n :: u16)" "usize_add 40 ?n = Some (40 + ?n)"
    "word_try_from (40 + ?n) = Some (word_of_nat (40 + ?n) :: u32)"
    using True by (simp_all add: dentry_ok_def name_ok_def word_try_from_def usize_add_def)
  have "encode_directory_entry entry = Inr (dentry_record entry)"
    using True unfolding encode_directory_entry_def DIRECTORY_ENTRY_HEADER_LEN_def dentry_ok_def
      sizes ok_or_simps bindR.simps raw Let_def
    by (simp add: validate_name_iff dentry_record_crc_with dentry_record_with_checksum dentry_record_def)
  then show ?thesis using True by auto
qed

lemma decode_dentry_record:
  assumes "dentry_ok entry"
  shows "decode_directory_entry (dentry_record entry) = Inr entry"
proof -
  let ?c = "crc32 (dentry_record_with 0 entry)" and ?n = "length (as_bytes (pd_name entry))"
  let ?r = "dentry_record entry"
  have r: "?r = dentry_record_with ?c entry" by (simp add: dentry_record_def)
  note f = dentry_record_with_fields [of ?c entry, folded r]
  have u: "unat (word_of_nat ?n :: u16) = ?n" "unat (word_of_nat (40 + ?n) :: u32) = 40 + ?n"
    using assms by (simp_all add: dentry_ok_def name_ok_def unat_of_nat del: of_nat_add)
  have reads: "read_u16 ?r 4 = DIRECTORY_ENTRY_VERSION" "read_u16 ?r 6 = 0" "read_u16 ?r 14 = 0"
    "read_u32 ?r 36 = 0" "read_u32 ?r 8 = word_of_nat (40 + ?n)" "read_u16 ?r 12 = word_of_nat ?n"
    "read_u64 ?r 16 = pd_parent entry" "read_u64 ?r 24 = pd_target entry" "read_u32 ?r 32 = ?c"
    by (simp_all add: read_eq_iffs f length_dentry_record del: of_nat_add)
  have crc: "directory_record_crc ?r = ?c" unfolding r by (rule dentry_record_crc_with)
  have name: "from_utf8 (drop 40 ?r) = Some (pd_name entry)" by (simp add: from_utf8_Some_iff f)
  have "usize_add 40 ?n = Some (40 + ?n)"
    using assms by (simp add: dentry_ok_def name_ok_def usize_add_def)
  then show ?thesis
    using assms unfolding decode_directory_entry_def DIRECTORY_ENTRY_HEADER_LEN_def Let_def reads u
      f(1) crc name
    by (simp add: length_dentry_record dentry_ok_def validate_name_iff)
qed

lemma decode_dentry_canonical:
  assumes "decode_directory_entry r = Inr entry"
  shows "dentry_ok entry \<and> r = dentry_record entry"
proof -
  let ?n = "unat (read_u16 r 12)"
  have hdr: "subslice r 0 4 = DIRECTORY_ENTRY_MAGIC" "read_u16 r 4 = DIRECTORY_ENTRY_VERSION"
    "read_u16 r 6 = 0" "read_u16 r 14 = 0" "read_u32 r 36 = 0"
    and len: "length r = 40 + ?n" "unat (read_u32 r 8) = 40 + ?n"
    and crc: "read_u32 r 32 = directory_record_crc r"
    and ids: "pd_parent entry = read_u64 r 16" "pd_target entry = read_u64 r 24"
    and name: "from_utf8 (drop 40 r) = Some (pd_name entry)" and ok: "dentry_ok entry"
    using assms unfolding decode_directory_entry_def DIRECTORY_ENTRY_HEADER_LEN_def Let_def
    by (auto simp: bindR_Inr_iff usize_add_Some_iff validate_name_iff dentry_ok_def split: if_splits)
  have payload: "as_bytes (pd_name entry) = drop 40 r" using name by (simp add: from_utf8_Some_iff)
  then have n: "length (as_bytes (pd_name entry)) = ?n" using len by simp
  have sizes: "word_of_nat (40 + length (as_bytes (pd_name entry))) = read_u32 r 8"
    "word_of_nat (length (as_bytes (pd_name entry))) = read_u16 r 12"
    unfolding n len(2) [symmetric] by simp_all
  have r: "r = dentry_record_with (read_u32 r 32) entry"
    by (rule same_fields_eq [where js = "[4, 6, 8, 12, 14, 16, 24, 32, 36, 40]"])
      (use hdr len(1) ids payload in
        \<open>simp add: dentry_record_with_fields [of _ entry, unfolded sizes] slice_reads\<close>)
  then have "read_u32 r 32 = crc32 (dentry_record_with 0 entry)"
    using crc dentry_record_crc_with [of "read_u32 r 32" entry] by simp
  with r ok show ?thesis by (simp add: dentry_record_def)
qed

lemma decode_dentry_iff:
  "decode_directory_entry r = Inr entry \<longleftrightarrow> dentry_ok entry \<and> r = dentry_record entry"
  using decode_dentry_record decode_dentry_canonical by blast

end
