(* ===== verification/FS_Directory_Table.thy ===== *)
theory FS_Directory_Table
  imports FS_Directory_Codec
begin

text \<open>
  The durable directory table, \<^verbatim>\<open>src/directory_table.rs\<close>: a checksummed image of directory entry records in the
  directory region of the device. Loading and storing are shown to be exact inverses on the
  contents of the region, for every device that meets the block device contract.
\<close>

section \<open>The table\<close>

definition DIRECTORY_TABLE_MAGIC :: bytes where
  "DIRECTORY_TABLE_MAGIC = [70, 83, 76, 68, 73, 82, 0, 0]"

definition dentry_key :: "persisted_directory_entry \<Rightarrow> u64 \<times> rust_string" where
  "dentry_key entry = (pd_parent entry, pd_name entry)"

definition directory_region_len :: "superblock \<Rightarrow> nat res" where
  "directory_region_len sb = ok_or InvalidInput (usize_mul (unat (directory_blocks sb)) BLOCK_SIZE)"

definition directory_validate_geometry :: "'d block_device \<Rightarrow> superblock \<Rightarrow> 'd \<Rightarrow> unit res" where
  "directory_validate_geometry D sb d =
     (if block_count D d \<noteq> total_blocks sb then Inl InvalidInput
      else if directory_blocks sb = 0 \<or> snd (directory_range sb) > total_blocks sb then Inl InvalidInput
      else Inr ())"

definition directory_encode_image :: "superblock \<Rightarrow> persisted_directory_entry list \<Rightarrow> bytes res" where
  "directory_encode_image sb entries =
     encode_table DIRECTORY_TABLE_MAGIC encode_directory_entry dentry_key (directory_region_len sb) entries"

function directory_table_scan ::
  "bytes \<Rightarrow> nat \<Rightarrow> persisted_directory_entry list \<Rightarrow> (u64 \<times> rust_string) set \<Rightarrow> persisted_directory_entry list res" where
  "directory_table_scan payload offset entries seen =
     (if offset < length payload
      then (case table_step DIRECTORY_ENTRY_HEADER_LEN decode_directory_entry payload offset of
              Inl e \<Rightarrow> Inl e
            | Inr (entry, end) \<Rightarrow>
                if dentry_key entry \<in> seen then Inl InvalidData
                else directory_table_scan payload end (entries @ [entry]) (insert (dentry_key entry) seen))
      else Inr entries)"
  by pat_completeness auto
termination
  by (relation "measure (\<lambda>(payload, offset, _). length payload - offset)")
    (auto dest!: table_step_progress [rotated] simp: DIRECTORY_ENTRY_HEADER_LEN_def)

declare directory_table_scan.simps [simp del]

definition directory_decode_image :: "bytes \<Rightarrow> persisted_directory_entry list res" where
  "directory_decode_image img = decode_table DIRECTORY_TABLE_MAGIC directory_table_scan img"

definition directory_read_region :: "'d block_device \<Rightarrow> superblock \<Rightarrow> ('d, bytes) io" where
  "directory_read_region D sb =
     region_read D InvalidData (range_blocks (directory_range sb)) (directory_region_len sb)"

definition directory_write_region :: "'d block_device \<Rightarrow> superblock \<Rightarrow> bytes \<Rightarrow> ('d, unit) io" where
  "directory_write_region D sb img =
     region_write D (range_blocks (directory_range sb)) (directory_region_len sb) img"

definition load_directory_table :: "'d block_device \<Rightarrow> superblock \<Rightarrow> ('d, persisted_directory_entry list) io" where
  "load_directory_table D sb =
     io_bind (io_look (directory_validate_geometry D sb)) (\<lambda>_.
     io_bind (directory_read_region D sb) (\<lambda>img. io_lift (directory_decode_image img)))"

definition store_directory_table ::
  "'d block_device \<Rightarrow> superblock \<Rightarrow> persisted_directory_entry list \<Rightarrow> ('d, unit) io" where
  "store_directory_table D sb entries =
     io_bind (io_look (directory_validate_geometry D sb)) (\<lambda>_.
     io_bind (io_lift (directory_encode_image sb entries)) (\<lambda>img.
     io_bind (directory_write_region D sb img) (\<lambda>_. flush D)))"

definition initialize_directory_table_region :: "'d block_device \<Rightarrow> superblock \<Rightarrow> ('d, unit) io" where
  "initialize_directory_table_region D sb =
     io_bind (io_look (directory_validate_geometry D sb)) (\<lambda>_.
     io_bind (io_lift (directory_encode_image sb [])) (\<lambda>img. directory_write_region D sb img))"

section \<open>The image\<close>

interpretation drec: record_table DIRECTORY_ENTRY_HEADER_LEN DIRECTORY_TABLE_MAGIC dentry_record dentry_ok
  encode_directory_entry decode_directory_entry dentry_key directory_table_scan
proof
  fix payload offset acc seen
  show "directory_table_scan payload offset acc seen =
      (if offset < length payload
       then bindR (table_step DIRECTORY_ENTRY_HEADER_LEN decode_directory_entry payload offset) (\<lambda>(x, e).
         if dentry_key x \<in> seen then Inl InvalidData
         else directory_table_scan payload e (acc @ [x]) (insert (dentry_key x) seen))
       else Inr acc)"
    by (subst directory_table_scan.simps) (auto split: sum.splits)
next
  fix x assume ok: "dentry_ok x"
  have "read_u32 (dentry_record x) 8 = word_of_nat (length (dentry_record x))"
    by (subst read_u32_eq_iff)
      (simp_all add: length_dentry_record dentry_record_def dentry_record_with_fields length_dentry_record_with del: of_nat_add)
  then show "DIRECTORY_ENTRY_HEADER_LEN \<le> length (dentry_record x) \<and> length (dentry_record x) < 2 ^ 32 \<and>
      read_u32 (dentry_record x) 8 = word_of_nat (length (dentry_record x))"
    using ok by (simp add: length_dentry_record dentry_ok_def name_ok_def DIRECTORY_ENTRY_HEADER_LEN_def)
qed (simp_all add: DIRECTORY_TABLE_MAGIC_def DIRECTORY_ENTRY_HEADER_LEN_def encode_dentry_iff decode_dentry_iff)

lemma directory_region_len_eq:
  assumes "sb_ok sb"
  shows "directory_region_len sb = Inr (length (directory_region sb) * 4096)"
    "length (directory_region sb) * 4096 < 2 ^ 64"
  using region_bytes_bound(4) [OF assms] region_lengths(4) [OF sb_ok_layout [OF assms]]
  by (simp_all add: directory_region_len_def usize_mul_def)

interpretation dtab: meta_region directory_region directory_region_len "\<lambda>_. True" directory_encode_image
  "\<lambda>_. directory_decode_image"
proof
  fix sb b assume "sb_layout sb" "b \<in> set (directory_region sb)"
  then show "home_block sb b" by (rule region_home(3))
next
  fix sb x img assume ok: "sb_ok sb" and enc: "directory_encode_image sb x = Inr img"
  show "length img = length (directory_region sb) * 4096"
    by (rule drec.encode_table_length [OF directory_region_len_eq(2) [OF ok]])
      (use enc in \<open>simp add: directory_encode_image_def directory_region_len_eq(1) [OF ok]\<close>)
next
  fix sb and img :: bytes and x assume ok: "sb_ok sb" and len: "length img = length (directory_region sb) * 4096"
  then show "directory_decode_image img = Inr x \<longleftrightarrow> True \<and> directory_encode_image sb x = Inr img"
    using drec.table_codec_exact [of img x] directory_region_len_eq [OF ok]
    by (simp add: directory_decode_image_def directory_encode_image_def)
qed (use distinct_range_blocks directory_region_len_eq in blast)+

text \<open>The table that the contents of a device hold.\<close>

definition entries_of :: "superblock \<Rightarrow> (u64 \<Rightarrow> bytes) \<Rightarrow> persisted_directory_entry list res" where
  "entries_of sb v = directory_decode_image (region_bytes v (directory_region sb))"

lemma entries_of_cong: "(\<And>b. b \<in> set (directory_region sb) \<Longrightarrow> v b = v' b) \<Longrightarrow> entries_of sb v = entries_of sb v'"
  unfolding entries_of_def by (simp add: region_bytes_cong [of _ v v'])

lemma entries_of_stored:
  "sb_ok sb \<Longrightarrow> directory_encode_image sb xs = Inr img \<Longrightarrow>
   entries_of sb (apply_writes (region_writes (directory_region sb) img) v id) = Inr xs"
  unfolding entries_of_def by (rule dtab.stored_contents) simp_all

definition directory_fits :: "superblock \<Rightarrow> persisted_directory_entry list \<Rightarrow> bool" where
  "directory_fits sb xs \<longleftrightarrow>
     list_all dentry_ok xs \<and> distinct (map dentry_key xs) \<and> length xs < 2 ^ 32 \<and>
     32 + length (concat (map dentry_record xs)) \<le> unat (directory_blocks sb) * 4096"

lemma directory_encode_fits:
  assumes "sb_ok sb"
  shows "is_ok (directory_encode_image sb xs) \<longleftrightarrow> directory_fits sb xs"
  using drec.encode_table_iff [OF directory_region_len_eq(2) [OF assms], of xs]
    region_lengths(4) [OF sb_ok_layout [OF assms]]
  by (auto simp: is_ok_iff directory_encode_image_def directory_region_len_eq(1) [OF assms] directory_fits_def
      drec.stream_def)

section \<open>On a device\<close>

lemma directory_geometry_ok:
  assumes "sb_ok sb" and "block_count D d = total_blocks sb"
  shows "directory_validate_geometry D sb d = Inr ()"
  using assms sb_layout_unat [OF sb_ok_layout [OF assms(1)]] sb_ok_layout [OF assms(1)]
  by (auto simp: directory_validate_geometry_def directory_range_def sb_layout_def reserved_blocks_def
      word_less_nat_alt)

context block_dev
begin

lemma load_directory_wp:
  assumes "sb_ok sb" and "at (total_blocks sb) v u d"
  shows "wp (load_directory_table D sb)
    (\<lambda>xs d'. at (total_blocks sb) v u d' \<and> entries_of sb v = Inr xs)
    (\<lambda>e d'. at (total_blocks sb) v u d' \<and> entries_of sb v = Inl e) d"
  unfolding load_directory_table_def directory_read_region_def entries_of_def
  by (rule load_region_wp [OF assms(2) directory_geometry_ok])
    (use assms directory_region_len_eq [OF assms(1)] dtab.blocks_in_device [OF assms(1)] in
      \<open>simp_all add: dev_at_def\<close>)

lemma store_directory_wp:
  assumes "sb_ok sb" and "at (total_blocks sb) v u d"
  shows "wp (store_directory_table D sb xs)
    (\<lambda>_ d'. \<exists>img. directory_encode_image sb xs = Inr img \<and>
       at (total_blocks sb) (apply_writes (region_writes (directory_region sb) img) v id)
         (if syncs then apply_writes (region_writes (directory_region sb) img) v id else u) d')
    (\<lambda>e d'. directory_encode_image sb xs = Inl e \<and> at (total_blocks sb) v u d' \<or>
       faulty \<and> (\<exists>img k. directory_encode_image sb xs = Inr img \<and>
         at (total_blocks sb) (apply_writes (take k (region_writes (directory_region sb) img)) v id) u d')) d"
  unfolding store_directory_table_def directory_write_region_def
  by (rule store_region_wp [OF assms(2) directory_geometry_ok])
    (use assms directory_region_len_eq [OF assms(1)] dtab.blocks_in_device [OF assms(1)]
      dtab.enc_length [OF assms(1)] in \<open>simp_all add: dev_at_def\<close>)

end

interpretation dfile: file_table directory_region directory_region_len "\<lambda>_. True" directory_encode_image
  "\<lambda>_. directory_decode_image" "load_directory_table file_device" "store_directory_table file_device"
proof
  fix sb v u d assume "sb_ok sb" "file_dev.at (total_blocks sb) v u d"
  from file_dev.load_directory_wp [OF this]
  show "wp (load_directory_table file_device sb)
      (\<lambda>x d'. file_dev.at (total_blocks sb) v u d' \<and>
        directory_decode_image (region_bytes v (directory_region sb)) = Inr x)
      (\<lambda>e d'. file_dev.at (total_blocks sb) v u d' \<and>
        directory_decode_image (region_bytes v (directory_region sb)) = Inl e) d"
    by (simp add: entries_of_def)
qed (use file_dev.store_directory_wp in \<open>simp\<close>)

section \<open>Properties\<close>

text \<open>C23. Directory table round trip. On a file-backed device of the right size, storing a table
  succeeds exactly when every entry is well formed, no two share parent and name and
  the image fits its reservation; then loading returns exactly the stored table, every block
  outside the directory region keeps its contents and the result is durable. Conversely, whatever table a region loads as, storing that table leaves
  the region byte for byte as it was.\<close>

theorem directory_table_roundtrip:
  assumes "sb_ok sb" and "fbd_inv dev" and "fbd_blocks dev = total_blocks sb"
    and "store_directory_table file_device sb xs dev = (r, dev')"
  shows "(is_ok r \<longleftrightarrow> directory_fits sb xs) \<and>
    (is_ok r \<longrightarrow> fst (load_directory_table file_device sb dev') = Inr xs \<and> fbd_durable dev' = fbd_view dev') \<and>
    (\<forall>b. b \<notin> set (directory_region sb) \<longrightarrow> fbd_view dev' b = fbd_view dev b) \<and>
    (fst (load_directory_table file_device sb dev) = Inr xs \<longrightarrow> is_ok r \<and> fbd_view dev' = fbd_view dev)"
  using dfile.store_roundtrip [OF assms(1) TrueI assms(2-4)] directory_encode_fits [OF assms(1), of xs] by blast

theorem directory_table_roundtrip_witness:
  "\<exists>dev'. store_directory_table file_device demo_superblock [\<lparr>pd_parent = 1, pd_target = 2, pd_name = string_of_bytes [97]\<rparr>] (blank_device 16) = (Inr (), dev') \<and>
     fst (load_directory_table file_device demo_superblock dev') = Inr [\<lparr>pd_parent = 1, pd_target = 2, pd_name = string_of_bytes [97]\<rparr>]"
proof -
  obtain r dev' where st: "store_directory_table file_device demo_superblock [\<lparr>pd_parent = 1, pd_target = 2, pd_name = string_of_bytes [97]\<rparr>] (blank_device 16) = (r, dev')"
    by (cases "store_directory_table file_device demo_superblock [\<lparr>pd_parent = 1, pd_target = 2, pd_name = string_of_bytes [97]\<rparr>] (blank_device 16)")
  have "directory_fits demo_superblock [\<lparr>pd_parent = 1, pd_target = 2, pd_name = string_of_bytes [97]\<rparr>]"
    by (simp add: directory_fits_def demo_superblock_def length_dentry_record dentry_ok_def name_ok_def)
  moreover have "fbd_inv (blank_device 16)" "fbd_blocks (blank_device 16) = total_blocks demo_superblock"
    using blank_device_inv [of 16] by (simp_all add: blank_device_def demo_superblock_def)
  ultimately show ?thesis
    using directory_table_roundtrip [OF demo_superblock_ok _ _ st] st by (auto simp: is_ok_iff)
qed

end
