(* ===== verification/FS_State.thy ===== *)
theory FS_State
  imports FS_Allocation_Disk FS_Inode_Table FS_Directory_Table
begin

text \<open>
  The file system a device stands for. \<open>mounted sb v fs\<close> reads the contents \<open>v\<close> of a device
  through the superblock, the three table decoders and the data blocks; \<open>implements\<close> is the
  contract of an operation on a device: it acts on the mounted file system as a pure function
  does, all or nothing, also when the device fails in the middle. The rules of this theory
  follow the way the operations are written: tables are loaded, checks are made, and one
  transaction is published at the end.
\<close>

section \<open>The mounted file system\<close>

record fs_state =
  fs_alloc :: block_allocator
  fs_inodes :: "persisted_inode list"
  fs_entries :: "persisted_directory_entry list"
  fs_data :: "u64 \<Rightarrow> bytes"

text \<open>What every loaded file system satisfies by construction.\<close>

definition fs_typed :: "superblock \<Rightarrow> fs_state \<Rightarrow> bool" where
  "fs_typed sb fs \<longleftrightarrow>
     alloc_inv (fs_alloc fs) \<and> alloc_fits sb (fs_alloc fs) \<and> inode_fits sb (fs_inodes fs) \<and>
     directory_fits sb (fs_entries fs) \<and>
     (\<forall>b \<in> set (data_region sb). length (fs_data fs b) = 4096)"

lemma fs_typed_inodes: "fs_typed sb fs \<Longrightarrow> inode_fits sb xs \<Longrightarrow> fs_typed sb (fs\<lparr>fs_inodes := xs\<rparr>)"
  by (simp add: fs_typed_def)

lemma fs_typed_entries: "fs_typed sb fs \<Longrightarrow> directory_fits sb es \<Longrightarrow> fs_typed sb (fs\<lparr>fs_entries := es\<rparr>)"
  by (simp add: fs_typed_def)

lemma fs_typed_alloc: "fs_typed sb fs \<Longrightarrow> alloc_inv a \<Longrightarrow> alloc_fits sb a \<Longrightarrow> fs_typed sb (fs\<lparr>fs_alloc := a\<rparr>)"
  by (simp add: fs_typed_def)

lemma fs_typed_data: "fs_typed sb fs \<Longrightarrow> length x = 4096 \<Longrightarrow> fs_typed sb (fs\<lparr>fs_data := (fs_data fs)(b := x)\<rparr>)"
  by (simp add: fs_typed_def)

definition mounted :: "superblock \<Rightarrow> (u64 \<Rightarrow> bytes) \<Rightarrow> fs_state \<Rightarrow> bool" where
  "mounted sb v fs \<longleftrightarrow>
     superblock_decode (v 0) = Inr sb \<and> allocator_of sb v = Inr (fs_alloc fs) \<and>
     inodes_of sb v = Inr (fs_inodes fs) \<and> entries_of sb v = Inr (fs_entries fs) \<and>
     fs_data fs = (\<lambda>b. if b \<in> set (data_region sb) then v b else []) \<and> fs_typed sb fs"

lemma mounted_unique: "mounted sb v fs \<Longrightarrow> mounted sb v fs' \<Longrightarrow> fs' = fs"
  by (cases fs; cases fs') (simp add: mounted_def)

lemma region_disjoint:
  assumes "sb_layout sb"
  shows "b \<in> set (allocation_region sb) \<Longrightarrow>
      b \<noteq> 0 \<and> b \<notin> set (journal_region sb) \<and> b \<notin> set (inode_region sb) \<and> b \<notin> set (directory_region sb) \<and> b \<notin> set (data_region sb)"
    and "b \<in> set (inode_region sb) \<Longrightarrow>
      b \<noteq> 0 \<and> b \<notin> set (journal_region sb) \<and> b \<notin> set (allocation_region sb) \<and> b \<notin> set (directory_region sb) \<and> b \<notin> set (data_region sb)"
    and "b \<in> set (directory_region sb) \<Longrightarrow>
      b \<noteq> 0 \<and> b \<notin> set (journal_region sb) \<and> b \<notin> set (allocation_region sb) \<and> b \<notin> set (inode_region sb) \<and> b \<notin> set (data_region sb)"
    and "b \<in> set (data_region sb) \<Longrightarrow>
      b \<noteq> 0 \<and> b \<notin> set (journal_region sb) \<and> b \<notin> set (allocation_region sb) \<and> b \<notin> set (inode_region sb) \<and> b \<notin> set (directory_region sb)"
proof -
  have zero: "b = 0 \<longleftrightarrow> unat b = 0" by (metis unat_0 unat_eq_zero)
  show "b \<in> set (allocation_region sb) \<Longrightarrow>
      b \<noteq> 0 \<and> b \<notin> set (journal_region sb) \<and> b \<notin> set (inode_region sb) \<and> b \<notin> set (directory_region sb) \<and> b \<notin> set (data_region sb)"
    "b \<in> set (inode_region sb) \<Longrightarrow>
      b \<noteq> 0 \<and> b \<notin> set (journal_region sb) \<and> b \<notin> set (allocation_region sb) \<and> b \<notin> set (directory_region sb) \<and> b \<notin> set (data_region sb)"
    "b \<in> set (directory_region sb) \<Longrightarrow>
      b \<noteq> 0 \<and> b \<notin> set (journal_region sb) \<and> b \<notin> set (allocation_region sb) \<and> b \<notin> set (inode_region sb) \<and> b \<notin> set (data_region sb)"
    "b \<in> set (data_region sb) \<Longrightarrow>
      b \<noteq> 0 \<and> b \<notin> set (journal_region sb) \<and> b \<notin> set (allocation_region sb) \<and> b \<notin> set (inode_region sb) \<and> b \<notin> set (directory_region sb)"
    unfolding region_member [OF assms] zero by linarith+
qed

lemma zero_not_journal:
  assumes "sb_layout sb"
  shows "0 \<notin> set (journal_region sb)"
  unfolding region_member(1) [OF assms] by simp

lemma mounted_cong:
  assumes "sb_ok sb" and "out_eq sb v w"
  shows "mounted sb v fs \<longleftrightarrow> mounted sb w fs"
proof -
  note dis = region_disjoint [OF sb_ok_layout [OF assms(1)]]
  have eq: "v b = w b" if "b \<notin> set (journal_region sb)" for b
    using assms(2) that unfolding out_eq_def by blast
  have "v 0 = w 0" using eq zero_not_journal [OF sb_ok_layout [OF assms(1)]] by blast
  moreover have "allocator_of sb v = allocator_of sb w" using dis(1) eq by (intro allocator_of_cong) blast
  moreover have "inodes_of sb v = inodes_of sb w" using dis(2) eq by (intro inodes_of_cong) blast
  moreover have "entries_of sb v = entries_of sb w" using dis(3) eq by (intro entries_of_cong) blast
  moreover have "(\<lambda>b. if b \<in> set (data_region sb) then v b else []) =
      (\<lambda>b. if b \<in> set (data_region sb) then w b else [])" using dis(4) eq by (intro ext) presburger
  ultimately show ?thesis unfolding mounted_def by simp
qed

lemma mounted_typed: "mounted sb v fs \<Longrightarrow> fs_typed sb fs"
  by (simp add: mounted_def)

lemma mountedI:
  assumes "sb_ok sb" and "\<And>b. b < total_blocks sb \<Longrightarrow> length (v b) = 4096"
    and "superblock_decode (v 0) = Inr sb" and a: "allocator_of sb v = Inr (fs_alloc fs)"
    and i: "inodes_of sb v = Inr (fs_inodes fs)" and e: "entries_of sb v = Inr (fs_entries fs)"
    and data: "fs_data fs = (\<lambda>b. if b \<in> set (data_region sb) then v b else [])"
  shows "mounted sb v fs"
proof -
  have "alloc_inv (fs_alloc fs)"
    and enc: "encode_allocator sb (fs_alloc fs) = Inr (region_bytes v (allocation_region sb))"
    using atab.region_determined [OF assms(1,2), where x = "fs_alloc fs"] a
    by (simp_all add: allocator_of_def)
  moreover have "alloc_fits sb (fs_alloc fs)"
    using encode_allocator_fits [OF assms(1) \<open>alloc_inv (fs_alloc fs)\<close>] enc by simp
  moreover have "inode_fits sb (fs_inodes fs)"
    using itab.region_determined [OF assms(1,2), where x = "fs_inodes fs"] i
      inode_encode_fits [OF assms(1), of "fs_inodes fs"] by (simp add: inodes_of_def)
  moreover have "directory_fits sb (fs_entries fs)"
    using dtab.region_determined [OF assms(1,2), where x = "fs_entries fs"] e
      directory_encode_fits [OF assms(1), of "fs_entries fs"] by (simp add: entries_of_def)
  moreover have "length (fs_data fs b) = 4096" if "b \<in> set (data_region sb)" for b
    using assms(2) that by (simp add: data u64_range_eq_iff)
  ultimately show ?thesis using assms by (simp add: mounted_def fs_typed_def)
qed

text \<open>What one stored table or one written data block changes.\<close>

lemma mounted_store_alloc:
  assumes "sb_ok sb" and "mounted sb v fs" and "alloc_inv a" and "encode_allocator sb a = Inr img"
  shows "mounted sb (apply_writes (region_writes (allocation_region sb) img) v id) (fs\<lparr>fs_alloc := a\<rparr>)"
proof -
  let ?w = "apply_writes (region_writes (allocation_region sb) img) v id"
  note dis = region_disjoint [OF sb_ok_layout [OF assms(1)]]
  have keep: "?w b = v b" if "b \<notin> set (allocation_region sb)" for b
    using that by (rule apply_region_other)
  have "?w 0 = v 0" using keep dis(1) by blast
  moreover have "inodes_of sb ?w = inodes_of sb v" using dis(2) keep by (intro inodes_of_cong) blast
  moreover have "entries_of sb ?w = entries_of sb v" using dis(3) keep by (intro entries_of_cong) blast
  moreover have "(\<lambda>b. if b \<in> set (data_region sb) then ?w b else []) =
      (\<lambda>b. if b \<in> set (data_region sb) then v b else [])" using dis(4) keep by (intro ext) presburger
  ultimately show ?thesis
    using assms(2) allocator_of_stored [OF assms(1,3,4)] encode_allocator_fits [OF assms(1,3)] assms(3,4)
    by (simp add: mounted_def fs_typed_alloc)
qed

lemma mounted_store_inodes:
  assumes "sb_ok sb" and "mounted sb v fs" and "inode_encode_image sb xs = Inr img"
  shows "mounted sb (apply_writes (region_writes (inode_region sb) img) v id) (fs\<lparr>fs_inodes := xs\<rparr>)"
proof -
  let ?w = "apply_writes (region_writes (inode_region sb) img) v id"
  note dis = region_disjoint [OF sb_ok_layout [OF assms(1)]]
  have keep: "?w b = v b" if "b \<notin> set (inode_region sb)" for b
    using that by (rule apply_region_other)
  have "?w 0 = v 0" using keep dis(2) by blast
  moreover have "allocator_of sb ?w = allocator_of sb v" using dis(1) keep by (intro allocator_of_cong) blast
  moreover have "entries_of sb ?w = entries_of sb v" using dis(3) keep by (intro entries_of_cong) blast
  moreover have "(\<lambda>b. if b \<in> set (data_region sb) then ?w b else []) =
      (\<lambda>b. if b \<in> set (data_region sb) then v b else [])" using dis(4) keep by (intro ext) presburger
  ultimately show ?thesis
    using assms(2,3) inodes_of_stored [OF assms(1,3)] inode_encode_fits [OF assms(1), of xs]
    by (simp add: mounted_def fs_typed_inodes)
qed

lemma mounted_store_entries:
  assumes "sb_ok sb" and "mounted sb v fs" and "directory_encode_image sb xs = Inr img"
  shows "mounted sb (apply_writes (region_writes (directory_region sb) img) v id) (fs\<lparr>fs_entries := xs\<rparr>)"
proof -
  let ?w = "apply_writes (region_writes (directory_region sb) img) v id"
  note dis = region_disjoint [OF sb_ok_layout [OF assms(1)]]
  have keep: "?w b = v b" if "b \<notin> set (directory_region sb)" for b
    using that by (rule apply_region_other)
  have "?w 0 = v 0" using keep dis(3) by blast
  moreover have "allocator_of sb ?w = allocator_of sb v" using dis(1) keep by (intro allocator_of_cong) blast
  moreover have "inodes_of sb ?w = inodes_of sb v" using dis(2) keep by (intro inodes_of_cong) blast
  moreover have "(\<lambda>b. if b \<in> set (data_region sb) then ?w b else []) =
      (\<lambda>b. if b \<in> set (data_region sb) then v b else [])" using dis(4) keep by (intro ext) presburger
  ultimately show ?thesis
    using assms(2,3) entries_of_stored [OF assms(1,3)] directory_encode_fits [OF assms(1), of xs]
    by (simp add: mounted_def fs_typed_entries)
qed

lemma mounted_store_data:
  assumes "sb_ok sb" and "mounted sb v fs" and "list_all (\<lambda>(b, x). b \<in> set (data_region sb) \<and> length x = 4096) ws"
  shows "mounted sb (apply_writes ws v id) (fs\<lparr>fs_data := apply_writes ws (fs_data fs) id\<rparr>)"
  using assms(2,3)
proof (induction ws arbitrary: v fs)
  case (Cons w ws)
  obtain b x where w: "w = (b, x)" by (cases w)
  have b: "b \<in> set (data_region sb)" using Cons.prems(2) w by simp
  note dis = region_disjoint(4) [OF sb_ok_layout [OF assms(1)] b]
  have "(v(b := x)) 0 = v 0" using dis by simp
  moreover have "allocator_of sb (v(b := x)) = allocator_of sb v"
    by (intro allocator_of_cong) (metis dis fun_upd_other)
  moreover have "inodes_of sb (v(b := x)) = inodes_of sb v" by (intro inodes_of_cong) (metis dis fun_upd_other)
  moreover have "entries_of sb (v(b := x)) = entries_of sb v" by (intro entries_of_cong) (metis dis fun_upd_other)
  moreover have "(\<lambda>c. if c \<in> set (data_region sb) then (v(b := x)) c else []) = (fs_data fs)(b := x)"
    using Cons.prems(1) b unfolding mounted_def by (intro ext) simp
  moreover have "fs_typed sb (fs\<lparr>fs_data := (fs_data fs)(b := x)\<rparr>)"
    using Cons.prems w by (intro fs_typed_data mounted_typed) simp_all
  ultimately have "mounted sb (v(b := x)) (fs\<lparr>fs_data := (fs_data fs)(b := x)\<rparr>)"
    using Cons.prems(1) by (simp add: mounted_def)
  from Cons.IH [OF this] Cons.prems(2) show ?case by (simp add: w fun_upd_def)
qed simp

section \<open>The contract of an operation\<close>

lemma wp_same: "m d = m' d \<Longrightarrow> wp m Q E d = wp m' Q E d"
  by (simp add: wp_def)

text \<open>The durable contents \<open>u\<close>, and the visible contents \<open>v\<close> themselves, stand for \<open>v\<close>.\<close>

definition stands :: "superblock \<Rightarrow> (u64 \<Rightarrow> bytes) \<Rightarrow> (u64 \<Rightarrow> bytes) \<Rightarrow> bool" where
  "stands sb u v \<longleftrightarrow> settled sb u v \<and> settled sb v v"

text \<open>
  The blocks a transaction from \<open>fs\<close> to \<open>fs'\<close> may write: metadata, data blocks that change and
  data blocks that are newly owned. A journal that cannot hold that many blocks is the only
  reason for an operation to fail where its specification does not.
\<close>

definition meta_blocks :: "superblock \<Rightarrow> u64 set" where
  "meta_blocks sb = set (allocation_region sb) \<union> set (inode_region sb) \<union> set (directory_region sb)"

definition touched :: "superblock \<Rightarrow> fs_state \<Rightarrow> fs_state \<Rightarrow> u64 set" where
  "touched sb fs fs' =
     meta_blocks sb \<union> {b \<in> set (data_region sb). fs_data fs b \<noteq> fs_data fs' b} \<union>
     (owned (fs_alloc fs') - owned (fs_alloc fs))"

definition journal_full :: "superblock \<Rightarrow> fs_state \<Rightarrow> fs_state \<Rightarrow> bool" where
  "journal_full sb fs fs' \<longleftrightarrow> 96 + card (touched sb fs fs') * 4128 > journal_capacity sb"

lemma journal_fullI:
  assumes "distinct (map fst ws)" and "fst ` set ws \<subseteq> touched sb fs fs'" and "\<not> tx_fits sb ws"
  shows "journal_full sb fs fs'"
proof -
  have "length ws = card (fst ` set ws)" using distinct_card [OF assms(1)] by simp
  also have "\<dots> \<le> card (touched sb fs fs')" by (rule card_mono [OF _ assms(2)]) simp
  finally show ?thesis using assms(3) by (simp add: tx_fits_def journal_full_def)
qed

text \<open>
  \<open>op\<close> acts as \<open>spec\<close> on the file systems with \<open>P\<close>. On success the new file system is visible
  and durable; an error leaves the device as it was, and is the error of \<open>spec\<close> or a journal
  that is too small; if the device fails, its durable contents stand for the old or already
  for the new file system. \<open>ret\<close> is the part of the result that \<open>spec\<close> determines (the
  recovery report counts the blocks written).
\<close>

definition implements ::
  "(u64 \<Rightarrow> (u64 \<Rightarrow> bytes) \<Rightarrow> (u64 \<Rightarrow> bytes) \<Rightarrow> 'd \<Rightarrow> bool) \<Rightarrow> bool \<Rightarrow> superblock \<Rightarrow>
   (fs_state \<Rightarrow> bool) \<Rightarrow> ('a \<Rightarrow> 'b) \<Rightarrow> ('d, 'a) io \<Rightarrow> (fs_state \<Rightarrow> ('b \<times> fs_state) res) \<Rightarrow> bool" where
  "implements at faulty sb P ret op spec \<longleftrightarrow>
     (\<forall>v u d fs. at (total_blocks sb) v u d \<longrightarrow> stands sb u v \<longrightarrow> mounted sb v fs \<longrightarrow> P fs \<longrightarrow>
        wp op
          (\<lambda>x d'. \<exists>v' u' fs'. spec fs = Inr (ret x, fs') \<and> at (total_blocks sb) v' u' d' \<and>
             stands sb u' v' \<and> mounted sb v' fs')
          (\<lambda>e d'. at (total_blocks sb) v u d' \<and>
               (spec fs = Inl e \<or> (\<exists>y fs'. spec fs = Inr (y, fs') \<and> journal_full sb fs fs')) \<or>
             faulty \<and> (\<exists>v' u' w fs'. at (total_blocks sb) v' u' d' \<and> settled sb u' w \<and>
               mounted sb w fs' \<and> (fs' = fs \<or> (\<exists>y. spec fs = Inr (y, fs'))))) d)"

text \<open>A step that only reads the device.\<close>

definition reads ::
  "(u64 \<Rightarrow> (u64 \<Rightarrow> bytes) \<Rightarrow> (u64 \<Rightarrow> bytes) \<Rightarrow> 'd \<Rightarrow> bool) \<Rightarrow> superblock \<Rightarrow>
   (fs_state \<Rightarrow> bool) \<Rightarrow> ('d, 'a) io \<Rightarrow> (fs_state \<Rightarrow> 'a res) \<Rightarrow> bool" where
  "reads at sb P op f \<longleftrightarrow>
     (\<forall>v u d fs. at (total_blocks sb) v u d \<longrightarrow> stands sb u v \<longrightarrow> mounted sb v fs \<longrightarrow> P fs \<longrightarrow>
        wp op (\<lambda>x d'. at (total_blocks sb) v u d' \<and> f fs = Inr x)
          (\<lambda>e d'. at (total_blocks sb) v u d' \<and> f fs = Inl e) d)"

named_theorems act_rules "rules for operations on the mounted file system"

lemma reads_lift [act_rules]: "reads at sb P (io_lift r) (\<lambda>_. r)"
  by (auto simp: reads_def wp_simps split: sum.splits)

lemma reads_return [act_rules]: "reads at sb P (io_return x) (\<lambda>_. Inr x)"
  by (auto simp: reads_def wp_simps)

lemma reads_fail [act_rules]: "reads at sb P (io_fail e) (\<lambda>_. Inl e)"
  by (auto simp: reads_def wp_simps)

lemma reads_bind [act_rules]:
  assumes "reads at sb P m f" and "\<And>x. reads at sb (\<lambda>fs. P fs \<and> f fs = Inr x) (g x) (h x)"
  shows "reads at sb P (io_bind m g) (\<lambda>fs. bindR (f fs) (\<lambda>x. h x fs))"
  unfolding reads_def wp_bind
proof (intro allI impI)
  fix v u d fs
  assume d: "at (total_blocks sb) v u d" and fs: "stands sb u v" "mounted sb v fs" "P fs"
  have "wp m (\<lambda>x d'. at (total_blocks sb) v u d' \<and> f fs = Inr x)
      (\<lambda>e d'. at (total_blocks sb) v u d' \<and> f fs = Inl e) d"
    using assms(1) d fs unfolding reads_def by blast
  then show "wp m
      (\<lambda>x. wp (g x) (\<lambda>y d'. at (total_blocks sb) v u d' \<and> bindR (f fs) (\<lambda>x. h x fs) = Inr y)
        (\<lambda>e d'. at (total_blocks sb) v u d' \<and> bindR (f fs) (\<lambda>x. h x fs) = Inl e))
      (\<lambda>e d'. at (total_blocks sb) v u d' \<and> bindR (f fs) (\<lambda>x. h x fs) = Inl e) d"
  proof (rule wp_mono)
    fix x d1 assume "at (total_blocks sb) v u d1 \<and> f fs = Inr x"
    then show "wp (g x) (\<lambda>y d'. at (total_blocks sb) v u d' \<and> bindR (f fs) (\<lambda>x. h x fs) = Inr y)
        (\<lambda>e d'. at (total_blocks sb) v u d' \<and> bindR (f fs) (\<lambda>x. h x fs) = Inl e) d1"
      using assms(2) [of x] fs unfolding reads_def by simp
  qed simp
qed

lemma reads_cong: "reads at sb P m f \<Longrightarrow> (\<And>fs. P fs \<Longrightarrow> f fs = g fs) \<Longrightarrow> reads at sb P m g"
  by (simp add: reads_def)

lemma reads_weaken: "reads at sb P m f \<Longrightarrow> (\<And>fs. Q fs \<Longrightarrow> P fs) \<Longrightarrow> reads at sb Q m f"
  by (simp add: reads_def)

lemma reads_assume:
  assumes "\<And>fs. P fs \<Longrightarrow> fs_typed sb fs \<Longrightarrow> A" and "A \<Longrightarrow> reads at sb P m f"
  shows "reads at sb P m f"
  using assms mounted_typed unfolding reads_def by blast

lemma reads_if:
  assumes "c \<Longrightarrow> reads at sb P m f" and "\<not> c \<Longrightarrow> reads at sb P m' g"
  shows "reads at sb P (if c then m else m') (\<lambda>fs. if c then f fs else g fs)"
  using assms by (cases c) simp_all

lemma reads_fold:
  assumes "\<And>x s. reads at sb P (m x s) (\<lambda>fs. f fs x s)"
  shows "reads at sb P (io_fold m xs s) (\<lambda>fs. iterR (f fs) xs s)"
proof (induction xs arbitrary: s)
  case (Cons x xs)
  have "reads at sb (\<lambda>fs. P fs \<and> f fs x s = Inr s') (io_fold m xs s') (\<lambda>fs. iterR (f fs) xs s')" for s'
    by (rule reads_weaken [OF Cons.IH]) simp
  from reads_bind [OF assms this] show ?case by simp
qed (simp add: reads_return)

lemma implements_reads:
  assumes "reads at sb P m f"
  shows "implements at faulty sb P (\<lambda>x. x) m (\<lambda>fs. bindR (f fs) (\<lambda>x. Inr (x, fs)))"
  unfolding implements_def
proof (intro allI impI)
  fix v u d fs
  assume d: "at (total_blocks sb) v u d" and st: "stands sb u v" and fs: "mounted sb v fs" "P fs"
  have "wp m (\<lambda>x d'. at (total_blocks sb) v u d' \<and> f fs = Inr x)
      (\<lambda>e d'. at (total_blocks sb) v u d' \<and> f fs = Inl e) d"
    using assms d st fs unfolding reads_def by blast
  then show "wp m
      (\<lambda>x d'. \<exists>v' u' fs'. bindR (f fs) (\<lambda>x. Inr (x, fs)) = Inr (x, fs') \<and>
         at (total_blocks sb) v' u' d' \<and> stands sb u' v' \<and> mounted sb v' fs')
      (\<lambda>e d'. at (total_blocks sb) v u d' \<and>
           (bindR (f fs) (\<lambda>x. Inr (x, fs)) = Inl e \<or>
            (\<exists>y fs'. bindR (f fs) (\<lambda>x. Inr (x, fs)) = Inr (y, fs') \<and> journal_full sb fs fs')) \<or>
         faulty \<and> (\<exists>v' u' w fs'. at (total_blocks sb) v' u' d' \<and> settled sb u' w \<and>
           mounted sb w fs' \<and> (fs' = fs \<or> (\<exists>y. bindR (f fs) (\<lambda>x. Inr (x, fs)) = Inr (y, fs'))))) d"
    by (rule wp_mono) (use st fs in auto)
qed

lemma implements_return: "implements at faulty sb P ret (io_return x) (\<lambda>fs. Inr (ret x, fs))"
  by (auto simp: implements_def wp_simps)

lemma implements_fail: "implements at faulty sb P ret (io_fail e) (\<lambda>fs. Inl e)"
  by (auto simp: implements_def wp_simps)

lemma implements_bind:
  assumes "reads at sb P m f"
    and "\<And>x. implements at faulty sb (\<lambda>fs. P fs \<and> f fs = Inr x) ret (g x) (s x)"
  shows "implements at faulty sb P ret (io_bind m g) (\<lambda>fs. bindR (f fs) (\<lambda>x. s x fs))"
  unfolding implements_def wp_bind
proof (intro allI impI, goal_cases)
  case (1 v u d fs)
  have "wp m (\<lambda>x d'. at (total_blocks sb) v u d' \<and> f fs = Inr x)
      (\<lambda>e d'. at (total_blocks sb) v u d' \<and> f fs = Inl e) d"
    using assms(1) 1 unfolding reads_def by blast
  then show ?case
  proof (rule wp_mono, goal_cases)
    case (1 x d1)
    then show ?case
      using assms(2) [of x, unfolded implements_def, rule_format, of v u d1 fs]
        \<open>stands sb u v\<close> \<open>mounted sb v fs\<close> \<open>P fs\<close> by simp
  qed simp
qed

lemma implements_if:
  assumes "c \<Longrightarrow> implements at faulty sb P ret m s" and "\<not> c \<Longrightarrow> implements at faulty sb P ret m' s'"
  shows "implements at faulty sb P ret (if c then m else m') (\<lambda>fs. if c then s fs else s' fs)"
  using assms by (cases c) simp_all

lemma implements_cong:
  "implements at faulty sb P ret m s \<Longrightarrow> (\<And>fs. P fs \<Longrightarrow> s fs = s' fs) \<Longrightarrow> implements at faulty sb P ret m s'"
  by (simp add: implements_def)

lemma implements_weaken:
  "implements at faulty sb P ret m s \<Longrightarrow> (\<And>fs. Q fs \<Longrightarrow> P fs) \<Longrightarrow> implements at faulty sb Q ret m s"
  by (simp add: implements_def)

lemma implements_option:
  assumes "p = None \<Longrightarrow> implements at faulty sb P ret m s"
    and "\<And>x. p = Some x \<Longrightarrow> implements at faulty sb P ret (m' x) (s' x)"
  shows "implements at faulty sb P ret (case p of None \<Rightarrow> m | Some x \<Rightarrow> m' x)
    (\<lambda>fs. case p of None \<Rightarrow> s fs | Some x \<Rightarrow> s' x fs)"
  using assms by (cases p) simp_all

text \<open>The type invariant of the mounted state, and what follows from the precondition, may be used.\<close>

lemma implements_typed:
  assumes "implements at faulty sb (\<lambda>fs. P fs \<and> fs_typed sb fs) ret m s"
  shows "implements at faulty sb P ret m s"
  using assms mounted_typed unfolding implements_def by blast

lemma implements_assume:
  assumes "\<And>fs. P fs \<Longrightarrow> A" and "A \<Longrightarrow> implements at faulty sb P ret m s"
  shows "implements at faulty sb P ret m s"
  using assms unfolding implements_def by blast

text \<open>Post-processing the result of an operation.\<close>

lemma implements_map:
  assumes "implements at faulty sb P ret m s" and "\<And>x. ret' (g x) = h (ret x)"
  shows "implements at faulty sb P ret' (io_bind m (\<lambda>x. io_return (g x)))
    (\<lambda>fs. bindR (s fs) (\<lambda>(y, fs'). Inr (h y, fs')))"
  unfolding implements_def wp_bind
proof (intro allI impI, goal_cases)
  case (1 v u d fs)
  show ?case
    by (rule wp_mono [OF assms(1) [unfolded implements_def, rule_format, OF 1]])
      (auto simp: wp_simps assms(2), blast+)
qed

section \<open>Loading, committing and recovering\<close>

lemma stands_refl: "journal_of sb v = Inr [] \<Longrightarrow> stands sb v v"
  by (simp add: stands_def settled_empty)

definition commit ::
  "'d block_device \<Rightarrow> superblock \<Rightarrow> ('d block_device \<Rightarrow> superblock \<Rightarrow> ('d, recovery_report) io) \<Rightarrow>
   writes \<Rightarrow> ('d, recovery_report) io" where
  "commit D sb recover changed =
     (if changed = [] then io_return default_report else publish D sb recover changed)"

context block_dev
begin

lemma reads_load_allocator:
  "sb_ok sb \<Longrightarrow> reads at sb P (load_allocator D sb) (\<lambda>fs. Inr (fs_alloc fs))"
  unfolding reads_def by (auto simp: mounted_def intro!: wp_mono [OF load_allocator_wp])

lemma reads_load_inodes:
  "sb_ok sb \<Longrightarrow> reads at sb P (load_inode_table D sb) (\<lambda>fs. Inr (fs_inodes fs))"
  unfolding reads_def by (auto simp: mounted_def intro!: wp_mono [OF load_inode_wp])

lemma reads_load_entries:
  "sb_ok sb \<Longrightarrow> reads at sb P (load_directory_table D sb) (\<lambda>fs. Inr (fs_entries fs))"
  unfolding reads_def by (auto simp: mounted_def intro!: wp_mono [OF load_directory_wp])

lemma reads_data_block:
  assumes "b \<in> set (data_region sb)"
  shows "reads at sb P (read_block D b) (\<lambda>fs. Inr (fs_data fs b))"
proof -
  have "b < total_blocks sb" using assms by (simp add: u64_range_eq_iff)
  with assms show ?thesis
    unfolding reads_def by (auto simp: mounted_def intro!: wp_mono [OF read_law])
qed

lemma commit_implements:
  assumes "sb_ok sb" and syncs and "at (total_blocks sb) v u d" and "stands sb u v"
    and "tx_ok sb ws" and "mounted sb v fs" and "mounted sb (apply_writes ws v id) fs'"
    and "distinct (map fst ws)" and "fst ` set ws \<subseteq> touched sb fs fs'"
    and "recover = recover_journal \<or> recover = recover_journal_and_checkpoint"
    and "m = publish D sb recover ws \<or> m = commit D sb recover ws"
  shows "wp m
    (\<lambda>r d'. \<exists>v' u'. at (total_blocks sb) v' u' d' \<and> stands sb u' v' \<and> mounted sb v' fs')
    (\<lambda>e d'. at (total_blocks sb) v u d' \<and> journal_full sb fs fs' \<or>
       faulty \<and> (\<exists>v' u' w. at (total_blocks sb) v' u' d' \<and> settled sb u' w \<and>
         (mounted sb w fs \<or> mounted sb w fs'))) d"
proof -
  have pub: "wp (publish D sb recover ws)
      (\<lambda>r d'. \<exists>v' u'. at (total_blocks sb) v' u' d' \<and> stands sb u' v' \<and> mounted sb v' fs')
      (\<lambda>e d'. at (total_blocks sb) v u d' \<and> journal_full sb fs fs' \<or>
         faulty \<and> (\<exists>v' u' w. at (total_blocks sb) v' u' d' \<and> settled sb u' w \<and>
           (mounted sb w fs \<or> mounted sb w fs'))) d"
  proof (rule wp_mono [OF publish_wp [OF assms(1,3,5,10)]], goal_cases)
    case (1 r d')
    then obtain v' where v': "at (total_blocks sb) v' v' d'" "settled sb v' (apply_writes ws v id)"
      "out_eq sb v' (apply_writes ws v id)" using assms(2) by auto
    have "stands sb v' v'" using settled_out_eq [OF v'(2) out_eq_sym [OF v'(3)]] by (simp add: stands_def)
    moreover have "mounted sb v' fs'" using mounted_cong [OF assms(1) v'(3)] assms(7) by simp
    ultimately show ?case using v'(1) by blast
  next
    case (2 e d')
    then show ?case
      using assms(2,4,6,7) journal_fullI [OF assms(8,9)] unfolding stands_def by blast
  qed
  show ?thesis
  proof (cases "m = publish D sb recover ws")
    case False
    then have m: "m = io_return default_report" and fs': "mounted sb v fs'"
      using assms(7,11) by (auto simp: commit_def split: if_splits)
    show ?thesis unfolding m wp_return using assms(3,4) fs' by blast
  next
    case True
    show ?thesis unfolding True by (rule pub)
  qed
qed

text \<open>An operation that runs recovery with checkpoint once more after it.\<close>

lemma recover_stands_wp:
  assumes "sb_ok sb" and syncs and "at (total_blocks sb) v u d" and "stands sb u v" and "mounted sb v fs"
  shows "wp (recover_journal_and_checkpoint D sb)
    (\<lambda>r d'. \<exists>v' u'. at (total_blocks sb) v' u' d' \<and> stands sb u' v' \<and> mounted sb v' fs)
    (\<lambda>_ d'. faulty \<and> (\<exists>v' u' w. at (total_blocks sb) v' u' d' \<and> settled sb u' w \<and> mounted sb w fs)) d"
proof -
  obtain es where es: "journal_of sb v = Inr es" "out_eq sb (replayed es v) v"
    using assms(4) by (auto simp: stands_def settled_def)
  have "journal_ok sb es"
    by (rule journal_of_ok [OF assms(1) es(1)]) (use view_length [OF assms(3)] in simp)
  then have "journal_of sb (replayed es v) = Inr es"
    using replayed_journal [OF sb_ok_layout [OF assms(1)]] es(1) by simp
  then have S: "settled sb (replayed es v) v"
    using es(2) by (auto simp: settled_def replayed_idem)
  let ?w = "cleared sb (replayed es v)"
  have C: "out_eq sb ?w v" by (rule out_eq_trans [OF out_eq_cleared es(2)])
  have W: "stands sb ?w ?w" by (rule stands_refl) (rule journal_of_cleared)
  have M: "mounted sb ?w fs" using mounted_cong [OF assms(1) C] assms(5) by simp
  show ?thesis
    by (rule wp_mono [OF recover_and_checkpoint_wp [OF assms(1,3) es(1)]])
      (use assms(2,4,5) S W M in \<open>auto simp: Let_def stands_def split: if_splits\<close>)
qed

lemma implements_checkpointed:
  assumes "sb_ok sb" and syncs and "implements at faulty sb P ret m s"
  shows "implements at faulty sb P ret
    (io_bind m (\<lambda>x. io_bind (recover_journal_and_checkpoint D sb) (\<lambda>_. io_return x))) s"
  unfolding implements_def wp_bind wp_return
proof (intro allI impI, goal_cases)
  case (1 v u d fs)
  show ?case
  proof (rule wp_mono [OF assms(3) [unfolded implements_def, rule_format, OF 1]], goal_cases)
    case (1 x d1)
    then obtain v1 u1 fs1 where s: "s fs = Inr (ret x, fs1)"
      and d1: "at (total_blocks sb) v1 u1 d1" "stands sb u1 v1" "mounted sb v1 fs1" by blast
    show ?case
      by (rule wp_mono [OF recover_stands_wp [OF assms(1,2) d1]]) (use s in blast)+
  qed simp
qed

end

section \<open>A crash in the middle of an operation\<close>

definition cd_mounted :: "superblock \<Rightarrow> crash_device \<Rightarrow> fs_state \<Rightarrow> bool" where
  "cd_mounted sb dev fs \<longleftrightarrow>
     cd_inv dev \<and> block_count crash_ops dev = total_blocks sb \<and>
     stands sb (cd_durable dev) (cd_view dev) \<and> mounted sb (cd_view dev) fs"

lemma crash_and_recover_implements:
  assumes "sb_ok sb" and "cd_mounted sb dev fs" and "P fs"
    and op: "implements crash_dev.at True sb P ret op spec"
    and run: "crash_and_recover sb crash_at op dev = (r, rep, dev')"
  shows "is_ok rep \<and>
    (\<exists>fs'. cd_mounted sb dev' fs' \<and> (fs' = fs \<or> (\<exists>y. spec fs = Inr (y, fs'))) \<and>
      (\<forall>x. r = Inr x \<longrightarrow> spec fs = Inr (ret x, fs')))"
proof -
  let ?n = "total_blocks sb"
  have at: "crash_dev.at ?n (cd_view dev) (cd_durable dev) (cd_arm crash_at dev)"
    by (rule cd_arm_at) (use assms(2) in \<open>simp add: cd_mounted_def dev_at_def\<close>)
  have st: "stands sb (cd_durable dev) (cd_view dev)" and fs: "mounted sb (cd_view dev) fs"
    using assms(2) by (simp_all add: cd_mounted_def)
  obtain dev1 where dev1: "op (cd_arm crash_at dev) = (r, dev1)"
    and rec: "recover_journal_and_checkpoint crash_ops sb (cd_reboot dev1) = (rep, dev')"
    using run by (auto simp: crash_and_recover_def split: prod.splits)
  note act = op [unfolded implements_def, rule_format, OF at st fs assms(3), unfolded wp_def dev1]
  obtain v' u' w fs' where at1: "crash_dev.at ?n v' u' dev1" and s: "settled sb u' w" "mounted sb w fs'"
    and fs': "fs' = fs \<or> (\<exists>y. spec fs = Inr (y, fs'))" "\<forall>x. r = Inr x \<longrightarrow> spec fs = Inr (ret x, fs')"
  proof (cases r)
    case (Inl e)
    then show ?thesis using act st fs that unfolding stands_def by (simp, blast)
  next
    case (Inr x)
    then show ?thesis using act that unfolding stands_def by (simp, blast)
  qed
  have "wp (recover_journal_and_checkpoint crash_ops sb)
      (\<lambda>r d'. \<exists>v'. calm_dev.at ?n v' v' d' \<and> journal_of sb v' = Inr [] \<and> out_eq sb v' w)
      (\<lambda>_ _. False) (cd_reboot dev1)"
    using calm_dev.recover_settled_wp [OF assms(1) cd_reboot_at [OF at1] s(1)] by simp
  then obtain v2 where "is_ok rep" and v2: "calm_dev.at ?n v2 v2 dev'"
    "journal_of sb v2 = Inr []" "out_eq sb v2 w"
    using rec by (auto simp: wp_def is_ok_iff split: sum.splits)
  moreover have "cd_mounted sb dev' fs'"
    using v2 stands_refl [OF v2(2)] mounted_cong [OF assms(1) v2(3)] s(2)
    by (simp add: cd_mounted_def dev_at_def)
  ultimately show ?thesis using fs' by blast
qed

text \<open>
  The outcome of an operation on the file system \<open>fs\<close> that a crash may interrupt, followed by
  reboot and recovery. Without a crash the operation fails only as specified or when the
  journal is too small.
\<close>

definition crash_outcome ::
  "superblock \<Rightarrow> ('a \<Rightarrow> 'b) \<Rightarrow> (fs_state \<Rightarrow> ('b \<times> fs_state) res) \<Rightarrow> fs_state \<Rightarrow> nat option \<Rightarrow>
   'a res \<times> recovery_report res \<times> crash_device \<Rightarrow> bool" where
  "crash_outcome sb ret spec fs crash_at out \<longleftrightarrow>
     (case out of (r, rep, dev') \<Rightarrow>
        is_ok rep \<and>
        (\<exists>fs'. cd_mounted sb dev' fs' \<and> (fs' = fs \<or> (\<exists>y. spec fs = Inr (y, fs'))) \<and>
           (\<forall>x. r = Inr x \<longrightarrow> spec fs = Inr (ret x, fs'))) \<and>
        (crash_at = None \<longrightarrow>
           (\<forall>e. spec fs = Inl e \<longrightarrow> r = Inl e) \<and>
           (\<forall>y fs'. spec fs = Inr (y, fs') \<and> \<not> journal_full sb fs fs' \<longrightarrow> is_ok r)))"

definition crash_safe ::
  "superblock \<Rightarrow> (fs_state \<Rightarrow> bool) \<Rightarrow> ('a \<Rightarrow> 'b) \<Rightarrow> (crash_device, 'a) io \<Rightarrow> (fs_state \<Rightarrow> ('b \<times> fs_state) res) \<Rightarrow> bool" where
  "crash_safe sb P ret op spec \<longleftrightarrow>
     implements crash_dev.at True sb P ret op spec \<and> implements calm_dev.at False sb P ret op spec"

lemma crash_safe_outcome:
  assumes "sb_ok sb" and "cd_mounted sb dev fs" and "P fs" and op: "crash_safe sb P ret op spec"
  shows "crash_outcome sb ret spec fs crash_at (crash_and_recover sb crash_at op dev)"
proof -
  obtain r rep dev' where run: "crash_and_recover sb crash_at op dev = (r, rep, dev')"
    using prod_cases3 by blast
  have "(\<forall>e. spec fs = Inl e \<longrightarrow> r = Inl e) \<and>
      (\<forall>y fs'. spec fs = Inr (y, fs') \<and> \<not> journal_full sb fs fs' \<longrightarrow> is_ok r)" if none: "crash_at = None"
  proof -
    have at: "calm_dev.at (total_blocks sb) (cd_view dev) (cd_durable dev) (cd_arm None dev)"
      by (rule cd_arm_none_at) (use assms(2) in \<open>simp add: cd_mounted_def dev_at_def\<close>)
    have st: "stands sb (cd_durable dev) (cd_view dev)" and fs: "mounted sb (cd_view dev) fs"
      using assms(2) by (simp_all add: cd_mounted_def)
    obtain dev1 where dev1: "op (cd_arm None dev) = (r, dev1)"
      using run none by (auto simp: crash_and_recover_def split: prod.splits)
    have "implements calm_dev.at False sb P ret op spec" using op by (simp add: crash_safe_def)
    note act = this [unfolded implements_def, rule_format, OF at st fs assms(3), unfolded wp_def dev1]
    show ?thesis using act by (cases r) auto
  qed
  moreover have "is_ok rep \<and>
      (\<exists>fs'. cd_mounted sb dev' fs' \<and> (fs' = fs \<or> (\<exists>y. spec fs = Inr (y, fs'))) \<and>
        (\<forall>x. r = Inr x \<longrightarrow> spec fs = Inr (ret x, fs')))"
    by (rule crash_and_recover_implements [where P = P, OF assms(1-3) _ run]) (use op in \<open>simp add: crash_safe_def\<close>)
  ultimately show ?thesis unfolding crash_outcome_def run by simp
qed

text \<open>Operations that only read return what the state holds and leave the device as it was.\<close>

lemma crash_reads:
  assumes "cd_mounted sb dev fs" and "P fs" and "reads crash_dev.at sb P op f"
  shows "case op dev of (r, dev') \<Rightarrow> r = f fs \<and> cd_view dev' = cd_view dev \<and> cd_durable dev' = cd_durable dev"
proof -
  have "crash_dev.at (total_blocks sb) (cd_view dev) (cd_durable dev) dev"
    and "stands sb (cd_durable dev) (cd_view dev)" and "mounted sb (cd_view dev) fs"
    using assms(1) by (simp_all add: cd_mounted_def dev_at_def)
  from assms(3) [unfolded reads_def, rule_format, OF this assms(2)] show ?thesis
    by (auto simp: wp_def dev_at_def split: prod.splits sum.splits)
qed

end
