(* ===== verification/FS_Metadata_Tx.thy ===== *)
theory FS_Metadata_Tx
  imports FS_State
begin

text \<open>
  The journaled metadata updates: \<^verbatim>\<open>allocation_tx.rs\<close>, \<^verbatim>\<open>inode_tx.rs\<close>,
  \<^verbatim>\<open>directory_tx.rs\<close>, \<^verbatim>\<open>metadata_tx.rs\<close> and \<^verbatim>\<open>create_tx.rs\<close>. Each renders the
  wanted tables on a capture device, collects the blocks in which they differ from the device
  and publishes them as one transaction. Each is shown to replace its tables in the mounted
  file system atomically, leaving the other tables and the data alone.
\<close>

section \<open>The operations\<close>

text \<open>The device geometry check that opens each of them.\<close>

definition check_geometry :: "'d block_device \<Rightarrow> superblock \<Rightarrow> ('d, unit) io" where
  "check_geometry D sb =
     io_look (\<lambda>d. if block_count D d \<noteq> total_blocks sb then Inl InvalidInput else Inr ())"

definition render :: "superblock \<Rightarrow> (capture_device, unit) io \<Rightarrow> capture_device res" where
  "render sb stores =
     (case stores (capture_new (total_blocks sb)) of (Inl e, _) \<Rightarrow> Inl e | (Inr _, cap) \<Rightarrow> Inr cap)"

text \<open>Rendering on a fresh capture device and collecting the changed blocks of some regions.\<close>

definition stage ::
  "'d block_device \<Rightarrow> superblock \<Rightarrow> (capture_device, unit) io \<Rightarrow> (u64 \<times> u64) list \<Rightarrow> ('d, writes) io" where
  "stage D sb stores ranges =
     io_bind (io_lift (render sb stores)) (\<lambda>cap.
     io_bind (io_fold (collect_changed_range D) ranges (cap, [])) (\<lambda>(cap, changed).
     io_bind (io_lift (ensure_empty cap)) (\<lambda>_. io_return changed)))"

definition take_rendered_range :: "u64 \<times> u64 \<Rightarrow> capture_device \<Rightarrow> (capture_device \<times> writes) res" where
  "take_rendered_range blocks cap =
     iterR
       (\<lambda>b (cap, ws). bindR (take_rendered_block b cap) (\<lambda>(data, cap'). Inr (cap', ws @ [(b, data)])))
       (range_blocks blocks) (cap, [])"

definition store_allocator_journaled ::
  "'d block_device \<Rightarrow> superblock \<Rightarrow> block_allocator \<Rightarrow> ('d, recovery_report) io" where
  "store_allocator_journaled D sb allocator =
     io_bind (check_geometry D sb) (\<lambda>_.
     io_bind (io_lift (render sb (store_allocator capture_ops sb allocator))) (\<lambda>cap.
     io_bind (io_lift (take_rendered_range (allocation_range sb) cap)) (\<lambda>(cap, ws).
     io_bind (io_lift (ensure_empty cap)) (\<lambda>_.
     io_bind (io_lift (tx_log_entries ws)) (\<lambda>entries.
     io_bind (store_journal_image D sb entries) (\<lambda>_.
     io_bind (recover_journal D sb) (\<lambda>report.
       io_lift (check_report (unat (allocation_blocks sb)) report))))))))"

definition store_inode_table_journaled ::
  "'d block_device \<Rightarrow> superblock \<Rightarrow> persisted_inode list \<Rightarrow> ('d, recovery_report) io" where
  "store_inode_table_journaled D sb inodes =
     io_bind (check_geometry D sb) (\<lambda>_.
     io_bind (stage D sb (store_inode_table capture_ops sb inodes) [inode_range sb])
       (commit D sb recover_journal))"

definition store_directory_table_journaled ::
  "'d block_device \<Rightarrow> superblock \<Rightarrow> persisted_directory_entry list \<Rightarrow> ('d, recovery_report) io" where
  "store_directory_table_journaled D sb entries =
     io_bind (check_geometry D sb) (\<lambda>_.
     io_bind (stage D sb (store_directory_table capture_ops sb entries) [directory_range sb])
       (commit D sb recover_journal))"

definition store_inode_directory_tables_journaled ::
  "'d block_device \<Rightarrow> superblock \<Rightarrow> persisted_inode list \<Rightarrow> persisted_directory_entry list \<Rightarrow>
   ('d, recovery_report) io" where
  "store_inode_directory_tables_journaled D sb inodes entries =
     io_bind (check_geometry D sb) (\<lambda>_.
     io_bind
       (stage D sb
          (io_bind (store_inode_table capture_ops sb inodes) (\<lambda>_.
             store_directory_table capture_ops sb entries))
          [inode_range sb, directory_range sb])
       (commit D sb recover_journal))"

definition store_create_metadata_journaled ::
  "'d block_device \<Rightarrow> superblock \<Rightarrow> block_allocator \<Rightarrow> persisted_inode list \<Rightarrow>
   persisted_directory_entry list \<Rightarrow> ('d, recovery_report) io" where
  "store_create_metadata_journaled D sb allocator inodes entries =
     io_bind (check_geometry D sb) (\<lambda>_.
     io_bind
       (stage D sb
          (io_bind (store_allocator capture_ops sb allocator) (\<lambda>_.
           io_bind (store_inode_table capture_ops sb inodes) (\<lambda>_.
             store_directory_table capture_ops sb entries)))
          [allocation_range sb, inode_range sb, directory_range sb])
       (commit D sb recover_journal_and_checkpoint))"

section \<open>Rendering\<close>

text \<open>\<open>m\<close> renders the writes \<open>enc\<close> on a capture device, or fails with the error of \<open>enc\<close>.\<close>

definition renders :: "u64 \<Rightarrow> (capture_device, unit) io \<Rightarrow> writes res \<Rightarrow> bool" where
  "renders n m enc \<longleftrightarrow>
     (\<forall>cap. cap_block_count cap = n \<longrightarrow>
        wp m
          (\<lambda>_ cap'. cap_block_count cap' = n \<and>
             (\<exists>W. enc = Inr W \<and> rendered cap' = apply_writes W (rendered cap) Some))
          (\<lambda>e _. enc = Inl e) cap)"

definition image_writes :: "u64 list \<Rightarrow> bytes res \<Rightarrow> writes res" where
  "image_writes blocks enc = bindR enc (\<lambda>img. Inr (region_writes blocks img))"

lemma renders_seq:
  assumes "renders n m1 e1" and "renders n m2 e2"
  shows "renders n (io_bind m1 (\<lambda>_. m2)) (bindR e1 (\<lambda>w1. bindR e2 (\<lambda>w2. Inr (w1 @ w2))))"
  unfolding renders_def wp_bind
proof (intro allI impI)
  fix cap :: capture_device assume cap: "cap_block_count cap = n"
  show "wp m1 (\<lambda>_. wp m2
        (\<lambda>_ cap'. cap_block_count cap' = n \<and>
           (\<exists>W. bindR e1 (\<lambda>w1. bindR e2 (\<lambda>w2. Inr (w1 @ w2))) = Inr W \<and>
              rendered cap' = apply_writes W (rendered cap) Some))
        (\<lambda>e _. bindR e1 (\<lambda>w1. bindR e2 (\<lambda>w2. Inr (w1 @ w2))) = Inl e))
      (\<lambda>e _. bindR e1 (\<lambda>w1. bindR e2 (\<lambda>w2. Inr (w1 @ w2))) = Inl e) cap"
  proof (rule wp_mono [OF assms(1) [unfolded renders_def, rule_format, OF cap]], goal_cases)
    case (1 x cap1)
    then show ?case
      by (intro wp_mono [OF assms(2) [unfolded renders_def, rule_format, of cap1]])
        (auto simp: apply_writes_append)
  qed simp
qed

lemma renders_region:
  assumes "rlen = Inr (length blocks * 4096)" and "length blocks * 4096 < 2 ^ 64"
    and "list_all (\<lambda>b. b < n) blocks" and "\<And>img. enc = Inr img \<Longrightarrow> length img = length blocks * 4096"
    and "\<And>cap. cap_block_count cap = n \<Longrightarrow> guard cap = Inr ()"
  shows "renders n (io_bind (io_look guard) (\<lambda>_. io_bind (io_lift enc) (\<lambda>img.
      io_bind (region_write capture_ops blocks rlen img) (\<lambda>_. flush capture_ops)))) (image_writes blocks enc)"
  unfolding renders_def
proof (intro allI impI)
  fix cap :: capture_device assume cap: "cap_block_count cap = n"
  show "wp (io_bind (io_look guard) (\<lambda>_. io_bind (io_lift enc) (\<lambda>img.
        io_bind (region_write capture_ops blocks rlen img) (\<lambda>_. flush capture_ops))))
      (\<lambda>_ cap'. cap_block_count cap' = n \<and>
         (\<exists>W. image_writes blocks enc = Inr W \<and> rendered cap' = apply_writes W (rendered cap) Some))
      (\<lambda>e _. image_writes blocks enc = Inl e) cap"
  proof (cases enc)
    case (Inl e)
    then show ?thesis using assms(5) [OF cap] by (simp add: wp_simps image_writes_def)
  next
    case (Inr img)
    have len: "length img = length blocks * 4096" by (rule assms(4) [OF Inr])
    have "b \<in> set blocks" if "(b, x) \<in> set (region_writes blocks img)" for b x
      using that region_writes_blocks [of blocks img] by (metis fst_conv image_eqI)
    then have "list_all (\<lambda>(b, x). b < cap_block_count cap) (region_writes blocks img)"
      using assms(3) cap by (auto simp: list_all_iff)
    then obtain cap' where "write_all capture_ops (region_writes blocks img) cap = (Inr (), cap')"
      "cap_block_count cap' = n"
      "rendered cap' = apply_writes (region_writes blocks img) (rendered cap) Some"
      using capture_write_all cap by metis
    then have "wp (io_bind (region_write capture_ops blocks rlen img) (\<lambda>_. flush capture_ops))
        (\<lambda>_ cap'. cap_block_count cap' = n \<and>
           (\<exists>W. image_writes blocks enc = Inr W \<and> rendered cap' = apply_writes W (rendered cap) Some))
        (\<lambda>e _. image_writes blocks enc = Inl e) cap"
      unfolding region_write_eq [OF assms(1,2) len]
      by (simp add: wp_def io_bind_def capture_ops_def cap_flush_def image_writes_def Inr)
    then show ?thesis using assms(5) [OF cap] Inr by (simp add: wp_simps)
  qed
qed

abbreviation alloc_writes :: "superblock \<Rightarrow> block_allocator \<Rightarrow> writes res" where
  "alloc_writes sb a \<equiv> image_writes (allocation_region sb) (encode_allocator sb a)"

abbreviation inode_writes :: "superblock \<Rightarrow> persisted_inode list \<Rightarrow> writes res" where
  "inode_writes sb xs \<equiv> image_writes (inode_region sb) (inode_encode_image sb xs)"

abbreviation entry_writes :: "superblock \<Rightarrow> persisted_directory_entry list \<Rightarrow> writes res" where
  "entry_writes sb es \<equiv> image_writes (directory_region sb) (directory_encode_image sb es)"

lemma renders_tables:
  assumes "sb_ok sb"
  shows "renders (total_blocks sb) (store_allocator capture_ops sb a) (alloc_writes sb a)"
    and "renders (total_blocks sb) (store_inode_table capture_ops sb xs) (inode_writes sb xs)"
    and "renders (total_blocks sb) (store_directory_table capture_ops sb es) (entry_writes sb es)"
proof -
  have count: "block_count capture_ops cap = cap_block_count cap" for cap
    by (simp add: capture_ops_def)
  show "renders (total_blocks sb) (store_allocator capture_ops sb a) (alloc_writes sb a)"
    unfolding store_allocator_def alloc_write_region_def
    by (rule renders_region [OF alloc_region_len_eq [OF assms] atab.blocks_in_device [OF assms]
          atab.enc_length [OF assms] alloc_geometry_ok]) (simp_all add: count)
  show "renders (total_blocks sb) (store_inode_table capture_ops sb xs) (inode_writes sb xs)"
    unfolding store_inode_table_def inode_write_region_def
    by (rule renders_region [OF inode_region_len_eq [OF assms] itab.blocks_in_device [OF assms]
          itab.enc_length [OF assms] inode_geometry_ok [OF assms]]) (simp_all add: count)
  show "renders (total_blocks sb) (store_directory_table capture_ops sb es) (entry_writes sb es)"
    unfolding store_directory_table_def directory_write_region_def
    by (rule renders_region [OF directory_region_len_eq [OF assms] dtab.blocks_in_device [OF assms]
          dtab.enc_length [OF assms] directory_geometry_ok [OF assms]]) (simp_all add: count)
qed

section \<open>Collecting\<close>

lemma apply_writes_overlay:
  "apply_writes ws (\<lambda>b. case m b of None \<Rightarrow> v b | Some x \<Rightarrow> x) id =
   (\<lambda>b. case apply_writes ws m Some b of None \<Rightarrow> v b | Some x \<Rightarrow> x)"
proof (induction ws arbitrary: m)
  case (Cons w ws)
  obtain b x where w: "w = (b, x)" by (cases w)
  have eq: "(\<lambda>c. case m c of None \<Rightarrow> v c | Some x \<Rightarrow> x)(b := x) =
      (\<lambda>c. case (m(b := Some x)) c of None \<Rightarrow> v c | Some x \<Rightarrow> x)" by (simp add: fun_eq_iff)
  show ?case using Cons.IH [of "m(b := Some x)"] by (simp only: w apply_writes_Cons id_apply eq)
qed simp

lemma apply_writes_rendered:
  "apply_writes ws v id b = (case apply_writes ws Map.empty Some b of None \<Rightarrow> v b | Some x \<Rightarrow> x)"
  using fun_cong [OF apply_writes_overlay [where m = Map.empty], of ws v b] by simp

lemma distinct_diff_writes: "distinct bs \<Longrightarrow> distinct (map fst (diff_writes v f bs))"
  by (induction bs) (auto simp: in_diff_writes)

lemma rendered_dom: "b \<in> fst ` set ws \<longleftrightarrow> (\<exists>x. apply_writes ws m Some b = Some x \<and> (b, x) \<in> set ws)"
proof (induction ws arbitrary: m)
  case (Cons w ws)
  obtain c x where w: "w = (c, x)" by (cases w)
  show ?case
  proof (cases "b \<in> fst ` set ws")
    case True
    then show ?thesis using Cons.IH [of "m(c := Some x)"] by (auto simp: w fun_upd_def)
  next
    case False
    then show ?thesis by (auto simp: w apply_writes_other rev_image_eqI)
  qed
qed simp

context block_dev
begin

lemma collect_ranges_wp:
  assumes "at n v u d" and "\<forall>b \<in> set (concat (map range_blocks rs)). b < n \<and> rendered cap b = Some (f b)"
    and "distinct (concat (map range_blocks rs))"
  shows "wp (io_fold (collect_changed_range D) rs (cap, []))
    (\<lambda>(cap', changed) d'. at n v u d' \<and> changed = diff_writes v f (concat (map range_blocks rs)) \<and>
       rendered cap' = (rendered cap) |` (- set (concat (map range_blocks rs))))
    (\<lambda>_ _. False) d"
proof -
  let ?I = "\<lambda>rs (cap', changed) d'. at n v u d' \<and>
       changed = diff_writes v f (concat (map range_blocks rs)) \<and>
       rendered cap' = (rendered cap) |` (- set (concat (map range_blocks rs)))"
  show ?thesis
  proof (rule wp_fold_inv [where I = ?I])
    show "?I [] (cap, []) d" using assms(1) by (simp add: restrict_map_def)
  next
    fix pre r post s d1
    assume split: "rs = pre @ r # post" and I: "?I pre s d1"
    obtain cap1 changed1 where s: "s = (cap1, changed1)" by (cases s)
    have "set (range_blocks r) \<inter> set (concat (map range_blocks pre)) = {}"
      using assms(3) by (auto simp: split)
    then have r: "\<forall>b \<in> set (range_blocks r). b < n \<and> rendered cap1 b = Some (f b)"
      using assms(2) I s split by (auto simp: restrict_map_def)
    have d1: "at n v u d1" using I s by simp
    have rest: "- set (concat (map range_blocks (pre @ [r]))) =
        - set (concat (map range_blocks pre)) \<inter> - set (range_blocks r)" by auto
    show "wp (collect_changed_range D r s) (?I (pre @ [r])) (\<lambda>_ _. False) d1"
      unfolding s rest using I s
      by (intro wp_mono [OF collect_wp [OF d1 r]]) (auto simp: diff_writes_append)
  qed
qed

lemma stage_wp:
  assumes "at (total_blocks sb) v u d" and "renders (total_blocks sb) stores enc"
    and "\<And>W. enc = Inr W \<Longrightarrow> fst ` set W = set (concat (map range_blocks rs)) \<and> tx_ok sb W"
    and "distinct (concat (map range_blocks rs))" and "sb_layout sb"
  shows "wp (stage D sb stores rs)
    (\<lambda>ws d'. at (total_blocks sb) v u d' \<and>
       (\<exists>W. enc = Inr W \<and> set ws \<subseteq> set W \<and> distinct (map fst ws) \<and>
          apply_writes ws v id = apply_writes W v id))
    (\<lambda>e d'. at (total_blocks sb) v u d' \<and> enc = Inl e) d"
proof -
  have count: "cap_block_count (capture_new (total_blocks sb)) = total_blocks sb"
    by (simp add: capture_new_def)
  let ?cap = "capture_new (total_blocks sb)" and ?bs = "concat (map range_blocks rs)"
  note r = assms(2) [unfolded renders_def, rule_format, OF count, unfolded wp_def]
  show ?thesis
  proof (cases enc)
    case (Inl e)
    then have "render sb stores = Inl e"
      using r by (auto simp: render_def split: prod.splits sum.splits)
    then show ?thesis using assms(1) Inl by (simp add: stage_def wp_simps)
  next
    case (Inr W)
    then obtain cap where cap: "render sb stores = Inr cap"
      and ren: "rendered cap = apply_writes W Map.empty Some"
      using r by (auto simp: render_def split: prod.splits sum.splits)
    let ?f = "\<lambda>b. the (rendered cap b)"
    have W: "fst ` set W = set ?bs" "tx_ok sb W" using assms(3) Inr by blast+
    have f: "rendered cap b = Some (?f b) \<and> (b, ?f b) \<in> set W" if "b \<in> set ?bs" for b
      using rendered_dom [of b W Map.empty] that W(1) ren by auto
    have home: "b < total_blocks sb" if "b \<in> set ?bs" for b
      using f [OF that] W(2) home_block_not_journal [OF assms(5)] unfolding tx_ok_def by blast
    have none: "rendered cap b = None" if "b \<notin> set ?bs" for b
      using that W(1) by (simp add: ren apply_writes_other)
    have new: "apply_writes (diff_writes v ?f ?bs) v id = apply_writes W v id"
    proof
      fix b
      show "apply_writes (diff_writes v ?f ?bs) v id b = apply_writes W v id b"
        unfolding apply_diff_writes [OF assms(4)] apply_writes_rendered [of W] ren [symmetric]
        using f [of b] none [of b] by (cases "b \<in> set ?bs"; cases "rendered cap b") (simp_all del: set_concat)
    qed
    have sub: "set (diff_writes v ?f ?bs) \<subseteq> set W" using f by (auto simp: in_diff_writes)
    have "wp (io_fold (collect_changed_range D) rs (cap, []))
        (\<lambda>(cap', changed) d'. at (total_blocks sb) v u d' \<and> changed = diff_writes v ?f ?bs \<and>
           rendered cap' = (rendered cap) |` (- set ?bs))
        (\<lambda>_ _. False) d"
      by (rule collect_ranges_wp [OF assms(1) _ assms(4)]) (use f home in blast)
    then show ?thesis
      unfolding stage_def cap io_bind_lift_Inr wp_bind
    proof (rule wp_mono, goal_cases)
      case (1 s d')
      obtain cap' changed where s: "s = (cap', changed)" by (cases s)
      have "rendered cap' b = None" for b
        using 1 s none [of b] by (cases "b \<in> set ?bs") (auto simp: restrict_map_def)
      then have "ensure_empty cap' = Inr ()"
        by (auto simp: ensure_empty_def Mapping.is_empty_def keys_dom_lookup)
      then show ?case
        using 1 s new sub Inr distinct_diff_writes [OF assms(4)] by (auto simp: wp_simps)
    qed simp
  qed
qed

end

section \<open>What the operations do to the mounted file system\<close>

definition put_alloc :: "superblock \<Rightarrow> block_allocator \<Rightarrow> fs_state \<Rightarrow> (unit \<times> fs_state) res" where
  "put_alloc sb a fs = bindR (encode_allocator sb a) (\<lambda>_. Inr ((), fs\<lparr>fs_alloc := a\<rparr>))"

definition put_inodes :: "superblock \<Rightarrow> persisted_inode list \<Rightarrow> fs_state \<Rightarrow> (unit \<times> fs_state) res" where
  "put_inodes sb xs fs = bindR (inode_encode_image sb xs) (\<lambda>_. Inr ((), fs\<lparr>fs_inodes := xs\<rparr>))"

definition put_entries ::
  "superblock \<Rightarrow> persisted_directory_entry list \<Rightarrow> fs_state \<Rightarrow> (unit \<times> fs_state) res" where
  "put_entries sb es fs = bindR (directory_encode_image sb es) (\<lambda>_. Inr ((), fs\<lparr>fs_entries := es\<rparr>))"

definition put_inodes_entries ::
  "superblock \<Rightarrow> persisted_inode list \<Rightarrow> persisted_directory_entry list \<Rightarrow> fs_state \<Rightarrow>
   (unit \<times> fs_state) res" where
  "put_inodes_entries sb xs es fs =
     bindR (inode_encode_image sb xs) (\<lambda>_. bindR (directory_encode_image sb es) (\<lambda>_.
       Inr ((), fs\<lparr>fs_inodes := xs, fs_entries := es\<rparr>)))"

definition put_tables ::
  "superblock \<Rightarrow> block_allocator \<Rightarrow> persisted_inode list \<Rightarrow> persisted_directory_entry list \<Rightarrow> fs_state \<Rightarrow>
   (unit \<times> fs_state) res" where
  "put_tables sb a xs es fs =
     bindR (encode_allocator sb a) (\<lambda>_. bindR (inode_encode_image sb xs) (\<lambda>_.
     bindR (directory_encode_image sb es) (\<lambda>_.
       Inr ((), fs\<lparr>fs_alloc := a, fs_inodes := xs, fs_entries := es\<rparr>))))"

lemma put_tables_iff:
  assumes "sb_ok sb" and "alloc_inv a"
  shows "put_tables sb a xs es fs = Inr (y, fs') \<longleftrightarrow>
    alloc_fits sb a \<and> inode_fits sb xs \<and> directory_fits sb es \<and>
    fs' = fs\<lparr>fs_alloc := a, fs_inodes := xs, fs_entries := es\<rparr>"
  unfolding encode_allocator_fits [OF assms, symmetric] inode_encode_fits [OF assms(1), symmetric]
    directory_encode_fits [OF assms(1), symmetric]
  by (auto simp: put_tables_def bindR_Inr_iff is_ok_iff)

lemma image_writes_Inr_iff:
  "image_writes blocks enc = Inr W \<longleftrightarrow> (\<exists>img. enc = Inr img \<and> W = region_writes blocks img)"
  by (auto simp: image_writes_def bindR_Inr_iff)

lemma image_writes_bind [simp]: "bindR (image_writes blocks enc) (\<lambda>_. k) = bindR enc (\<lambda>_. k)"
  by (cases enc) (simp_all add: image_writes_def)

lemma alloc_writes_region:
  assumes "sb_ok sb" and "alloc_writes sb a = Inr W"
  shows "fst ` set W = set (allocation_region sb)" "tx_ok sb W"
  using atab.stored_tx_ok [OF assms(1)] assms(2) unfolding image_writes_Inr_iff by - (elim exE conjE, simp)+

lemma inode_writes_region:
  assumes "sb_ok sb" and "inode_writes sb xs = Inr W"
  shows "fst ` set W = set (inode_region sb)" "tx_ok sb W"
  using itab.stored_tx_ok [OF assms(1)] assms(2) unfolding image_writes_Inr_iff by - (elim exE conjE, simp)+

lemma entry_writes_region:
  assumes "sb_ok sb" and "entry_writes sb es = Inr W"
  shows "fst ` set W = set (directory_region sb)" "tx_ok sb W"
  using dtab.stored_tx_ok [OF assms(1)] assms(2) unfolding image_writes_Inr_iff by - (elim exE conjE, simp)+

lemma tx_ok_append [simp]: "tx_ok sb (ws @ ws') \<longleftrightarrow> tx_ok sb ws \<and> tx_ok sb ws'"
  by (auto simp: tx_ok_def)

lemma tx_ok_Nil [simp]: "tx_ok sb []"
  by (simp add: tx_ok_def)

lemma tx_ok_subset: "tx_ok sb W \<Longrightarrow> set ws \<subseteq> set W \<Longrightarrow> tx_ok sb ws"
  by (auto simp: tx_ok_def)

lemma distinct_regions:
  assumes "sb_ok sb"
  shows "distinct (allocation_region sb @ inode_region sb)"
    and "distinct (inode_region sb @ directory_region sb)"
    and "distinct (allocation_region sb @ inode_region sb @ directory_region sb)"
proof -
  note dis = region_disjoint [OF sb_ok_layout [OF assms]]
  have "set (allocation_region sb) \<inter> set (inode_region sb) = {}" using dis(1) by blast
  moreover have "set (allocation_region sb) \<inter> set (directory_region sb) = {}" using dis(1) by blast
  moreover have "set (inode_region sb) \<inter> set (directory_region sb) = {}" using dis(2) by blast
  ultimately show "distinct (allocation_region sb @ inode_region sb)"
    "distinct (inode_region sb @ directory_region sb)"
    "distinct (allocation_region sb @ inode_region sb @ directory_region sb)"
    unfolding distinct_append set_append using distinct_range_blocks by blast+
qed

lemma data_tx_ok:
  assumes "sb_ok sb" and "list_all (\<lambda>(b, x). b \<in> set (data_region sb) \<and> length x = 4096) ws"
  shows "tx_ok sb ws"
  unfolding tx_ok_def
proof safe
  fix b x assume "(b, x) \<in> set ws"
  then have b: "b \<in> set (data_region sb)" and "length x = 4096" using assms(2) unfolding list_all_iff by auto
  then show "length x = 4096" by simp
  show "home_block sb b" by (rule region_home(4) [OF sb_ok_layout [OF assms(1)] b])
qed

lemma meta_not_data: "sb_ok sb \<Longrightarrow> meta_blocks sb \<inter> set (data_region sb) = {}"
  using region_disjoint(4) [OF sb_ok_layout] unfolding meta_blocks_def by blast

lemma journal_not_meta:
  assumes "sb_ok sb" and "b \<in> set (journal_region sb)"
  shows "b \<notin> insert 0 (meta_blocks sb)"
proof -
  note dis = region_disjoint [OF sb_ok_layout [OF assms(1)], of b]
  have "b \<noteq> 0" using assms(2) zero_not_journal [OF sb_ok_layout [OF assms(1)]] by blast
  moreover have "b \<notin> set (allocation_region sb)" using dis(1) assms(2) by blast
  moreover have "b \<notin> set (inode_region sb)" using dis(2) assms(2) by blast
  moreover have "b \<notin> set (directory_region sb)" using dis(3) assms(2) by blast
  ultimately show ?thesis unfolding meta_blocks_def by blast
qed

lemma meta_regions:
  "set (allocation_region sb) \<subseteq> meta_blocks sb" "set (inode_region sb) \<subseteq> meta_blocks sb"
  "set (directory_region sb) \<subseteq> meta_blocks sb"
  by (auto simp: meta_blocks_def)

context block_dev
begin

lemma reads_geometry: "reads at sb P (check_geometry D sb) (\<lambda>_. Inr ())"
  by (auto simp: reads_def check_geometry_def wp_simps dev_at_def)

lemma stage_implements:
  assumes "sb_ok sb" and syncs and "renders (total_blocks sb) stores enc"
    and regions: "\<And>W. enc = Inr W \<Longrightarrow> fst ` set W = set (concat (map range_blocks rs)) \<and> tx_ok sb W"
    and "distinct (concat (map range_blocks rs))" and "set (concat (map range_blocks rs)) \<subseteq> meta_blocks sb"
    and extra: "list_all (\<lambda>(b, x). b \<in> set (data_region sb) \<and> length x = 4096) extra" "distinct (map fst extra)"
    and touch: "\<And>fs. P fs \<Longrightarrow> fs_typed sb fs \<Longrightarrow> fst ` set extra \<subseteq> touched sb fs (upd fs)"
    and upd: "\<And>v fs W. enc = Inr W \<Longrightarrow> P fs \<Longrightarrow> mounted sb v fs \<Longrightarrow>
      mounted sb (apply_writes extra (apply_writes W v id) id) (upd fs)"
    and "recover = recover_journal \<or> recover = recover_journal_and_checkpoint"
    and "k = publish D sb recover \<or> k = commit D sb recover"
  shows "implements at faulty sb P (\<lambda>_. ()) (io_bind (stage D sb stores rs) (\<lambda>ws. k (ws @ extra)))
    (\<lambda>fs. bindR enc (\<lambda>_. Inr ((), upd fs)))"
  unfolding implements_def wp_bind
proof (intro allI impI, goal_cases)
  case (1 v u d fs)
  show ?case
  proof (rule wp_mono [OF stage_wp [OF 1(1) assms(3) regions assms(5) sb_ok_layout [OF assms(1)]]], goal_cases)
    case (2 ws d1)
    then obtain W where W: "enc = Inr W" "set ws \<subseteq> set W" "distinct (map fst ws)"
      "apply_writes ws v id = apply_writes W v id"
      and d1: "at (total_blocks sb) v u d1" by blast
    have meta: "fst ` set ws \<subseteq> meta_blocks sb" using W(2) regions [OF W(1)] assms(6) by blast
    have data: "fst ` set extra \<subseteq> set (data_region sb)" using extra(1) by (auto simp: list_all_iff)
    have ok: "tx_ok sb (ws @ extra)"
      using tx_ok_subset [OF _ W(2)] regions [OF W(1)] data_tx_ok [OF assms(1) extra(1)] by simp
    have "fst ` set ws \<inter> fst ` set extra = {}"
      using meta data meta_not_data [OF assms(1)] by blast
    then have dist: "distinct (map fst (ws @ extra))" using W(3) extra(2) by simp
    have sub: "fst ` set (ws @ extra) \<subseteq> touched sb fs (upd fs)"
      using meta touch [OF 1(4) mounted_typed [OF 1(3)]] by (auto simp: touched_def)
    have new: "mounted sb (apply_writes (ws @ extra) v id) (upd fs)"
      using upd [OF W(1) 1(4,3)] by (simp add: apply_writes_append W(4))
    have m: "k (ws @ extra) = publish D sb recover (ws @ extra) \<or>
        k (ws @ extra) = commit D sb recover (ws @ extra)" using assms(12) by blast
    have spec: "bindR enc (\<lambda>_. Inr ((), upd fs)) = Inr ((), upd fs)" by (simp add: W(1))
    show ?case
      unfolding spec
      by (rule wp_mono [OF commit_implements [OF assms(1,2) d1 1(2) ok 1(3) new dist sub assms(11) m]]) auto
  qed auto
qed

lemma implements_put_inodes:
  assumes "sb_ok sb" and syncs
  shows "implements at faulty sb P (\<lambda>_. ()) (store_inode_table_journaled D sb xs) (put_inodes sb xs)"
proof -
  have "implements at faulty sb (\<lambda>fs. P fs \<and> Inr () = Inr x) (\<lambda>_. ())
      (io_bind (stage D sb (store_inode_table capture_ops sb xs) [inode_range sb])
         (\<lambda>ws. commit D sb recover_journal (ws @ [])))
      (\<lambda>fs. bindR (inode_writes sb xs) (\<lambda>_. Inr ((), fs\<lparr>fs_inodes := xs\<rparr>)))" for x
    by (rule stage_implements [OF assms renders_tables(2) [OF assms(1)]])
      (use inode_writes_region [OF assms(1)] mounted_store_inodes [OF assms(1)] in
        \<open>auto simp: image_writes_Inr_iff meta_regions simp del: range_blocks.simps\<close>)
  from implements_bind [OF reads_geometry this]
  show ?thesis by (simp add: store_inode_table_journaled_def put_inodes_def [abs_def])
qed

lemma implements_put_entries:
  assumes "sb_ok sb" and syncs
  shows "implements at faulty sb P (\<lambda>_. ()) (store_directory_table_journaled D sb es) (put_entries sb es)"
proof -
  have "implements at faulty sb (\<lambda>fs. P fs \<and> Inr () = Inr x) (\<lambda>_. ())
      (io_bind (stage D sb (store_directory_table capture_ops sb es) [directory_range sb])
         (\<lambda>ws. commit D sb recover_journal (ws @ [])))
      (\<lambda>fs. bindR (entry_writes sb es) (\<lambda>_. Inr ((), fs\<lparr>fs_entries := es\<rparr>)))" for x
    by (rule stage_implements [OF assms renders_tables(3) [OF assms(1)]])
      (use entry_writes_region [OF assms(1)] mounted_store_entries [OF assms(1)] in
        \<open>auto simp: image_writes_Inr_iff meta_regions simp del: range_blocks.simps\<close>)
  from implements_bind [OF reads_geometry this]
  show ?thesis by (simp add: store_directory_table_journaled_def put_entries_def [abs_def])
qed

lemma implements_put_inodes_entries:
  assumes "sb_ok sb" and syncs
  shows "implements at faulty sb P (\<lambda>_. ()) (store_inode_directory_tables_journaled D sb xs es)
    (put_inodes_entries sb xs es)"
proof -
  note regions = inode_writes_region [OF assms(1)] entry_writes_region [OF assms(1)]
  let ?enc = "bindR (inode_writes sb xs) (\<lambda>w1. bindR (entry_writes sb es) (\<lambda>w2. Inr (w1 @ w2)))"
  have new: "mounted sb (apply_writes W v id) (fs\<lparr>fs_inodes := xs, fs_entries := es\<rparr>)"
    if "?enc = Inr W" "mounted sb v fs" for W v fs
    using that mounted_store_entries [OF assms(1) mounted_store_inodes [OF assms(1)]]
    by (auto simp: bindR_Inr_iff image_writes_Inr_iff apply_writes_append)
  have reg: "fst ` set W = set (concat (map range_blocks [inode_range sb, directory_range sb])) \<and> tx_ok sb W"
    if enc: "?enc = Inr W" for W
  proof -
    obtain w1 w2 where "inode_writes sb xs = Inr w1" "entry_writes sb es = Inr w2" "W = w1 @ w2"
      using enc by (auto simp: bindR_Inr_iff)
    with regions show ?thesis by (simp add: image_Un)
  qed
  have "implements at faulty sb (\<lambda>fs. P fs \<and> Inr () = Inr x) (\<lambda>_. ())
      (io_bind (stage D sb (io_bind (store_inode_table capture_ops sb xs)
          (\<lambda>_. store_directory_table capture_ops sb es)) [inode_range sb, directory_range sb])
         (\<lambda>ws. commit D sb recover_journal (ws @ [])))
      (\<lambda>fs. bindR ?enc (\<lambda>_. Inr ((), fs\<lparr>fs_inodes := xs, fs_entries := es\<rparr>)))" for x
    by (rule stage_implements [OF assms renders_seq [OF renders_tables(2,3) [OF assms(1)]] reg,
        where recover = recover_journal])
      (use distinct_regions(2) [OF assms(1)] new in \<open>simp_all add: meta_regions del: range_blocks.simps\<close>)
  moreover have "bindR ?enc (\<lambda>_. Inr ((), fs\<lparr>fs_inodes := xs, fs_entries := es\<rparr>)) = put_inodes_entries sb xs es fs"
    for fs
    by (cases "inode_encode_image sb xs"; cases "directory_encode_image sb es")
      (simp_all add: image_writes_def put_inodes_entries_def)
  ultimately have "implements at faulty sb (\<lambda>fs. P fs \<and> Inr () = Inr x) (\<lambda>_. ())
      (io_bind (stage D sb (io_bind (store_inode_table capture_ops sb xs)
          (\<lambda>_. store_directory_table capture_ops sb es)) [inode_range sb, directory_range sb])
         (commit D sb recover_journal)) (put_inodes_entries sb xs es)" for x by simp
  from implements_bind [OF reads_geometry this]
  show ?thesis by (simp add: store_inode_directory_tables_journaled_def)
qed

lemma implements_put_tables:
  assumes "sb_ok sb" and syncs and "alloc_inv a"
  shows "implements at faulty sb P (\<lambda>_. ()) (store_create_metadata_journaled D sb a xs es)
    (put_tables sb a xs es)"
proof -
  note regions = alloc_writes_region [OF assms(1)] inode_writes_region [OF assms(1)]
    entry_writes_region [OF assms(1)]
  let ?enc2 = "bindR (inode_writes sb xs) (\<lambda>w1. bindR (entry_writes sb es) (\<lambda>w2. Inr (w1 @ w2)))"
  let ?enc = "bindR (alloc_writes sb a) (\<lambda>w1. bindR ?enc2 (\<lambda>w2. Inr (w1 @ w2)))"
  let ?stage = "stage D sb (io_bind (store_allocator capture_ops sb a) (\<lambda>_.
      io_bind (store_inode_table capture_ops sb xs) (\<lambda>_. store_directory_table capture_ops sb es)))
      [allocation_range sb, inode_range sb, directory_range sb]"
  have new: "mounted sb (apply_writes W v id) (fs\<lparr>fs_alloc := a, fs_inodes := xs, fs_entries := es\<rparr>)"
    if "?enc = Inr W" "mounted sb v fs" for W v fs
    using that mounted_store_entries [OF assms(1) mounted_store_inodes [OF assms(1)
        mounted_store_alloc [OF assms(1) _ assms(3)]]]
    by (auto simp: bindR_Inr_iff image_writes_Inr_iff apply_writes_append)
  have reg: "fst ` set W =
      set (concat (map range_blocks [allocation_range sb, inode_range sb, directory_range sb])) \<and> tx_ok sb W"
    if enc: "?enc = Inr W" for W
  proof -
    obtain w1 w2 w3 where "alloc_writes sb a = Inr w1" "inode_writes sb xs = Inr w2"
      "entry_writes sb es = Inr w3" "W = w1 @ w2 @ w3"
      using enc by (auto simp: bindR_Inr_iff)
    with regions show ?thesis by (simp add: image_Un)
  qed
  have "implements at faulty sb (\<lambda>fs. P fs \<and> Inr () = Inr x) (\<lambda>_. ())
      (io_bind ?stage (\<lambda>ws. commit D sb recover_journal_and_checkpoint (ws @ [])))
      (\<lambda>fs. bindR ?enc (\<lambda>_. Inr ((), fs\<lparr>fs_alloc := a, fs_inodes := xs, fs_entries := es\<rparr>)))" for x
    by (rule stage_implements [OF assms(1,2) renders_seq [OF renders_tables(1) [OF assms(1)]
          renders_seq [OF renders_tables(2,3) [OF assms(1)]]] reg, where recover = recover_journal_and_checkpoint])
      (use distinct_regions(3) [OF assms(1)] new in \<open>simp_all add: meta_regions del: range_blocks.simps\<close>)
  moreover have "bindR ?enc (\<lambda>_. Inr ((), fs\<lparr>fs_alloc := a, fs_inodes := xs, fs_entries := es\<rparr>)) =
      put_tables sb a xs es fs" for fs
    by (cases "encode_allocator sb a"; cases "inode_encode_image sb xs"; cases "directory_encode_image sb es")
      (simp_all add: image_writes_def put_tables_def)
  ultimately have "implements at faulty sb (\<lambda>fs. P fs \<and> Inr () = Inr x) (\<lambda>_. ())
      (io_bind ?stage (commit D sb recover_journal_and_checkpoint)) (put_tables sb a xs es)" for x by simp
  from implements_bind [OF reads_geometry this]
  show ?thesis by (simp add: store_create_metadata_journaled_def)
qed

lemma take_rendered_range_eq:
  assumes "fst ` set W = set (range_blocks r)" and "rendered cap = apply_writes W Map.empty Some"
  shows "\<exists>cap' ws. take_rendered_range r cap = Inr (cap', ws) \<and> ensure_empty cap' = Inr () \<and>
    map fst ws = range_blocks r \<and> set ws \<subseteq> set W \<and> apply_writes ws v id = apply_writes W v id"
proof -
  let ?f = "\<lambda>b. the (rendered cap b)"
  let ?I = "\<lambda>bs (cap', ws). ws = map (\<lambda>b. (b, ?f b)) bs \<and> rendered cap' = (rendered cap) |` (- set bs)"
  have f: "rendered cap b = Some (?f b) \<and> (b, ?f b) \<in> set W" if "b \<in> set (range_blocks r)" for b
    using rendered_dom [of b W Map.empty] that assms by auto
  have none: "rendered cap b = None" if "b \<notin> set (range_blocks r)" for b
    using that assms by (simp add: apply_writes_other)
  have "\<exists>s. take_rendered_range r cap = Inr s \<and> ?I (range_blocks r) s"
    unfolding take_rendered_range_def
  proof (rule iterR_inv [where I = ?I])
    show "?I [] (cap, [])" by (simp add: restrict_map_def)
  next
    fix pre b post s assume split: "range_blocks r = pre @ b # post" and I: "?I pre s"
    obtain cap1 ws1 where s: "s = (cap1, ws1)" by (cases s)
    have "b \<notin> set pre" using distinct_range_blocks [of r] split by auto
    then have "rendered cap1 b = Some (?f b)" using I s f [of b] split by simp
    then have step: "take_rendered_block b cap1 =
        Inr (?f b, cap1\<lparr>cap_blocks := Mapping.delete b (cap_blocks cap1)\<rparr>)"
      by (simp add: take_rendered_block_def)
    moreover have "Mapping.lookup (Mapping.delete b (cap_blocks cap1)) = rendered cap |` (- set (pre @ [b]))"
      using I s by (auto simp: lookup_delete_eq fun_eq_iff restrict_map_def)
    ultimately show "\<exists>s'. (case s of (cap, ws) \<Rightarrow>
          bindR (take_rendered_block b cap) (\<lambda>(data, cap'). Inr (cap', ws @ [(b, data)]))) = Inr s' \<and>
        ?I (pre @ [b]) s'"
      using I s by simp
  qed
  then obtain cap' ws where s: "take_rendered_range r cap = Inr (cap', ws)" "ws = map (\<lambda>b. (b, ?f b)) (range_blocks r)"
    "rendered cap' = (rendered cap) |` (- set (range_blocks r))" by auto
  have "rendered cap' b = None" for b
    using s(3) none [of b] by (cases "b \<in> set (range_blocks r)") (simp_all add: restrict_map_def)
  then have "ensure_empty cap' = Inr ()"
    by (auto simp: ensure_empty_def Mapping.is_empty_def keys_dom_lookup)
  moreover have "apply_writes ws v id b = apply_writes W v id b" for b
  proof (cases "b \<in> set (range_blocks r)")
    case True
    then have "(b, ?f b) \<in> set ws" "distinct (map fst ws)" by (auto simp: s(2) comp_def)
    then show ?thesis
      using apply_writes_distinct [of ws b "?f b" v id] apply_writes_rendered [of W v b] f [OF True] assms(2)
      by (cases "rendered cap b") auto
  next
    case False
    then show ?thesis using assms(1) by (auto simp: s(2) apply_writes_other image_image)
  qed
  moreover have "set ws \<subseteq> set W" "map fst ws = range_blocks r" using f by (auto simp: s(2) comp_def)
  ultimately show ?thesis using s(1) by blast
qed

lemma implements_put_alloc:
  assumes "sb_ok sb" and syncs and "alloc_inv a"
  shows "implements at faulty sb P (\<lambda>_. ()) (store_allocator_journaled D sb a) (put_alloc sb a)"
  unfolding implements_def
proof (intro allI impI, goal_cases)
  case (1 v u d fs)
  let ?n = "total_blocks sb"
  have geo: "check_geometry D sb d = (Inr (), d)"
    using 1(1) by (simp add: check_geometry_def io_look_def dev_at_def)
  have count: "cap_block_count (capture_new ?n) = ?n" by (simp add: capture_new_def)
  note r = renders_tables(1) [OF assms(1), unfolded renders_def, rule_format, OF count, unfolded wp_def]
  show ?case
  proof (cases "encode_allocator sb a")
    case (Inl e)
    then have "render sb (store_allocator capture_ops sb a) = Inl e"
      using r [of a] by (auto simp: render_def image_writes_def split: prod.splits sum.splits)
    then show ?thesis
      using 1(1) Inl geo by (simp add: store_allocator_journaled_def put_alloc_def wp_def io_simps)
  next
    case (Inr img)
    let ?W = "region_writes (allocation_region sb) img"
    have W: "alloc_writes sb a = Inr ?W" using Inr by (simp add: image_writes_def)
    then obtain cap where cap: "render sb (store_allocator capture_ops sb a) = Inr cap"
      "rendered cap = apply_writes ?W Map.empty Some"
      using r [of a] by (auto simp: render_def split: prod.splits sum.splits)
    obtain cap' ws where ws: "take_rendered_range (allocation_range sb) cap = Inr (cap', ws)"
      "ensure_empty cap' = Inr ()" "map fst ws = allocation_region sb" "set ws \<subseteq> set ?W"
      "apply_writes ws v id = apply_writes ?W v id"
      using take_rendered_range_eq [OF alloc_writes_region(1) [OF assms(1) W] cap(2)] by blast
    have "length ws = unat (allocation_blocks sb)"
      using arg_cong [OF ws(3), of length] region_lengths(2) [OF sb_ok_layout [OF assms(1)]] by simp
    then have op: "store_allocator_journaled D sb a d = publish D sb recover_journal ws d"
      using geo cap(1) ws(1,2)
      by (simp add: store_allocator_journaled_def publish_def io_bind_def [of "check_geometry D sb"])
    have ok: "tx_ok sb ws" by (rule tx_ok_subset [OF alloc_writes_region(2) [OF assms(1) W] ws(4)])
    have new: "mounted sb (apply_writes ws v id) (fs\<lparr>fs_alloc := a\<rparr>)"
      unfolding ws(5) by (rule mounted_store_alloc [OF assms(1) 1(3) assms(3) Inr])
    have dist: "distinct (map fst ws)" by (simp add: ws(3))
    have "fst ` set ws = set (allocation_region sb)" using arg_cong [OF ws(3), of set] by simp
    then have sub: "fst ` set ws \<subseteq> touched sb fs (fs\<lparr>fs_alloc := a\<rparr>)"
      using meta_regions(1) [of sb] by (auto simp: touched_def)
    have spec: "put_alloc sb a fs = Inr ((), fs\<lparr>fs_alloc := a\<rparr>)" by (simp add: put_alloc_def Inr)
    show ?thesis
      unfolding spec wp_same [where m = "store_allocator_journaled D sb a" and m' = "publish D sb recover_journal ws", OF op]
      by (rule wp_mono [OF commit_implements [OF assms(1,2) 1(1,2) ok 1(3) new dist sub,
            where recover = recover_journal]]) auto
  qed
qed

end

lemma crash_safe_metadata:
  assumes "sb_ok sb"
  shows "alloc_inv a \<Longrightarrow> crash_safe sb P (\<lambda>_. ()) (store_allocator_journaled crash_ops sb a) (put_alloc sb a)"
    and "crash_safe sb P (\<lambda>_. ()) (store_inode_table_journaled crash_ops sb xs) (put_inodes sb xs)"
    and "crash_safe sb P (\<lambda>_. ()) (store_directory_table_journaled crash_ops sb es) (put_entries sb es)"
    and "crash_safe sb P (\<lambda>_. ()) (store_inode_directory_tables_journaled crash_ops sb xs es)
      (put_inodes_entries sb xs es)"
    and "alloc_inv a \<Longrightarrow>
      crash_safe sb P (\<lambda>_. ()) (store_create_metadata_journaled crash_ops sb a xs es) (put_tables sb a xs es)"
  using assms unfolding crash_safe_def
  by (simp_all add: crash_dev.implements_put_alloc calm_dev.implements_put_alloc
      crash_dev.implements_put_inodes calm_dev.implements_put_inodes
      crash_dev.implements_put_entries calm_dev.implements_put_entries
      crash_dev.implements_put_inodes_entries calm_dev.implements_put_inodes_entries
      crash_dev.implements_put_tables calm_dev.implements_put_tables)

end
