(* ===== verification/FS_Format_Device.thy ===== *)
theory FS_Format_Device
  imports FS_Metadata_Tx
begin

text \<open>
  Formatting a device and reading its superblock back: \<^verbatim>\<open>format_device\<close> and
  \<^verbatim>\<open>read_superblock\<close> of \<^verbatim>\<open>format.rs\<close>, and \<^verbatim>\<open>format_geometry.rs\<close>. A formatted
  device holds the empty file system; formatting is all or nothing with respect to the durable
  contents, and it does not touch the journal region.
\<close>

section \<open>The operations\<close>

text \<open>What the two formatting functions do once they have a superblock.\<close>

definition format_layout :: "'d block_device \<Rightarrow> superblock \<Rightarrow> ('d, superblock) io" where
  "format_layout D sb =
     io_bind (initialize_allocation_region D sb) (\<lambda>_.
     io_bind (initialize_inode_table_region D sb) (\<lambda>_.
     io_bind (initialize_directory_table_region D sb) (\<lambda>_.
     io_bind (write_block D SUPERBLOCK_BLOCK (superblock_encode sb)) (\<lambda>_.
     io_bind (flush D) (\<lambda>_. io_return sb)))))"

definition format_device :: "'d block_device \<Rightarrow> ('d, superblock) io" where
  "format_device D =
     io_bind (io_look (\<lambda>d. superblock_new (block_count D d))) (format_layout D)"

definition format_device_with_journal_blocks :: "'d block_device \<Rightarrow> u64 \<Rightarrow> ('d, superblock) io" where
  "format_device_with_journal_blocks D journal =
     io_bind (io_look (\<lambda>d. with_journal_blocks (block_count D d) journal)) (format_layout D)"

definition read_superblock :: "'d block_device \<Rightarrow> ('d, superblock) io" where
  "read_superblock D =
     io_bind (read_block D SUPERBLOCK_BLOCK) (\<lambda>block.
     io_bind (io_lift (superblock_decode block)) (\<lambda>sb.
     io_look (\<lambda>d. if total_blocks sb \<noteq> block_count D d then Inl InvalidData else Inr sb)))"

lemma format_eqs:
  "format_device D d =
     (case superblock_new (block_count D d) of Inl e \<Rightarrow> (Inl e, d) | Inr sb \<Rightarrow> format_layout D sb d)"
  "format_device_with_journal_blocks D j d =
     (case with_journal_blocks (block_count D d) j of Inl e \<Rightarrow> (Inl e, d) | Inr sb \<Rightarrow> format_layout D sb d)"
  by (simp_all add: format_device_def format_device_with_journal_blocks_def io_bind_def io_look_def)

section \<open>The empty file system\<close>

definition empty_allocator :: "superblock \<Rightarrow> block_allocator" where
  "empty_allocator sb =
     \<lparr>al_total_blocks = total_blocks sb, al_reserved_blocks = reserved_blocks sb,
      al_allocated = replicate (unat (total_blocks sb)) False, al_allocated_blocks = 0\<rparr>"

lemma empty_allocator_new:
  assumes "sb_ok sb"
  shows "allocator_new (total_blocks sb) (reserved_blocks sb) = Inr (empty_allocator sb)"
    and "alloc_inv (empty_allocator sb)" and "owned (empty_allocator sb) = {}"
    and "alloc_fits sb (empty_allocator sb)"
proof -
  show new: "allocator_new (total_blocks sb) (reserved_blocks sb) = Inr (empty_allocator sb)"
    using reserved_le_total [OF assms] by (simp add: allocator_new_def empty_allocator_def word_le_nat_alt not_less)
  show "alloc_inv (empty_allocator sb)" "owned (empty_allocator sb) = {}"
    using allocator_new_inv [OF new] by simp_all
  show "alloc_fits sb (empty_allocator sb)" by (simp add: alloc_fits_def empty_allocator_def)
qed

definition empty_fs :: "superblock \<Rightarrow> (u64 \<Rightarrow> bytes) \<Rightarrow> fs_state" where
  "empty_fs sb v =
     \<lparr>fs_alloc = empty_allocator sb, fs_inodes = [], fs_entries = [],
      fs_data = (\<lambda>b. if b \<in> set (data_region sb) then v b else [])\<rparr>"

text \<open>The allocation image that formatting writes is that of the empty allocator.\<close>

lemma initial_allocation_image:
  assumes "sb_ok sb"
  shows "bindR (bitmap_len sb) (\<lambda>n. alloc_encode_image sb (replicate n 0)) =
    encode_allocator sb (empty_allocator sb)"
proof -
  let ?bm = "replicate (bitmap_size sb) (0 :: 8 word)"
  have clear: "\<not> bm_bit ?bm i" if "i < 8 * bitmap_size sb" for i
  proof -
    have "i div 8 < bitmap_size sb" using that by simp
    then show ?thesis by (simp add: bm_bit_def)
  qed
  then have ok: "bitmap_ok sb ?bm" by (simp add: bitmap_ok_def)
  have "bitmap_for sb (empty_allocator sb) ?bm"
    using clear by (simp add: bitmap_for_def empty_allocator_def)
  then have "encode_allocator sb (empty_allocator sb) = Inr (alloc_bytes sb ?bm)"
    using empty_allocator_new [OF assms] by (subst encode_allocator_eq [OF assms]) auto
  moreover have "alloc_encode_image sb ?bm = Inr (alloc_bytes sb ?bm)"
    using ok by (simp add: alloc_encode_image_iff [OF assms])
  ultimately show ?thesis by (simp add: bitmap_size_bounds(4) [OF assms])
qed

definition format_writes :: "superblock \<Rightarrow> writes res" where
  "format_writes sb =
     bindR (alloc_writes sb (empty_allocator sb)) (\<lambda>w1. bindR (inode_writes sb []) (\<lambda>w2.
     bindR (entry_writes sb []) (\<lambda>w3. Inr (w1 @ w2 @ w3 @ [(0, superblock_encode sb)]))))"

lemma empty_tables_fit:
  assumes "sb_ok sb"
  shows "inode_fits sb []" and "directory_fits sb []"
proof -
  have "0 < unat (inode_blocks sb)" "0 < unat (directory_blocks sb)"
    using sb_ok_layout [OF assms] by (simp_all add: sb_layout_def unat_gt_0)
  then show "inode_fits sb []" "directory_fits sb []"
    by (simp_all add: inode_fits_def directory_fits_def)
qed

lemma format_writes_ok:
  assumes "sb_ok sb"
  obtains ws where "format_writes sb = Inr ws"
    and "list_all (\<lambda>(b, x). b < total_blocks sb) ws" and "\<forall>(b, x) \<in> set ws. length x = BLOCK_SIZE"
    and "fst ` set ws = insert 0 (meta_blocks sb)"
proof -
  obtain i1 where "encode_allocator sb (empty_allocator sb) = Inr i1"
    using encode_allocator_fits [OF assms empty_allocator_new(2) [OF assms]] empty_allocator_new(4) [OF assms]
    by (auto simp: is_ok_iff)
  then obtain w1 where w1: "alloc_writes sb (empty_allocator sb) = Inr w1" by (simp add: image_writes_def)
  obtain i2 i3 where "inode_encode_image sb [] = Inr i2" "directory_encode_image sb [] = Inr i3"
    using inode_encode_fits [OF assms, of "[]"] directory_encode_fits [OF assms, of "[]"]
      empty_tables_fit [OF assms] by (auto simp: is_ok_iff)
  then obtain w2 w3 where w2: "inode_writes sb [] = Inr w2" and w3: "entry_writes sb [] = Inr w3"
    by (simp add: image_writes_def)
  note ok = alloc_writes_region [OF assms w1] inode_writes_region [OF assms w2] entry_writes_region [OF assms w3]
  let ?ws = "w1 @ w2 @ w3 @ [(0, superblock_encode sb)]"
  have tx: "tx_ok sb (w1 @ w2 @ w3)" using ok by simp
  have "0 < unat (total_blocks sb)"
    using sb_layout_unat(8,9) [OF sb_ok_layout [OF assms]] by linarith
  then have "list_all (\<lambda>(b, x). b < total_blocks sb) ?ws" "\<forall>(b, x) \<in> set ?ws. length x = BLOCK_SIZE"
    using tx home_block_not_journal [OF sb_ok_layout [OF assms]]
    by (auto simp: tx_ok_def list_all_iff word_less_nat_alt)
  moreover have "fst ` set ?ws = insert 0 (meta_blocks sb)"
    using ok unfolding meta_blocks_def by (simp add: image_Un Un_assoc)
  moreover have "format_writes sb = Inr ?ws" by (simp add: format_writes_def w1 w2 w3)
  ultimately show thesis using that by blast
qed

lemma formatted_mounted:
  assumes "sb_ok sb" and "\<And>b. b < total_blocks sb \<Longrightarrow> length (v b) = 4096"
    and "format_writes sb = Inr ws"
  shows "mounted sb (apply_writes ws v id) (empty_fs sb v)"
proof -
  note dis = region_disjoint [OF sb_ok_layout [OF assms(1)]]
  obtain i1 i2 i3 where i: "encode_allocator sb (empty_allocator sb) = Inr i1" "inode_encode_image sb [] = Inr i2"
    "directory_encode_image sb [] = Inr i3"
    and ws: "ws = region_writes (allocation_region sb) i1 @ region_writes (inode_region sb) i2 @
      region_writes (directory_region sb) i3 @ [(0, superblock_encode sb)]"
    using assms(3) by (auto simp: format_writes_def bindR_Inr_iff image_writes_Inr_iff)
  let ?v1 = "apply_writes (region_writes (allocation_region sb) i1) v id"
  let ?v2 = "apply_writes (region_writes (inode_region sb) i2) ?v1 id"
  let ?v3 = "apply_writes (region_writes (directory_region sb) i3) ?v2 id"
  have w: "apply_writes ws v id = ?v3(0 := superblock_encode sb)" by (simp add: ws apply_writes_append)
  show ?thesis
    unfolding w
  proof (rule mountedI [OF assms(1)])
    show "superblock_decode ((?v3(0 := superblock_encode sb)) 0) = Inr sb"
      using superblock_decode_encode [OF sb_ok_layout [OF assms(1)]] by simp
    have "allocator_of sb (?v3(0 := superblock_encode sb)) = allocator_of sb ?v1"
      by (rule allocator_of_cong) (metis apply_region_other dis(1) fun_upd_other)
    then show "allocator_of sb (?v3(0 := superblock_encode sb)) = Inr (fs_alloc (empty_fs sb v))"
      using allocator_of_stored [OF assms(1) empty_allocator_new(2) [OF assms(1)] i(1)] by (simp add: empty_fs_def)
    have "inodes_of sb (?v3(0 := superblock_encode sb)) = inodes_of sb ?v2"
      by (rule inodes_of_cong) (metis apply_region_other dis(2) fun_upd_other)
    then show "inodes_of sb (?v3(0 := superblock_encode sb)) = Inr (fs_inodes (empty_fs sb v))"
      using inodes_of_stored [OF assms(1) i(2)] by (simp add: empty_fs_def)
    have "entries_of sb (?v3(0 := superblock_encode sb)) = entries_of sb ?v3"
      by (rule entries_of_cong) (metis dis(3) fun_upd_other)
    then show "entries_of sb (?v3(0 := superblock_encode sb)) = Inr (fs_entries (empty_fs sb v))"
      using entries_of_stored [OF assms(1) i(3)] by (simp add: empty_fs_def)
    have "(?v3(0 := superblock_encode sb)) b = v b" if "b \<in> set (data_region sb)" for b
      by (metis apply_region_other dis(4) fun_upd_other that)
    then show "fs_data (empty_fs sb v) =
        (\<lambda>b. if b \<in> set (data_region sb) then (?v3(0 := superblock_encode sb)) b else [])"
      by (auto simp: empty_fs_def fun_eq_iff simp del: range_blocks.simps)
    fix b assume b: "b < total_blocks sb"
    obtain ws' where "format_writes sb = Inr ws'" "\<forall>(b, x) \<in> set ws'. length x = BLOCK_SIZE"
      using format_writes_ok [OF assms(1)] by metis
    then have len: "\<forall>(b, x) \<in> set ws. length x = 4096" using assms(3) by simp
    show "length ((?v3(0 := superblock_encode sb)) b) = 4096"
    proof (cases "b \<in> fst ` set ws")
      case True
      then have "(\<exists>x. apply_writes ws Map.empty Some b = Some x \<and> (b, x) \<in> set ws)"
        by (simp only: rendered_dom [of b ws Map.empty])
      then show ?thesis using len unfolding w [symmetric] apply_writes_rendered [of ws v b] by auto
    next
      case False
      then show ?thesis unfolding w [symmetric] using assms(2) [OF b] by (simp add: apply_writes_other)
    qed
  qed
qed

lemma sb_ok_nonempty:
  assumes "sb_ok sb"
  shows "0 < total_blocks sb"
  using sb_layout_unat(8,9) [OF sb_ok_layout [OF assms]] by (simp add: word_less_nat_alt)

section \<open>On a device\<close>

context block_dev
begin

lemma init_region_wp:
  assumes "at n v u d" and "guard d = Inr ()" and "rlen = Inr (length blocks * 4096)"
    and "length blocks * 4096 < 2 ^ 64" and "list_all (\<lambda>b. b < n) blocks"
    and "length img = length blocks * 4096"
  shows "wp (io_bind (io_look guard) (\<lambda>_. io_bind (io_lift (Inr img)) (\<lambda>img. region_write D blocks rlen img)))
    (\<lambda>_ d'. at n (apply_writes (region_writes blocks img) v id) u d')
    (\<lambda>_ d'. faulty \<and> (\<exists>v'. at n v' u d')) d"
proof -
  let ?ws = "region_writes blocks img"
  have "b \<in> set blocks" if "(b, x) \<in> set ?ws" for b x
    using that region_writes_blocks [of blocks img] by (metis fst_conv image_eqI)
  then have inside: "list_all (\<lambda>(b, x). b < n) ?ws" using assms(5) by (auto simp: list_all_iff)
  have "\<forall>(b, x) \<in> set ?ws. length x = BLOCK_SIZE" using region_writes_lengths [OF assms(6)] by auto
  from write_all_wp [OF assms(1) this] inside
  have "wp (write_all D ?ws) (\<lambda>_ d'. at n (apply_writes ?ws v id) u d')
      (\<lambda>_ d'. faulty \<and> (\<exists>v'. at n v' u d')) d"
    by (auto elim!: wp_mono)
  then show ?thesis
    using assms(2) unfolding region_write_eq [OF assms(3,4,6), symmetric] by (simp add: wp_simps)
qed

lemma init_tables_wp:
  assumes "sb_ok sb" and "at (total_blocks sb) v u d"
  shows "encode_allocator sb (empty_allocator sb) = Inr i1 \<Longrightarrow> wp (initialize_allocation_region D sb)
      (\<lambda>_ d'. at (total_blocks sb) (apply_writes (region_writes (allocation_region sb) i1) v id) u d')
      (\<lambda>_ d'. faulty \<and> (\<exists>v'. at (total_blocks sb) v' u d')) d"
    and "inode_encode_image sb [] = Inr i2 \<Longrightarrow> wp (initialize_inode_table_region D sb)
      (\<lambda>_ d'. at (total_blocks sb) (apply_writes (region_writes (inode_region sb) i2) v id) u d')
      (\<lambda>_ d'. faulty \<and> (\<exists>v'. at (total_blocks sb) v' u d')) d"
    and "directory_encode_image sb [] = Inr i3 \<Longrightarrow> wp (initialize_directory_table_region D sb)
      (\<lambda>_ d'. at (total_blocks sb) (apply_writes (region_writes (directory_region sb) i3) v id) u d')
      (\<lambda>_ d'. faulty \<and> (\<exists>v'. at (total_blocks sb) v' u d')) d"
proof -
  have n: "block_count D d = total_blocks sb" using assms(2) by (simp add: dev_at_def)
  show "wp (initialize_allocation_region D sb)
      (\<lambda>_ d'. at (total_blocks sb) (apply_writes (region_writes (allocation_region sb) i1) v id) u d')
      (\<lambda>_ d'. faulty \<and> (\<exists>v'. at (total_blocks sb) v' u d')) d"
    if "encode_allocator sb (empty_allocator sb) = Inr i1"
    unfolding initialize_allocation_region_def alloc_write_region_def initial_allocation_image [OF assms(1)] that
    by (rule init_region_wp [OF assms(2)])
      (fact alloc_geometry_ok [OF n] alloc_region_len_eq [OF assms(1)] atab.blocks_in_device [OF assms(1)] atab.enc_length [OF assms(1) that])+
  show "wp (initialize_inode_table_region D sb)
      (\<lambda>_ d'. at (total_blocks sb) (apply_writes (region_writes (inode_region sb) i2) v id) u d')
      (\<lambda>_ d'. faulty \<and> (\<exists>v'. at (total_blocks sb) v' u d')) d"
    if "inode_encode_image sb [] = Inr i2"
    unfolding initialize_inode_table_region_def inode_write_region_def that
    by (rule init_region_wp [OF assms(2)])
      (fact inode_geometry_ok [OF assms(1) n] inode_region_len_eq [OF assms(1)] itab.blocks_in_device [OF assms(1)] itab.enc_length [OF assms(1) that])+
  show "wp (initialize_directory_table_region D sb)
      (\<lambda>_ d'. at (total_blocks sb) (apply_writes (region_writes (directory_region sb) i3) v id) u d')
      (\<lambda>_ d'. faulty \<and> (\<exists>v'. at (total_blocks sb) v' u d')) d"
    if "directory_encode_image sb [] = Inr i3"
    unfolding initialize_directory_table_region_def directory_write_region_def that
    by (rule init_region_wp [OF assms(2)])
      (fact directory_geometry_ok [OF assms(1) n] directory_region_len_eq [OF assms(1)] dtab.blocks_in_device [OF assms(1)] dtab.enc_length [OF assms(1) that])+
qed

lemma format_layout_wp:
  assumes "sb_ok sb" and "at (total_blocks sb) v u d" and "format_writes sb = Inr ws"
  shows "wp (format_layout D sb)
    (\<lambda>r d'. r = sb \<and> at (total_blocks sb) (apply_writes ws v id) (if syncs then apply_writes ws v id else u) d')
    (\<lambda>_ d'. faulty \<and> (\<exists>v'. at (total_blocks sb) v' u d')) d"
proof -
  obtain i1 i2 i3 where i: "encode_allocator sb (empty_allocator sb) = Inr i1" "inode_encode_image sb [] = Inr i2"
    "directory_encode_image sb [] = Inr i3"
    and ws: "ws = region_writes (allocation_region sb) i1 @ region_writes (inode_region sb) i2 @
      region_writes (directory_region sb) i3 @ [(0, superblock_encode sb)]"
    using assms(3) by (auto simp: format_writes_def bindR_Inr_iff image_writes_Inr_iff)
  have zero: "SUPERBLOCK_BLOCK < total_blocks sb"
    using sb_ok_nonempty [OF assms(1)] by (simp add: SUPERBLOCK_BLOCK_def)
  have len: "length (superblock_encode sb) = BLOCK_SIZE" by simp
  show ?thesis
    unfolding format_layout_def wp_bind wp_return ws apply_writes_append apply_writes_Cons apply_writes_Nil
    by (rule wp_mono [OF init_tables_wp(1) [OF assms(1,2) i(1)]],
        rule wp_mono [OF init_tables_wp(2) [OF assms(1) _ i(2)]], assumption,
        rule wp_mono [OF init_tables_wp(3) [OF assms(1) _ i(3)]], assumption,
        rule wp_mono [OF write_law [OF _ len]], assumption,
        rule wp_mono [OF flush_law], blast)
      (use zero in \<open>auto simp: SUPERBLOCK_BLOCK_def\<close>)
qed

lemma read_superblock_wp:
  assumes "at n v u d" and "0 < n"
  shows "wp (read_superblock D)
    (\<lambda>sb d'. at n v u d' \<and> superblock_decode (v 0) = Inr sb \<and> total_blocks sb = n)
    (\<lambda>e d'. at n v u d' \<and>
       (superblock_decode (v 0) = Inl e \<or>
        e = InvalidData \<and> (\<exists>sb. superblock_decode (v 0) = Inr sb \<and> total_blocks sb \<noteq> n))) d"
  unfolding read_superblock_def wp_bind
  by (rule wp_mono [OF read_law [OF assms(1)]])
    (use assms in \<open>auto simp: wp_simps SUPERBLOCK_BLOCK_def dev_at_def split: sum.splits\<close>)

lemma reads_superblock:
  assumes "sb_ok sb"
  shows "reads at sb P (read_superblock D) (\<lambda>_. Inr sb)"
  unfolding reads_def using sb_ok_nonempty [OF assms]
  by (auto simp: mounted_def intro!: wp_mono [OF read_superblock_wp])

end

section \<open>A formatted device for the concrete instances\<close>

definition disk_superblock :: superblock where
  "disk_superblock =
     \<lparr>total_blocks = 40, journal_start = 1, journal_blocks = 16, allocation_start = 17,
      allocation_blocks = 1, inode_start = 18, inode_blocks = 2, directory_start = 20,
      directory_blocks = 2\<rparr>"

lemma disk_superblock_ok: "sb_ok disk_superblock"
  by (simp add: sb_ok_def sb_layout_def disk_superblock_def required_allocation_blocks_def
      allocation_bitmap_bytes_def checked_add_def ALLOCATION_IMAGE_HEADER_LEN_def)

lemma disk_superblock_layout: "with_journal_blocks 40 16 = Inr disk_superblock"
  using sb_ok_layout [OF disk_superblock_ok]
  by (simp add: with_journal_blocks_def with_all_metadata_blocks_layout DEFAULT_INODE_BLOCKS_def
      DEFAULT_DIRECTORY_BLOCKS_def) (simp add: disk_superblock_def)

definition disk :: crash_device where
  "disk = snd (format_device_with_journal_blocks crash_ops 16 (cd_new 40))"

lemma disk_mounted: "cd_mounted disk_superblock disk (empty_fs disk_superblock (\<lambda>_. zero_block))"
proof -
  let ?sb = disk_superblock and ?v = "cd_view (cd_new 40)"
  obtain ws where ws: "format_writes ?sb = Inr ws" "fst ` set ws = insert 0 (meta_blocks ?sb)"
    using format_writes_ok [OF disk_superblock_ok] by metis
  have n: "total_blocks ?sb = 40" by (simp add: disk_superblock_def)
  have at: "calm_dev.at (total_blocks ?sb) ?v ?v (cd_new 40)" using cd_new_at [of 40] by (simp add: n)
  have "block_count crash_ops (cd_new 40) = 40" using at by (simp add: dev_at_def n)
  then have eq: "format_device_with_journal_blocks crash_ops 16 (cd_new 40) = format_layout crash_ops ?sb (cd_new 40)"
    using disk_superblock_layout by (simp add: format_eqs)
  let ?w = "apply_writes ws ?v id"
  have d: "calm_dev.at (total_blocks ?sb) ?w ?w disk"
    using calm_dev.format_layout_wp [OF disk_superblock_ok at ws(1)] unfolding disk_def eq
    by (auto simp: wp_def split: prod.splits sum.splits)
  have zero: "?v b = zero_block" if "b < total_blocks ?sb" for b
    using that by (simp add: cd_view_def cd_new_def blocks_view_def n word_less_nat_alt)
  have lay: "sb_layout ?sb" by (rule sb_ok_layout [OF disk_superblock_ok])
  have "b \<notin> fst ` set ws" if "b \<in> set (journal_region ?sb)" for b
    using journal_not_meta [OF disk_superblock_ok that] ws(2) by blast
  then have "?w b = zero_block" if "b \<in> set (journal_region ?sb)" for b
    using that region_in_device(1) [OF lay that] zero by (simp add: apply_writes_other)
  then have "region_bytes ?w (journal_region ?sb) = region_bytes (\<lambda>_. zero_block) (journal_region ?sb)"
    by (rule region_bytes_cong)
  then have "journal_of ?sb ?w = Inr []"
    by (simp add: journal_of_def decode_journal_region_def all_zero_region)
  then have "stands ?sb ?w ?w" by (rule stands_refl)
  moreover have "empty_fs ?sb ?v = empty_fs ?sb (\<lambda>_. zero_block)"
    using zero by (auto simp: empty_fs_def fun_eq_iff u64_range_eq_iff)
  moreover have "mounted ?sb ?w (empty_fs ?sb ?v)"
    by (rule formatted_mounted [OF disk_superblock_ok _ ws(1)]) (use zero in simp)
  ultimately show ?thesis using d by (simp add: cd_mounted_def dev_at_def)
qed

section \<open>Properties\<close>

text \<open>C17. Formatting. On a file-backed device with arbitrary contents, both formatting functions
  succeed exactly when the geometry constructor accepts the device size, and then the
  superblock reads back, the allocator loads with no owned block and both tables load empty;
  the result is durable, and only the superblock and the three metadata regions have changed.
  A refused geometry leaves the device as it was.\<close>

theorem format_then_load:
  assumes "fbd_inv dev" and "op dev = (r, dev')"
    and "op = format_device file_device \<and> layout = superblock_new (fbd_blocks dev) \<or>
      op = format_device_with_journal_blocks file_device j \<and> layout = with_journal_blocks (fbd_blocks dev) j"
  shows "case r of
      Inl e \<Rightarrow> layout = Inl e \<and> dev' = dev
    | Inr sb \<Rightarrow> layout = Inr sb \<and> fst (read_superblock file_device dev') = Inr sb \<and>
        fst (load_allocator file_device sb dev') = Inr (empty_allocator sb) \<and>
        fst (load_inode_table file_device sb dev') = Inr [] \<and>
        fst (load_directory_table file_device sb dev') = Inr [] \<and>
        fbd_durable dev' = fbd_view dev' \<and>
        (\<forall>b. b \<noteq> 0 \<and> b \<notin> meta_blocks sb \<longrightarrow> fbd_view dev' b = fbd_view dev b)"
proof -
  have count: "block_count file_device dev = fbd_blocks dev" by (simp add: file_device_def)
  show ?thesis
  proof (cases layout)
    case (Inl e)
    then have "op dev = (Inl e, dev)" using assms(3) by (elim disjE conjE) (simp_all add: format_eqs count)
    then show ?thesis using assms(2) Inl by simp
  next
    case (Inr sb)
    obtain j' i' d' where "with_all_metadata_blocks (fbd_blocks dev) j' i' d' = Inr sb"
      using assms(3) Inr unfolding superblock_new_def with_journal_blocks_def by metis
    then have sb: "sb_layout sb" "total_blocks sb = fbd_blocks dev"
      by (simp_all add: with_all_metadata_blocks_layout)
    then have ok: "sb_ok sb" using assms(1) by (simp add: sb_ok_def fbd_inv_def)
    let ?n = "total_blocks sb"
    have eq: "op dev = format_layout file_device sb dev"
      using assms(3) Inr by (elim disjE conjE) (simp_all add: format_eqs count)
    have at: "file_dev.at ?n (fbd_view dev) (fbd_durable dev) dev"
      using assms(1) sb(2) by (simp add: dev_at_def file_device_def)
    obtain ws where ws: "format_writes sb = Inr ws" "fst ` set ws = insert 0 (meta_blocks sb)"
      using format_writes_ok [OF ok] by metis
    let ?w = "apply_writes ws (fbd_view dev) id"
    have "r = Inr sb" and at': "file_dev.at ?n ?w ?w dev'"
      using file_dev.format_layout_wp [OF ok at ws(1)] assms(2) unfolding eq
      by (auto simp: wp_def split: prod.splits sum.splits)
    moreover have m: "mounted sb ?w (empty_fs sb (fbd_view dev))"
      by (rule formatted_mounted [OF ok _ ws(1)]) (use file_dev.view_length [OF at] in simp)
    moreover have "fst (read_superblock file_device dev') = Inr sb"
      using file_dev.read_superblock_wp [OF at' sb_ok_nonempty [OF ok]] m
      by (auto simp: wp_def mounted_def split: prod.splits sum.splits)
    moreover have "fbd_durable dev' = fbd_view dev'" "\<forall>b. b \<noteq> 0 \<and> b \<notin> meta_blocks sb \<longrightarrow> fbd_view dev' b = fbd_view dev b"
      using at' ws(2) by (simp_all add: dev_at_def apply_writes_other)
    ultimately show ?thesis
      using Inr afile.load_fst [OF ok at'] ifile.load_fst [OF ok at'] dfile.load_fst [OF ok at']
      by (simp add: mounted_def allocator_of_def inodes_of_def entries_of_def empty_fs_def)
  qed
qed

theorem format_then_load_witness:
  "\<exists>dev'. format_device_with_journal_blocks file_device 16 (blank_device 40) = (Inr disk_superblock, dev') \<and>
     fst (read_superblock file_device dev') = Inr disk_superblock \<and>
     fst (load_inode_table file_device disk_superblock dev') = Inr []"
proof -
  obtain r dev' where run: "format_device_with_journal_blocks file_device 16 (blank_device 40) = (r, dev')"
    using prod.exhaust by blast
  have b: "fbd_inv (blank_device 40)" "fbd_blocks (blank_device 40) = 40" using blank_device_at [of 40] by simp_all
  from format_then_load [where op = "format_device_with_journal_blocks file_device 16", OF b(1) run,
      of "with_journal_blocks 40 16" 16] b(2) disk_superblock_layout run
  show ?thesis by (cases r) auto
qed

text \<open>C18. A journal that survives formatting. If the device to be formatted holds a committed journal
  of the same geometry whose transaction wrote an inode table, formatting succeeds and the
  inode table loads empty; the recovery that every mount runs then replays the old transaction
  and brings the old inode table back.\<close>

theorem stale_journal_survives_format:
  assumes "fbd_inv dev" and "superblock_new (fbd_blocks dev) = Inr sb"
    and "fst (load_journal_image file_device sb dev) = Inr (tx_entries 0 ws)"
    and "image_writes (inode_region sb) (inode_encode_image sb xs) = Inr ws"
  shows "\<exists>dev1 dev2 report. format_device file_device dev = (Inr sb, dev1) \<and>
    fst (load_inode_table file_device sb dev1) = Inr [] \<and>
    recover_journal file_device sb dev1 = (Inr report, dev2) \<and>
    fst (load_inode_table file_device sb dev2) = Inr xs"
proof -
  have sb: "sb_layout sb" "total_blocks sb = fbd_blocks dev"
    using assms(2) by (simp_all add: superblock_new_def with_all_metadata_blocks_layout)
  then have ok: "sb_ok sb" using assms(1) by (simp add: sb_ok_def fbd_inv_def)
  let ?n = "total_blocks sb" and ?v = "fbd_view dev"
  have at: "file_dev.at ?n ?v (fbd_durable dev) dev"
    using assms(1) sb(2) by (simp add: dev_at_def file_device_def)
  obtain fw where fw: "format_writes sb = Inr fw" "fst ` set fw = insert 0 (meta_blocks sb)"
    using format_writes_ok [OF ok] by metis
  let ?w = "apply_writes fw ?v id"
  have "block_count file_device dev = fbd_blocks dev" by (simp add: file_device_def)
  then have "format_device file_device dev = format_layout file_device sb dev"
    using assms(2) by (simp add: format_eqs)
  then obtain dev1 where dev1: "format_device file_device dev = (Inr sb, dev1)" "file_dev.at ?n ?w ?w dev1"
    using file_dev.format_layout_wp [OF ok at fw(1)] by (auto simp: wp_def split: prod.splits sum.splits)
  have m: "mounted sb ?w (empty_fs sb ?v)"
    by (rule formatted_mounted [OF ok _ fw(1)]) (use file_dev.view_length [OF at] in simp)
  have "journal_of sb ?w = journal_of sb ?v"
    by (rule journal_of_cong) (metis apply_writes_other fw(2) journal_not_meta ok)
  then have "journal_of sb ?w = Inr (tx_entries 0 ws)" using assms(3) file_dev.load_journal_fst [OF ok at] by simp
  from file_dev.recover_wp [OF ok dev1(2) this] obtain report dev2
    where dev2: "recover_journal file_device sb dev1 = (Inr report, dev2)"
      "file_dev.at ?n (apply_writes ws ?w id) (fbd_durable dev2) dev2"
    by (elim wp_total [OF wp_mono]) (auto simp: replayed_def dev_at_def split: if_splits)
  obtain img where "inode_encode_image sb xs = Inr img" "ws = region_writes (inode_region sb) img"
    using assms(4) by (auto simp: image_writes_Inr_iff)
  then have "inodes_of sb (apply_writes ws ?w id) = Inr xs" using inodes_of_stored [OF ok] by simp
  then show ?thesis
    using dev1(1) dev2(1) ifile.load_fst [OF ok dev1(2)] ifile.load_fst [OF ok dev2(2)] m
    by (simp add: mounted_def inodes_of_def empty_fs_def)
qed

theorem stale_journal_survives_format_witness:
  "\<exists>dev dev1 dev2 report. format_device file_device dev = (Inr demo_superblock, dev1) \<and>
    fst (load_inode_table file_device demo_superblock dev1) = Inr [] \<and>
    recover_journal file_device demo_superblock dev1 = (Inr report, dev2) \<and>
    fst (load_inode_table file_device demo_superblock dev2) =
      Inr [\<lparr>pi_id = 1, pi_kind = Directory, pi_blocks = []\<rparr>]"
proof -
  let ?sb = demo_superblock and ?xs = "[\<lparr>pi_id = 1, pi_kind = Directory, pi_blocks = []\<rparr>]"
  note ok = demo_superblock_ok
  have "inode_fits ?sb ?xs"
    by (simp add: inode_fits_def demo_superblock_def length_inode_record inode_ok_def)
  then obtain ws where ws: "inode_writes ?sb ?xs = Inr ws"
    using inode_encode_fits [OF ok, of ?xs] by (auto simp: is_ok_iff image_writes_def)
  note tx = inode_writes_region [OF ok ws]
  have "length ws = 2"
    using ws region_lengths(3) [OF sb_ok_layout [OF ok]]
    by (auto simp: image_writes_Inr_iff region_writes_def demo_superblock_def)
  then have "tx_fits ?sb ws" by (simp add: tx_fits_def journal_capacity_def demo_superblock_def)
  then have fits: "journal_fits ?sb (tx_entries 0 ws)" by (simp add: journal_fits_tx [OF tx(2)])
  have b: "fbd_inv (blank_device 16)" "fbd_blocks (blank_device 16) = total_blocks ?sb"
    using blank_device_at [of 16] by (simp_all add: demo_superblock_def)
  then have at: "file_dev.at (total_blocks ?sb) (fbd_view (blank_device 16)) (fbd_durable (blank_device 16)) (blank_device 16)"
    by (simp add: dev_at_def file_device_def)
  obtain dev where "file_dev.at (total_blocks ?sb)
      (apply_writes (journal_writes ?sb (tx_entries 0 ws)) (fbd_view (blank_device 16)) id) (fbd_durable dev) dev"
    using file_dev.store_journal_wp [OF ok at tx_entries_ok(1) [OF tx(2), of 0]] fits
    by (auto simp: wp_def Let_def dev_at_def split: prod.splits sum.splits)
  then have "fbd_inv dev" "fbd_blocks dev = total_blocks ?sb"
    "fst (load_journal_image file_device ?sb dev) = Inr (tx_entries 0 ws)"
    using file_dev.load_journal_fst [OF ok] journal_of_writes [OF ok fits]
    by (auto simp: dev_at_def file_device_def)
  moreover have "superblock_new (total_blocks ?sb) = Inr ?sb"
    using sb_ok_layout [OF ok]
    by (simp add: superblock_new_def with_all_metadata_blocks_layout)
      (simp add: demo_superblock_def DEFAULT_JOURNAL_BLOCKS_def DEFAULT_INODE_BLOCKS_def DEFAULT_DIRECTORY_BLOCKS_def)
  ultimately have "\<exists>dev1 dev2 report. format_device file_device dev = (Inr ?sb, dev1) \<and>
      fst (load_inode_table file_device ?sb dev1) = Inr [] \<and>
      recover_journal file_device ?sb dev1 = (Inr report, dev2) \<and>
      fst (load_inode_table file_device ?sb dev2) = Inr ?xs"
    by (intro stale_journal_survives_format [OF _ _ _ ws]) simp_all
  then show ?thesis by blast
qed

text \<open>C7. Journaled metadata updates. On a crash-prone device that holds the file system \<open>fs\<close>, each of
  the five journaled metadata updates (allocator; inode table; directory table; inode and
  directory tables; all three) that a crash may interrupt before any of its device mutations
  leaves, after recovery, either \<open>fs\<close> or \<open>fs\<close> with exactly its tables replaced, the other
  tables and all data blocks unchanged; a reported success implies the latter. An uninterrupted
  update succeeds when its tables are well formed and fit and the journal can hold the changed
  blocks.\<close>

theorem metadata_update_crash_atomic:
  assumes "sb_ok sb" and "cd_mounted sb dev fs" and "alloc_inv a"
  shows "crash_outcome sb (\<lambda>_. ()) (put_alloc sb a) fs k
      (crash_and_recover sb k (store_allocator_journaled crash_ops sb a) dev) \<and>
    crash_outcome sb (\<lambda>_. ()) (put_inodes sb xs) fs k
      (crash_and_recover sb k (store_inode_table_journaled crash_ops sb xs) dev) \<and>
    crash_outcome sb (\<lambda>_. ()) (put_entries sb es) fs k
      (crash_and_recover sb k (store_directory_table_journaled crash_ops sb es) dev) \<and>
    crash_outcome sb (\<lambda>_. ()) (put_inodes_entries sb xs es) fs k
      (crash_and_recover sb k (store_inode_directory_tables_journaled crash_ops sb xs es) dev) \<and>
    crash_outcome sb (\<lambda>_. ()) (put_tables sb a xs es) fs k
      (crash_and_recover sb k (store_create_metadata_journaled crash_ops sb a xs es) dev) \<and>
    (put_tables sb a xs es fs = Inr ((), fs') \<longleftrightarrow>
       alloc_fits sb a \<and> inode_fits sb xs \<and> directory_fits sb es \<and>
       fs' = fs\<lparr>fs_alloc := a, fs_inodes := xs, fs_entries := es\<rparr>)"
  using crash_safe_metadata [where P = "\<lambda>_. True", OF assms(1)] crash_safe_outcome [where P = "\<lambda>_. True", OF assms(1,2) TrueI] assms(3)
    put_tables_iff [OF assms(1,3)] by blast

theorem metadata_update_crash_atomic_witness:
  "let es = []; xs = [\<lparr>pi_id = 1, pi_kind = Directory, pi_blocks = []\<rparr>]; a = empty_allocator disk_superblock;
       fs = empty_fs disk_superblock (\<lambda>_. zero_block)
   in crash_outcome disk_superblock (\<lambda>_. ()) (put_tables disk_superblock a xs es) fs (Some 3)
        (crash_and_recover disk_superblock (Some 3)
           (store_create_metadata_journaled crash_ops disk_superblock a xs es) disk) \<and>
      put_tables disk_superblock a xs es fs = Inr ((), fs\<lparr>fs_inodes := xs\<rparr>)"
proof -
  let ?sb = disk_superblock and ?fs = "empty_fs disk_superblock (\<lambda>_. zero_block)"
  have "inode_fits ?sb [\<lparr>pi_id = 1, pi_kind = Directory, pi_blocks = []\<rparr>]"
    by (simp add: inode_fits_def disk_superblock_def length_inode_record inode_ok_def)
  then show ?thesis
    using metadata_update_crash_atomic [OF disk_superblock_ok disk_mounted
        empty_allocator_new(2) [OF disk_superblock_ok], of "Some 3"
        "[\<lparr>pi_id = 1, pi_kind = Directory, pi_blocks = []\<rparr>]" "[]"]
      empty_allocator_new(4) [OF disk_superblock_ok] empty_tables_fit [OF disk_superblock_ok]
    by (simp add: Let_def) (simp add: empty_fs_def)
qed

end
