(* ===== verification/FS_Search.thy ===== *)
theory FS_Search
  imports FS_Prelude
begin

text \<open>
  The graph algorithms of the namespace checks: the map from a directory to its children that
  \<^verbatim>\<open>rename_tx.rs\<close> and \<^verbatim>\<open>fsck.rs\<close> build, the two worklist searches over it and the
  three-colour depth-first search for directory cycles. Nodes are 64-bit identifiers, so the
  set of unvisited nodes is finite and every search terminates on every graph, also on the
  cyclic graphs of a corrupt device. Each search is shown to compute the reachability relation
  it stands for.
\<close>

section \<open>The children of a directory\<close>

type_synonym children = "u64 \<rightharpoonup> u64 list"

text \<open>\<^verbatim>\<open>children.entry(parent).or_default().push(target)\<close>\<close>

definition push_child :: "children \<Rightarrow> u64 \<times> u64 \<Rightarrow> children" where
  "push_child m edge =
     (case edge of (p, t) \<Rightarrow> m(p \<mapsto> (case m p of None \<Rightarrow> [] | Some ts \<Rightarrow> ts) @ [t]))"

definition children_of :: "(u64 \<times> u64) list \<Rightarrow> children" where
  "children_of edges = foldl push_child Map.empty edges"

definition next_of :: "children \<Rightarrow> u64 \<Rightarrow> u64 list" where
  "next_of m x = (case m x of None \<Rightarrow> [] | Some ts \<Rightarrow> ts)"

lemma next_of_push: "next_of (push_child m (p, t)) x = next_of m x @ (if x = p then [t] else [])"
  by (simp add: next_of_def push_child_def split: option.splits)

lemma next_children_of: "next_of (children_of es) x = map snd (filter (\<lambda>(p, t). p = x) es)"
proof -
  have "next_of (foldl push_child m es) x = next_of m x @ map snd (filter (\<lambda>(p, t). p = x) es)" for m
  proof (induction es arbitrary: m)
    case (Cons e es)
    then show ?case by (cases e) (simp add: next_of_push)
  qed simp
  from this [of Map.empty] show ?thesis by (simp add: children_of_def next_of_def)
qed

definition edge_rel :: "(u64 \<Rightarrow> u64 list) \<Rightarrow> (u64 \<times> u64) set" where
  "edge_rel next = {(x, y). y \<in> set (next x)}"

lemma edge_rel_iff [simp]: "(x, y) \<in> edge_rel next \<longleftrightarrow> y \<in> set (next x)"
  by (simp add: edge_rel_def)

section \<open>Worklist searches\<close>

text \<open>
  Every round of a search shrinks the finite set of unseen nodes or, with that set unchanged, the
  stack.
\<close>

definition unseen :: "u64 set \<Rightarrow> nat" where
  "unseen seen = card (UNIV - seen)"

lemma unseen_shrinks [simp]: "x \<notin> seen \<Longrightarrow> unseen (insert x seen) < unseen seen"
  unfolding unseen_def by (rule psubset_card_mono) auto

lemma unseen_antimono: "seen \<subseteq> seen' \<Longrightarrow> unseen seen' \<le> unseen seen"
  unfolding unseen_def by (rule card_mono) auto

text \<open>
  The stack is a list with its top first; \<^verbatim>\<open>pending.extend(next)\<close> leaves the last child on
  top.
\<close>

function reachable_from :: "(u64 \<Rightarrow> u64 list) \<Rightarrow> u64 list \<Rightarrow> u64 set \<Rightarrow> u64 set" where
  "reachable_from next [] seen = seen"
| "reachable_from next (x # pending) seen =
     (if x \<in> seen then reachable_from next pending seen
      else reachable_from next (rev (next x) @ pending) (insert x seen))"
  by pat_completeness auto
termination
  by (relation "measures [\<lambda>(next, pending, seen). unseen seen, \<lambda>(next, pending, seen). length pending]")
    auto

function search_for :: "(u64 \<Rightarrow> u64 list) \<Rightarrow> u64 \<Rightarrow> u64 list \<Rightarrow> u64 set \<Rightarrow> bool" where
  "search_for next goal [] seen = False"
| "search_for next goal (x # pending) seen =
     (if x \<in> seen then search_for next goal pending seen
      else if x = goal then True
      else search_for next goal (rev (next x) @ pending) (insert x seen))"
  by pat_completeness auto
termination
  by (relation "measures [\<lambda>(next, goal, pending, seen). unseen seen, \<lambda>(next, goal, pending, seen). length pending]")
    auto

lemma reachable_from_increasing: "seen \<union> set pending \<subseteq> reachable_from next pending seen"
  by (induction "next" pending seen rule: reachable_from.induct) auto

lemma reachable_from_sound:
  "y \<in> reachable_from next pending seen \<Longrightarrow> y \<in> seen \<or> (\<exists>x \<in> set pending. (x, y) \<in> (edge_rel next)\<^sup>*)"
proof (induction "next" pending seen rule: reachable_from.induct)
  case (2 "next" x pending seen)
  show ?case
  proof (cases "x \<in> seen")
    case True
    then show ?thesis using 2 by auto
  next
    case False
    then consider "y \<in> insert x seen" | z where "z \<in> set (rev (next x) @ pending)" "(z, y) \<in> (edge_rel next)\<^sup>*"
      using 2 by auto
    then show ?thesis
    proof cases
      case 2
      then show ?thesis by (cases "z \<in> set (next x)") (auto intro: converse_rtrancl_into_rtrancl)
    qed auto
  qed
qed simp

lemma reachable_from_closed:
  assumes "\<forall>x \<in> seen. set (next x) \<subseteq> seen \<union> set pending" and "x \<in> reachable_from next pending seen"
  shows "set (next x) \<subseteq> reachable_from next pending seen"
  using assms
proof (induction "next" pending seen rule: reachable_from.induct)
  case (2 "next" y pending seen)
  then show ?case by (cases "y \<in> seen") auto
qed auto

text \<open>The search returns exactly the nodes reachable from its start.\<close>

lemma reachable_from_start: "reachable_from next [r] {} = (edge_rel next)\<^sup>* `` {r}"
proof
  show "reachable_from next [r] {} \<subseteq> (edge_rel next)\<^sup>* `` {r}"
    using reachable_from_sound by fastforce
next
  have "y \<in> reachable_from next [r] {}" if "(r, y) \<in> (edge_rel next)\<^sup>*" for y
    using that
  proof (induction rule: rtrancl_induct)
    case base
    then show ?case using reachable_from_increasing [of "{}" "[r]"] by auto
  next
    case (step y z)
    then show ?case using reachable_from_closed [of "{}" "next" "[r]" y] by auto
  qed
  then show "(edge_rel next)\<^sup>* `` {r} \<subseteq> reachable_from next [r] {}" by blast
qed

text \<open>Stopping at the goal decides membership in the full search.\<close>

lemma search_for_reachable:
  "goal \<notin> seen \<Longrightarrow> search_for next goal pending seen \<longleftrightarrow> goal \<in> reachable_from next pending seen"
proof (induction "next" goal pending seen rule: search_for.induct)
  case (2 "next" goal x pending seen)
  then show ?case using reachable_from_increasing [of "insert x seen" _ "next"] by auto
qed simp

text \<open>
  The loop itself, one round at a time: the stack, the visited nodes and whether the goal was
  met. Every edge is pushed at most once, when its source is first visited, so the stack together
  with the edges not yet pushed shrinks in every round.
\<close>

definition search_round :: "(u64 \<Rightarrow> u64 list) \<Rightarrow> u64 \<Rightarrow> u64 list \<times> u64 set \<times> bool \<Rightarrow> u64 list \<times> u64 set \<times> bool" where
  "search_round next goal state =
     (case state of
        ([], seen, found) \<Rightarrow> ([], seen, found)
      | (x # pending, seen, found) \<Rightarrow>
          if x \<in> seen then (pending, seen, found)
          else if x = goal then (pending, insert x seen, True)
          else (rev (next x) @ pending, insert x seen, found))"

lemma search_round_Cons [simp]:
  "search_round next goal (x # pending, seen, found) =
     (if x \<in> seen then (pending, seen, found)
      else if x = goal then (pending, insert x seen, True)
      else (rev (next x) @ pending, insert x seen, found))"
  by (simp add: search_round_def)

definition search_over :: "u64 list \<times> u64 set \<times> bool \<Rightarrow> bool" where
  "search_over state \<longleftrightarrow> (case state of (pending, seen, found) \<Rightarrow> pending = [] \<or> found)"

definition search_budget :: "(u64 \<times> u64) list \<Rightarrow> u64 list \<Rightarrow> u64 set \<Rightarrow> nat" where
  "search_budget es pending seen = length pending + length (filter (\<lambda>(p, t). p \<notin> seen) es)"

lemma search_budget_visit:
  assumes "x \<notin> seen"
  shows "Suc (search_budget es (rev (next_of (children_of es) x) @ pending) (insert x seen)) =
    search_budget es (x # pending) seen"
proof -
  have "length (filter (\<lambda>(p, t). p \<notin> seen) es) =
      length (filter (\<lambda>(p, t). p = x) es) + length (filter (\<lambda>(p, t). p \<notin> insert x seen) es)"
    using assms by (induction es) auto
  then show ?thesis by (simp add: search_budget_def next_children_of)
qed

lemma search_rounds:
  assumes "next = next_of (children_of es)"
  shows "\<exists>k \<le> search_budget es pending seen. \<exists>pending' seen'.
    (search_round next goal ^^ k) (pending, seen, False) = (pending', seen', search_for next goal pending seen) \<and>
    search_over (pending', seen', search_for next goal pending seen)"
  using assms
proof (induction "next" goal pending seen rule: search_for.induct)
  case (1 "next" goal seen)
  then show ?case by (intro exI [of _ 0]) (simp add: search_over_def)
next
  case (2 "next" goal x pending seen)
  let ?round = "search_round next goal"
  have later: "\<exists>k \<le> Suc n. \<exists>pending' seen'. (?round ^^ k) s = (pending', seen', b) \<and> search_over (pending', seen', b)"
    if hyp: "\<exists>k \<le> n. \<exists>pending' seen'. (?round ^^ k) s' = (pending', seen', b) \<and> search_over (pending', seen', b)"
      and step: "?round s = s'" for n s s' b
  proof -
    obtain k pending' seen' where k: "k \<le> n" "(?round ^^ k) s' = (pending', seen', b)" "search_over (pending', seen', b)"
      using hyp by blast
    then have "(?round ^^ Suc k) s = (pending', seen', b)" by (simp only: funpow_Suc_right comp_apply step)
    then show ?thesis using k(1,3) by (intro exI [of _ "Suc k"]) auto
  qed
  consider "x \<in> seen" | "x \<notin> seen" "x = goal" | "x \<notin> seen" "x \<noteq> goal" by blast
  then show ?case
  proof cases
    case 1
    have "search_budget es (x # pending) seen = Suc (search_budget es pending seen)" by (simp add: search_budget_def)
    then show ?thesis using later [OF 2(1) [OF 1 2(3)], of "(x # pending, seen, False)"] 1 by simp
  next
    case 2
    then show ?thesis by (intro exI [of _ 1]) (simp add: search_over_def search_budget_def)
  next
    case 3
    have "search_budget es (x # pending) seen = Suc (search_budget es (rev (next x) @ pending) (insert x seen))"
      using search_budget_visit [OF 3(1)] 2(3) by simp
    then show ?thesis
      using later [OF 2(2) [OF 3 2(3)], of "(x # pending, seen, False)"] 3 by simp
  qed
qed

section \<open>Depth-first search for cycles\<close>

text \<open>
  \<^verbatim>\<open>audit_directory_cycle\<close> and its loop over the targets: state 1 marks the inodes on the
  current path, state 2 the finished ones.
\<close>

function audit_targets :: "(u64 \<Rightarrow> u64 list) \<Rightarrow> u64 list \<Rightarrow> (u64 \<rightharpoonup> u8) \<Rightarrow> (u64 \<rightharpoonup> u8) res" where
  "audit_targets next [] states = Inr states"
| "audit_targets next (x # xs) states =
     (if states x = Some 1 then Inl InvalidData
      else if states x = Some 2 then audit_targets next xs states
      else
        (case audit_targets next (next x) (states(x \<mapsto> 1)) of
           Inl e \<Rightarrow> Inl e
         | Inr states' \<Rightarrow> audit_targets next xs (states'(x \<mapsto> 2))))"
  by pat_completeness auto

definition marked :: "(u64 \<rightharpoonup> u8) \<Rightarrow> u64 set" where
  "marked states = {x. states x = Some 1 \<or> states x = Some 2}"

lemma audit_targets_marks:
  "audit_targets_dom (next, xs, states) \<Longrightarrow> audit_targets next xs states = Inr states' \<Longrightarrow>
   marked states \<subseteq> marked states'"
proof (induction "next" xs states arbitrary: states' rule: audit_targets.pinduct)
  case (1 "next" states)
  then show ?case by (simp add: audit_targets.psimps)
next
  case (2 "next" x xs states)
  show ?case
  proof (cases "states x = Some 1 \<or> states x = Some 2")
    case True
    then show ?thesis using 2 by (auto simp: audit_targets.psimps split: if_splits)
  next
    case False
    then obtain st1 where st1: "audit_targets next (next x) (states(x \<mapsto> 1)) = Inr st1"
      "audit_targets next xs (st1(x \<mapsto> 2)) = Inr states'"
      using 2(1,5) by (auto simp: audit_targets.psimps split: sum.splits)
    have "marked (states(x \<mapsto> 1)) \<subseteq> marked st1" using 2(3) False st1(1) by blast
    moreover have "marked (st1(x \<mapsto> 2)) \<subseteq> marked states'" using 2(4) False st1 by blast
    ultimately show ?thesis by (auto simp: marked_def split: if_splits)
  qed
qed

termination audit_targets
proof (relation "measures [\<lambda>(next, xs, states). unseen (marked states), \<lambda>(next, xs, states). length xs]")
  fix "next" :: "u64 \<Rightarrow> u64 list" and x xs and states :: "u64 \<rightharpoonup> u8"
  assume unmarked: "states x \<noteq> Some 1" "states x \<noteq> Some 2"
  have new: "marked (states(x \<mapsto> 1)) = insert x (marked states)" by (auto simp: marked_def)
  have "unseen (marked (states(x \<mapsto> 1))) < unseen (marked states)"
    unfolding new by (rule unseen_shrinks) (use unmarked in \<open>simp add: marked_def\<close>)
  then show "((next, next x, states(x \<mapsto> 1)), (next, x # xs, states)) \<in>
      measures [\<lambda>(next, xs, states). unseen (marked states), \<lambda>(next, xs, states). length xs]"
    by simp
  fix states'
  assume "audit_targets_dom (next, next x, states(x \<mapsto> 1))"
    and "audit_targets next (next x) (states(x \<mapsto> 1)) = Inr states'"
  then have "insert x (marked states) \<subseteq> marked (states'(x \<mapsto> 2))"
    using audit_targets_marks new by (fastforce simp: marked_def split: if_splits)
  then have "unseen (marked (states'(x \<mapsto> 2))) \<le> unseen (insert x (marked states))"
    by (rule unseen_antimono)
  also have "\<dots> < unseen (marked states)"
    by (rule unseen_shrinks) (use unmarked in \<open>simp add: marked_def\<close>)
  finally show "((next, xs, states'(x \<mapsto> 2)), (next, x # xs, states)) \<in>
      measures [\<lambda>(next, xs, states). unseen (marked states), \<lambda>(next, xs, states). length xs]"
    by simp
qed auto

lemma audit_targets_ConsE:
  assumes "audit_targets next (x # xs) states = Inr states'"
  obtains (finished) "states x = Some 2" "audit_targets next xs states = Inr states'"
  | (visit) st1 where "states x \<noteq> Some 1" "states x \<noteq> Some 2"
    "audit_targets next (next x) (states(x \<mapsto> 1)) = Inr st1"
    "audit_targets next xs (st1(x \<mapsto> 2)) = Inr states'"
  using assms by (cases "audit_targets next (next x) (states(x \<mapsto> 1))") (auto split: if_splits)

declare audit_targets.simps(2) [simp del]

text \<open>A successful search keeps the path, finishes its targets and forgets nothing.\<close>

lemma audit_targets_states:
  assumes "audit_targets next xs states = Inr states'"
  shows "states' x = Some 1 \<longleftrightarrow> states x = Some 1"
    and "states x = Some 2 \<Longrightarrow> states' x = Some 2"
    and "x \<in> set xs \<Longrightarrow> states' x = Some 2"
proof -
  have "\<forall>y. (states' y = Some 1 \<longleftrightarrow> states y = Some 1) \<and> (states y = Some 2 \<longrightarrow> states' y = Some 2) \<and>
      (y \<in> set xs \<longrightarrow> states' y = Some 2)"
    using assms
  proof (induction "next" xs states arbitrary: states' rule: audit_targets.induct)
    case (2 "next" x xs states)
    from 2(4) show ?case
    proof (cases rule: audit_targets_ConsE)
      case finished
      then show ?thesis using 2(1) by auto
    next
      case (visit st1)
      note False = visit(1,2) and st1 = visit(3,4)
      have inner: "(st1 y = Some 1 \<longleftrightarrow> y = x \<or> states y = Some 1) \<and> (y \<noteq> x \<longrightarrow> states y = Some 2 \<longrightarrow> st1 y = Some 2)" for y
        using 2(2) [OF False st1(1)] False by auto
      have rest: "(states' y = Some 1 \<longleftrightarrow> (st1(x \<mapsto> 2)) y = Some 1) \<and>
          ((st1(x \<mapsto> 2)) y = Some 2 \<longrightarrow> states' y = Some 2) \<and> (y \<in> set xs \<longrightarrow> states' y = Some 2)" for y
        using 2(3) [OF False st1(1) st1(2)] by blast
      show ?thesis
      proof
        fix y
        show "(states' y = Some 1 \<longleftrightarrow> states y = Some 1) \<and> (states y = Some 2 \<longrightarrow> states' y = Some 2) \<and>
            (y \<in> set (x # xs) \<longrightarrow> states' y = Some 2)"
          using inner [of y] rest [of y] False by (cases "y = x") auto
      qed
    qed
  qed simp
  then show "states' x = Some 1 \<longleftrightarrow> states x = Some 1" "states x = Some 2 \<Longrightarrow> states' x = Some 2"
    "x \<in> set xs \<Longrightarrow> states' x = Some 2" by blast+
qed

text \<open>The finished nodes are closed under edges and lie on no cycle.\<close>

definition finished_acyclic :: "(u64 \<Rightarrow> u64 list) \<Rightarrow> (u64 \<rightharpoonup> u8) \<Rightarrow> bool" where
  "finished_acyclic next states \<longleftrightarrow>
     (\<forall>x. states x = Some 2 \<longrightarrow>
        (\<forall>y \<in> set (next x). states y = Some 2) \<and> (x, x) \<notin> (edge_rel next)\<^sup>+)"

lemma finished_closed:
  assumes "finished_acyclic next states" and "(x, y) \<in> (edge_rel next)\<^sup>*" and "states x = Some 2"
  shows "states y = Some 2"
  using assms(2,3)
  by (induction rule: rtrancl_induct) (use assms(1) in \<open>auto simp: finished_acyclic_def\<close>)

lemma finish_acyclic:
  assumes "finished_acyclic next states" and "states x = Some 1" and "\<forall>y \<in> set (next x). states y = Some 2"
  shows "finished_acyclic next (states(x \<mapsto> 2))"
proof -
  have "(x, x) \<notin> (edge_rel next)\<^sup>+"
  proof
    assume "(x, x) \<in> (edge_rel next)\<^sup>+"
    then obtain y where "y \<in> set (next x)" "(y, x) \<in> (edge_rel next)\<^sup>*"
      by (auto dest: tranclD)
    then have "states x = Some 2" using finished_closed [OF assms(1)] assms(3) by blast
    with assms(2) show False by simp
  qed
  with assms show ?thesis by (auto simp: finished_acyclic_def)
qed

lemma audit_targets_acyclic:
  "audit_targets next xs states = Inr states' \<Longrightarrow> finished_acyclic next states \<Longrightarrow> finished_acyclic next states'"
proof (induction "next" xs states arbitrary: states' rule: audit_targets.induct)
  case (2 "next" x xs states)
  from 2(4) show ?case
  proof (cases rule: audit_targets_ConsE)
    case finished
    then show ?thesis using 2(1,5) by auto
  next
    case (visit st1)
    note False = visit(1,2) and st1 = visit(3,4)
    have "finished_acyclic next (states(x \<mapsto> 1))"
      using 2(5) False by (auto simp: finished_acyclic_def)
    then have "finished_acyclic next st1" using 2(2) [OF False st1(1)] by blast
    then have "finished_acyclic next (st1(x \<mapsto> 2))"
      by (rule finish_acyclic) (use audit_targets_states [OF st1(1)] in auto)
    then show ?thesis using 2(3) [OF False st1(1) st1(2)] by blast
  qed
qed simp

lemma audit_targets_error:
  assumes "audit_targets next xs states = Inl e"
    and "\<forall>g y. states g = Some 1 \<longrightarrow> y \<in> set xs \<longrightarrow> (g, y) \<in> (edge_rel next)\<^sup>+"
  shows "e = InvalidData \<and> (\<exists>x y. x \<in> set xs \<and> (x, y) \<in> (edge_rel next)\<^sup>* \<and> (y, y) \<in> (edge_rel next)\<^sup>+)"
  using assms
proof (induction "next" xs states rule: audit_targets.induct)
  case (2 "next" x xs states)
  let ?E = "edge_rel next"
  show ?case
  proof (cases "states x = Some 1 \<or> states x = Some 2")
    case True
    then show ?thesis
    proof
      assume "states x = Some 1"
      then show ?thesis using 2(4,5) by (auto simp: audit_targets.simps(2))
    next
      assume fin: "states x = Some 2"
      then have "audit_targets next xs states = Inl e" using 2(4) by (simp add: audit_targets.simps(2))
      then show ?thesis using 2(1) [OF _ fin] fin 2(5) by auto
    qed
  next
    case False
    show ?thesis
    proof (cases "audit_targets next (next x) (states(x \<mapsto> 1))")
      case (Inl e')
      have "\<forall>g y. (states(x \<mapsto> 1)) g = Some 1 \<longrightarrow> y \<in> set (next x) \<longrightarrow> (g, y) \<in> ?E\<^sup>+"
        using 2(5) by (auto intro: trancl_into_trancl [of _ x] split: if_splits)
      moreover have "e' = e" using 2(4) False Inl by (simp add: audit_targets.simps(2))
      ultimately have "e = InvalidData \<and> (\<exists>z y. z \<in> set (next x) \<and> (z, y) \<in> ?E\<^sup>* \<and> (y, y) \<in> ?E\<^sup>+)"
        using 2(2) False Inl by blast
      moreover have "(x, y) \<in> ?E\<^sup>*" if "z \<in> set (next x)" "(z, y) \<in> ?E\<^sup>*" for z y
        using that by (intro converse_rtrancl_into_rtrancl [of x z]) simp_all
      ultimately show ?thesis by (metis list.set_intros(1))
    next
      case (Inr st1)
      have "\<forall>g y. (st1(x \<mapsto> 2)) g = Some 1 \<longrightarrow> y \<in> set xs \<longrightarrow> (g, y) \<in> ?E\<^sup>+"
        using 2(5) audit_targets_states(1) [OF Inr] by (auto split: if_splits)
      moreover have "audit_targets next xs (st1(x \<mapsto> 2)) = Inl e" using 2(4) False Inr by (simp add: audit_targets.simps(2))
      ultimately have "e = InvalidData \<and> (\<exists>z y. z \<in> set xs \<and> (z, y) \<in> ?E\<^sup>* \<and> (y, y) \<in> ?E\<^sup>+)"
        using 2(3) [OF _ _ Inr] False by blast
      then show ?thesis by auto
    qed
  qed
qed simp

text \<open>Started on unmarked nodes, the search fails exactly when a cycle is reachable.\<close>

lemma audit_targets_cycle:
  "is_ok (audit_targets next xs Map.empty) \<longleftrightarrow>
   (\<forall>x y. x \<in> set xs \<longrightarrow> (x, y) \<in> (edge_rel next)\<^sup>* \<longrightarrow> (y, y) \<notin> (edge_rel next)\<^sup>+)"
proof (cases "audit_targets next xs Map.empty")
  case (Inl e)
  then show ?thesis using audit_targets_error [OF Inl] by auto
next
  case (Inr states')
  have fin: "finished_acyclic next states'"
    by (rule audit_targets_acyclic [OF Inr]) (simp add: finished_acyclic_def)
  then have "(y, y) \<notin> (edge_rel next)\<^sup>+" if "x \<in> set xs" "(x, y) \<in> (edge_rel next)\<^sup>*" for x y
    using finished_closed [OF fin that(2) audit_targets_states(3) [OF Inr that(1)]]
    by (simp add: finished_acyclic_def)
  then show ?thesis using Inr by auto
qed

lemma audit_targets_append:
  "audit_targets next (xs @ ys) states = bindR (audit_targets next xs states) (audit_targets next ys)"
  by (induction "next" xs states rule: audit_targets.induct) (auto simp: audit_targets.simps(2) fun_upd_def split: sum.splits)

end
