(* ===== verification/FS_Fsck.thy ===== *)
theory FS_Fsck
  imports FS_Format_Device FS_Search
begin

text \<open>
  The consistency checker, \<^verbatim>\<open>fsck.rs\<close>: it reads the superblock and all tables of a device
  and audits block ownership, the namespace and the journal. The checker is shown to accept a
  device exactly when the file system it holds is \<open>consistent\<close>, a property stated over the
  tables without reference to the algorithms of the checker.
\<close>

section \<open>The checker\<close>

definition ROOT_INODE_ID :: u64 where "ROOT_INODE_ID = 1"

record fsck_report =
  fk_total_blocks :: u64
  fk_reserved_blocks :: u64
  fk_data_blocks :: u64
  fk_allocated_blocks :: u64
  fk_free_blocks :: u64
  fk_inode_records :: nat
  fk_referenced_blocks :: nat
  fk_directory_entries :: nat
  fk_journal_entries :: nat
  fk_journal_writes :: nat
  fk_committed_transactions :: nat
  fk_pending_transaction :: "u64 option"

definition audit_block ::
  "superblock \<Rightarrow> block_allocator \<Rightarrow> u64 \<Rightarrow> u64 \<Rightarrow> (u64 \<rightharpoonup> u64) \<times> nat \<Rightarrow> ((u64 \<rightharpoonup> u64) \<times> nat) res" where
  "audit_block sb allocator inode block st =
     (case st of (owners, referenced) \<Rightarrow>
        if block < reserved_blocks sb \<or> block \<ge> total_blocks sb then Inl InvalidData
        else
          bindR (map_err (\<lambda>_. InvalidData) (is_owned allocator block)) (\<lambda>allocated.
          if \<not> allocated then Inl InvalidData
          else if owners block \<noteq> None then Inl InvalidData
          else
            bindR (ok_or InvalidData (usize_add referenced 1)) (\<lambda>referenced'.
              Inr (owners(block \<mapsto> inode), referenced'))))"

definition audit_inode_ownership ::
  "superblock \<Rightarrow> block_allocator \<Rightarrow> persisted_inode list \<Rightarrow> nat res" where
  "audit_inode_ownership sb allocator inodes =
     bindR
       (iterR (\<lambda>inode. iterR (audit_block sb allocator (pi_id inode)) (pi_blocks inode)) inodes
          (Map.empty, 0))
       (\<lambda>(owners, referenced). Inr referenced)"

text \<open>\<^verbatim>\<open>collect\<close> into a map keeps the last of several entries with one key.\<close>

definition inode_kinds :: "persisted_inode list \<Rightarrow> u64 \<rightharpoonup> inode_kind" where
  "inode_kinds inodes = map_of (rev (map (\<lambda>inode. (pi_id inode, pi_kind inode)) inodes))"

definition audit_entry ::
  "(u64 \<rightharpoonup> inode_kind) \<Rightarrow> persisted_directory_entry \<Rightarrow> children \<Rightarrow> children res" where
  "audit_entry kinds entry adjacency =
     (case kinds (pd_parent entry) of
        None \<Rightarrow> Inl InvalidData
      | Some kind \<Rightarrow>
          if kind \<noteq> Directory then Inl InvalidData
          else if kinds (pd_target entry) = None then Inl InvalidData
          else Inr (push_child adjacency (pd_parent entry, pd_target entry)))"

definition directory_targets :: "(u64 \<rightharpoonup> inode_kind) \<Rightarrow> children \<Rightarrow> u64 \<Rightarrow> u64 list" where
  "directory_targets kinds adjacency x =
     filter (\<lambda>target. kinds target = Some Directory) (next_of adjacency x)"

definition audit_directory_cycle ::
  "u64 \<Rightarrow> (u64 \<rightharpoonup> inode_kind) \<Rightarrow> children \<Rightarrow> (u64 \<rightharpoonup> u8) \<Rightarrow> (u64 \<rightharpoonup> u8) res" where
  "audit_directory_cycle inode kinds adjacency states =
     audit_targets (directory_targets kinds adjacency) [inode] states"

definition audit_namespace ::
  "persisted_inode list \<Rightarrow> persisted_directory_entry list \<Rightarrow> unit res" where
  "audit_namespace inodes entries =
     (let kinds = inode_kinds inodes in
      bindR (iterR (audit_entry kinds) entries Map.empty) (\<lambda>adjacency.
      if inodes = [] then Inr ()
      else
        (case kinds ROOT_INODE_ID of
           None \<Rightarrow> Inl InvalidData
         | Some kind \<Rightarrow>
             if kind \<noteq> Directory then Inl InvalidData
             else
               bindR
                 (iterR (\<lambda>inode. audit_directory_cycle (pi_id inode) kinds adjacency)
                    (filter (\<lambda>inode. pi_kind inode = Directory) inodes) Map.empty) (\<lambda>_.
               let reachable = reachable_from (next_of adjacency) [ROOT_INODE_ID] {} in
               case find (\<lambda>inode. pi_id inode \<notin> reachable) inodes of
                 Some unreachable \<Rightarrow> Inl InvalidData
               | None \<Rightarrow> Inr ()))))"

fun audit_journal_entry ::
  "superblock \<Rightarrow> journal_entry \<Rightarrow> u64 option \<times> nat \<times> nat \<Rightarrow> (u64 option \<times> nat \<times> nat) res" where
  "audit_journal_entry sb (Begin txid) (active, writes, ncommitted) =
     (if active \<noteq> None then Inl InvalidData else Inr (Some txid, writes, ncommitted))"
| "audit_journal_entry sb (Write txid block data) (active, writes, ncommitted) =
     (if active \<noteq> Some txid then Inl InvalidData
      else if \<not> in_range block (allocation_range sb) \<and> \<not> in_range block (inode_range sb) \<and>
              \<not> in_range block (directory_range sb) \<and>
              \<not> (reserved_blocks sb \<le> block \<and> block < total_blocks sb)
      then Inl InvalidData
      else bindR (ok_or InvalidData (usize_add writes 1)) (\<lambda>writes'. Inr (active, writes', ncommitted)))"
| "audit_journal_entry sb (Commit txid) (active, writes, ncommitted) =
     (if active \<noteq> Some txid then Inl InvalidData
      else bindR (ok_or InvalidData (usize_add ncommitted 1)) (\<lambda>ncommitted'. Inr (None, writes, ncommitted')))"

definition audit_journal ::
  "superblock \<Rightarrow> journal_entry list \<Rightarrow> u64 \<Rightarrow> u64 \<Rightarrow> nat \<Rightarrow> nat \<Rightarrow> nat \<Rightarrow> fsck_report res" where
  "audit_journal sb entries allocated free_count inode_records referenced directory_entries =
     bindR (ok_or InvalidData (checked_sub (total_blocks sb) (reserved_blocks sb))) (\<lambda>data.
     bindR (ok_or InvalidData (checked_add allocated free_count)) (\<lambda>accounted.
     if accounted \<noteq> data then Inl InvalidData
     else
       bindR (iterR (audit_journal_entry sb) entries (None, 0, 0)) (\<lambda>(active, writes, ncommitted).
         Inr \<lparr>fk_total_blocks = total_blocks sb, fk_reserved_blocks = reserved_blocks sb,
              fk_data_blocks = data, fk_allocated_blocks = allocated, fk_free_blocks = free_count,
              fk_inode_records = inode_records, fk_referenced_blocks = referenced,
              fk_directory_entries = directory_entries, fk_journal_entries = length entries,
              fk_journal_writes = writes, fk_committed_transactions = ncommitted,
              fk_pending_transaction = active\<rparr>)))"

definition check_device :: "'d block_device \<Rightarrow> ('d, fsck_report) io" where
  "check_device D =
     io_bind (read_superblock D) (\<lambda>sb.
     io_bind (load_allocator D sb) (\<lambda>allocator.
     io_bind (load_inode_table D sb) (\<lambda>inodes.
     io_bind (io_lift (audit_inode_ownership sb allocator inodes)) (\<lambda>referenced.
     io_bind (load_directory_table D sb) (\<lambda>directory_entries.
     io_bind (io_lift (audit_namespace inodes directory_entries)) (\<lambda>_.
     io_bind (load_journal_image D sb) (\<lambda>entries.
       io_lift (audit_journal sb entries (al_allocated_blocks allocator) (free_blocks allocator)
         (length inodes) referenced (length directory_entries)))))))))"

section \<open>What it means to be consistent\<close>

definition links :: "persisted_directory_entry list \<Rightarrow> (u64 \<times> u64) set" where
  "links es = (\<lambda>e. (pd_parent e, pd_target e)) ` set es"

definition has_inode :: "persisted_inode list \<Rightarrow> u64 \<Rightarrow> bool" where
  "has_inode xs i \<longleftrightarrow> (\<exists>x \<in> set xs. pi_id x = i)"

definition has_directory :: "persisted_inode list \<Rightarrow> u64 \<Rightarrow> bool" where
  "has_directory xs i \<longleftrightarrow> (\<exists>x \<in> set xs. pi_id x = i \<and> pi_kind x = Directory)"

definition file_blocks :: "persisted_inode list \<Rightarrow> u64 list" where
  "file_blocks xs = concat (map pi_blocks xs)"

text \<open>Every block of an inode is an owned data block and belongs to no other inode.\<close>

definition ownership_ok :: "block_allocator \<Rightarrow> persisted_inode list \<Rightarrow> bool" where
  "ownership_ok a xs \<longleftrightarrow> set (file_blocks xs) \<subseteq> owned a \<and> distinct (file_blocks xs)"

text \<open>
  Every entry leads from a directory to an inode; unless the table is empty, inode 1 is a
  directory, no directory contains itself and every inode is reachable from the root.
\<close>

definition namespace_ok :: "persisted_inode list \<Rightarrow> persisted_directory_entry list \<Rightarrow> bool" where
  "namespace_ok xs es \<longleftrightarrow>
     (\<forall>e \<in> set es. has_directory xs (pd_parent e) \<and> has_inode xs (pd_target e)) \<and>
     (xs \<noteq> [] \<longrightarrow>
        has_directory xs ROOT_INODE_ID \<and> acyclic (links es) \<and>
        (\<forall>x \<in> set xs. (ROOT_INODE_ID, pi_id x) \<in> (links es)\<^sup>*))"

definition consistent :: "fs_state \<Rightarrow> bool" where
  "consistent fs \<longleftrightarrow>
     ownership_ok (fs_alloc fs) (fs_inodes fs) \<and> namespace_ok (fs_inodes fs) (fs_entries fs)"

section \<open>Block ownership\<close>

lemma audit_blocks_loop:
  assumes "alloc_inv a" and "alloc_fits sb a"
    and "finite (dom owners)" and "dom owners \<subseteq> owned a" and "n = card (dom owners)"
  shows "(case iterR (\<lambda>(x, b). audit_block sb a (pi_id x) b) xbs (owners, n) of
      Inl e \<Rightarrow> e = InvalidData \<and>
        \<not> (snd ` set xbs \<subseteq> owned a \<and> distinct (map snd xbs) \<and> snd ` set xbs \<inter> dom owners = {})
    | Inr (owners', n') \<Rightarrow> n' = n + length xbs \<and>
        snd ` set xbs \<subseteq> owned a \<and> distinct (map snd xbs) \<and> snd ` set xbs \<inter> dom owners = {})"
  using assms(3-5)
proof (induction xbs arbitrary: owners n)
  case (Cons xb xbs)
  obtain x b where xb: "xb = (x, b)" by (cases xb)
  have geo: "al_total_blocks a = total_blocks sb" "al_reserved_blocks a = reserved_blocks sb"
    using assms(2) by (simp_all add: alloc_fits_def)
  have data: "b \<in> owned a \<Longrightarrow> reserved_blocks sb \<le> b \<and> b < total_blocks sb"
    using geo by (auto simp: owned_def data_blocks_def)
  show ?case
  proof (cases "b \<in> owned a \<and> b \<notin> dom owners")
    case False
    then have "audit_block sb a (pi_id x) b (owners, n) = Inl InvalidData"
      using is_owned_spec [OF assms(1), of b] geo by (auto simp: audit_block_def not_le)
    then show ?thesis using False xb by auto
  next
    case True
    have "Suc n = card (dom (owners(b \<mapsto> pi_id x)))"
      using True Cons.prems by simp
    also have "\<dots> \<le> card (owned a)"
      using True Cons.prems(2) finite_subset [OF owned_subset] by (intro card_mono) auto
    also have "\<dots> < 2 ^ 64" using card_owned [OF assms(1)] unat_lt2p [of "al_allocated_blocks a"] by simp
    finally have step: "audit_block sb a (pi_id x) b (owners, n) = Inr (owners(b \<mapsto> pi_id x), Suc n)"
      using True data is_owned_spec [OF assms(1), of b] geo
      by (auto simp: audit_block_def usize_add_def not_less not_le)
    let ?f = "\<lambda>(x, b). audit_block sb a (pi_id x) b"
    obtain r where r: "iterR ?f xbs (owners(b \<mapsto> pi_id x), Suc n) = r" by simp
    have dom: "dom (owners(b \<mapsto> pi_id x)) = insert b (dom owners)" by simp
    have prems: "finite (insert b (dom owners))" "insert b (dom owners) \<subseteq> owned a"
      "Suc n = card (insert b (dom owners))"
      using Cons.prems True by simp_all
    note IH = Cons.IH [of "owners(b \<mapsto> pi_id x)" "Suc n", unfolded dom r, OF prems]
    have eq: "iterR ?f (xb # xbs) (owners, n) = r" using step r by (simp add: xb)
    show ?thesis unfolding eq using IH True by (cases r) (auto simp: xb)
  qed
qed simp

lemma audit_inode_ownership_eq:
  assumes "alloc_inv a" and "alloc_fits sb a"
  shows "audit_inode_ownership sb a xs =
    (if ownership_ok a xs then Inr (length (file_blocks xs)) else Inl InvalidData)"
proof -
  let ?xbs = "concat (map (\<lambda>x. map (Pair x) (pi_blocks x)) xs)"
  have blocks: "map snd ?xbs = file_blocks xs" by (simp add: file_blocks_def map_concat comp_def)
  have set_blocks: "snd ` set ?xbs = set (file_blocks xs)" using arg_cong [OF blocks, of set] by simp
  have length_blocks: "length ?xbs = length (file_blocks xs)" using arg_cong [OF blocks, of length] by simp
  obtain r where r: "iterR (\<lambda>(x, b). audit_block sb a (pi_id x) b) ?xbs (Map.empty, 0) = r" by simp
  note loop = audit_blocks_loop [OF assms, of Map.empty 0 ?xbs, unfolded blocks set_blocks length_blocks r]
  show ?thesis
    unfolding audit_inode_ownership_def iterR_nested ownership_ok_def r
    using loop by (cases r) auto
qed

section \<open>The namespace\<close>

lemma inode_kinds_Some_iff:
  assumes "distinct (map pi_id xs)"
  shows "inode_kinds xs i = Some k \<longleftrightarrow> (\<exists>x \<in> set xs. pi_id x = i \<and> pi_kind x = k)"
proof -
  have "distinct (map fst (rev (map (\<lambda>x. (pi_id x, pi_kind x)) xs)))"
    using assms by (simp add: comp_def rev_map [symmetric])
  then show ?thesis by (auto simp: inode_kinds_def)
qed

lemma inode_kinds_None_iff: "inode_kinds xs i = None \<longleftrightarrow> \<not> has_inode xs i"
  by (auto simp: inode_kinds_def has_inode_def map_of_eq_None_iff image_image)

lemma has_directory_kind:
  "distinct (map pi_id xs) \<Longrightarrow> has_directory xs i \<longleftrightarrow> inode_kinds xs i = Some Directory"
  by (simp add: inode_kinds_Some_iff has_directory_def)

definition entries_resolve :: "persisted_inode list \<Rightarrow> persisted_directory_entry list \<Rightarrow> bool" where
  "entries_resolve xs es \<longleftrightarrow> (\<forall>e \<in> set es. has_directory xs (pd_parent e) \<and> has_inode xs (pd_target e))"

abbreviation entry_edges :: "persisted_directory_entry list \<Rightarrow> (u64 \<times> u64) list" where
  "entry_edges es \<equiv> map (\<lambda>e. (pd_parent e, pd_target e)) es"

lemma audit_entries_eq:
  assumes "distinct (map pi_id xs)"
  shows "iterR (audit_entry (inode_kinds xs)) es Map.empty =
    (if entries_resolve xs es then Inr (children_of (entry_edges es)) else Inl InvalidData)"
proof -
  have "iterR (audit_entry (inode_kinds xs)) es adj =
      (if entries_resolve xs es then Inr (foldl push_child adj (entry_edges es)) else Inl InvalidData)" for adj
  proof (induction es arbitrary: adj)
    case (Cons e es)
    have "audit_entry (inode_kinds xs) e adj =
        (if has_directory xs (pd_parent e) \<and> has_inode xs (pd_target e)
         then Inr (push_child adj (pd_parent e, pd_target e)) else Inl InvalidData)"
      using inode_kinds_None_iff [of xs "pd_target e"]
      by (auto simp: audit_entry_def has_directory_kind [OF assms] split: option.splits)
    then show ?case using Cons.IH by (simp add: entries_resolve_def)
  qed (simp add: entries_resolve_def)
  then show ?thesis by (simp add: children_of_def)
qed

lemma next_entry_edges:
  "next_of (children_of (entry_edges es)) x = map pd_target (filter (\<lambda>e. pd_parent e = x) es)"
  by (simp add: next_children_of filter_map comp_def)

lemma edge_rel_links: "edge_rel (next_of (children_of (entry_edges es))) = links es"
  by (auto simp: edge_rel_def links_def next_entry_edges)

lemma iterR_audit_targets:
  "iterR (\<lambda>x. audit_targets next [f x]) xs states = audit_targets next (map f xs) states"
proof (induction xs arbitrary: states)
  case (Cons x xs)
  have "iterR (\<lambda>x. audit_targets next [f x]) xs = audit_targets next (map f xs)" using Cons.IH by blast
  then show ?case using audit_targets_append [of "next" "[f x]" "map f xs" states] by simp
qed simp

text \<open>A cycle of links runs through directories only, which are the nodes the search visits.\<close>

lemma links_between_directories:
  assumes "entries_resolve xs es" and "distinct (map pi_id xs)"
    and "(x, y) \<in> (links es)\<^sup>+" and "has_directory xs y"
  shows "(x, y) \<in> (edge_rel (directory_targets (inode_kinds xs) (children_of (entry_edges es))))\<^sup>+"
  using assms(3,4)
proof (induction rule: trancl_induct)
  case (base y)
  then show ?case
    by (intro r_into_trancl)
      (auto simp: directory_targets_def next_entry_edges links_def has_directory_kind [OF assms(2)])
next
  case (step y z)
  have "has_directory xs y" using step.hyps(2) assms(1) by (auto simp: links_def entries_resolve_def)
  moreover have "(y, z) \<in> edge_rel (directory_targets (inode_kinds xs) (children_of (entry_edges es)))"
    using step.hyps(2) step.prems
    by (auto simp: directory_targets_def next_entry_edges links_def has_directory_kind [OF assms(2)])
  ultimately show ?case using step.IH by (meson trancl_into_trancl)
qed

lemma audit_cycles_eq:
  assumes "entries_resolve xs es" and "distinct (map pi_id xs)"
  shows "is_ok (audit_targets (directory_targets (inode_kinds xs) (children_of (entry_edges es)))
      (map pi_id (filter (\<lambda>x. pi_kind x = Directory) xs)) Map.empty) \<longleftrightarrow> acyclic (links es)"
proof -
  let ?E = "edge_rel (directory_targets (inode_kinds xs) (children_of (entry_edges es)))"
  let ?dirs = "map pi_id (filter (\<lambda>x. pi_kind x = Directory) xs)"
  have sub: "?E \<subseteq> links es" by (auto simp: directory_targets_def next_entry_edges links_def)
  have dirs: "x \<in> set ?dirs \<longleftrightarrow> has_directory xs x" for x by (auto simp: has_directory_def)
  show ?thesis
    unfolding audit_targets_cycle acyclic_def
  proof (intro iffI allI impI notI)
    fix x assume "\<forall>x y. x \<in> set ?dirs \<longrightarrow> (x, y) \<in> ?E\<^sup>* \<longrightarrow> (y, y) \<notin> ?E\<^sup>+" and cycle: "(x, x) \<in> (links es)\<^sup>+"
    obtain z where "(x, z) \<in> links es" using cycle by (meson converse_tranclE)
    then have "has_directory xs x" using assms(1) by (auto simp: links_def entries_resolve_def)
    then show False
      using links_between_directories [OF assms cycle] dirs \<open>\<forall>x y. x \<in> set ?dirs \<longrightarrow> _\<close> by blast
  next
    fix x y assume "\<forall>x. (x, x) \<notin> (links es)\<^sup>+" and "(y, y) \<in> ?E\<^sup>+"
    then show False using trancl_mono [OF _ sub] by blast
  qed
qed

lemma audit_namespace_eq:
  assumes "distinct (map pi_id xs)"
  shows "audit_namespace xs es = (if namespace_ok xs es then Inr () else Inl InvalidData)"
proof (cases "entries_resolve xs es")
  case False
  then have "\<not> namespace_ok xs es" by (auto simp: namespace_ok_def entries_resolve_def)
  with False show ?thesis
    by (simp add: audit_namespace_def Let_def audit_entries_eq [OF assms])
next
  case True
  let ?adj = "children_of (entry_edges es)" and ?kinds = "inode_kinds xs"
  let ?dirs = "filter (\<lambda>x. pi_kind x = Directory) xs"
  obtain r where r: "audit_targets (directory_targets ?kinds ?adj) (map pi_id ?dirs) Map.empty = r" by simp
  have cyc: "is_ok r \<longleftrightarrow> acyclic (links es)" using audit_cycles_eq [OF True assms] r by simp
  have err: "r = Inl e \<Longrightarrow> e = InvalidData" for e using audit_targets_error [of _ _ Map.empty e] r by auto
  have reach: "reachable_from (next_of ?adj) [ROOT_INODE_ID] {} = (links es)\<^sup>* `` {ROOT_INODE_ID}"
    unfolding reachable_from_start edge_rel_links by (rule refl)
  have find: "find (\<lambda>x. pi_id x \<notin> (links es)\<^sup>* `` {ROOT_INODE_ID}) xs = None \<longleftrightarrow>
      (\<forall>x \<in> set xs. (ROOT_INODE_ID, pi_id x) \<in> (links es)\<^sup>*)"
    by (auto simp: find_None_iff)
  have loop: "iterR (\<lambda>x. audit_directory_cycle (pi_id x) ?kinds ?adj) ?dirs Map.empty = r"
    unfolding audit_directory_cycle_def iterR_audit_targets by (rule r)
  have root: "has_directory xs ROOT_INODE_ID \<longleftrightarrow> ?kinds ROOT_INODE_ID = Some Directory"
    by (rule has_directory_kind [OF assms])
  have eq: "audit_namespace xs es =
      (if xs = [] then Inr ()
       else
         (case ?kinds ROOT_INODE_ID of
            None \<Rightarrow> Inl InvalidData
          | Some kind \<Rightarrow>
              if kind \<noteq> Directory then Inl InvalidData
              else bindR r (\<lambda>_. case find (\<lambda>x. pi_id x \<notin> (links es)\<^sup>* `` {ROOT_INODE_ID}) xs of
                Some _ \<Rightarrow> Inl InvalidData | None \<Rightarrow> Inr ())))"
    by (simp only: audit_namespace_def Let_def audit_entries_eq [OF assms] True if_True bindR.simps loop reach)
  have ok: "namespace_ok xs es \<longleftrightarrow> (xs \<noteq> [] \<longrightarrow> ?kinds ROOT_INODE_ID = Some Directory \<and> is_ok r \<and>
      find (\<lambda>x. pi_id x \<notin> (links es)\<^sup>* `` {ROOT_INODE_ID}) xs = None)"
    unfolding namespace_ok_def root cyc find using True by (auto simp: entries_resolve_def)
  show ?thesis
    unfolding eq ok using err
    by (cases r; cases "?kinds ROOT_INODE_ID"; cases "find (\<lambda>x. pi_id x \<notin> (links es)\<^sup>* `` {ROOT_INODE_ID}) xs")
      simp_all
qed

section \<open>The journal\<close>

lemma audit_journal_loop:
  assumes "tx_ordered act es" and "list_all (entry_home sb) es" and "n + length es < 2 ^ 64"
    and "m + length es < 2 ^ 64"
  shows "\<exists>act' n' m'. iterR (audit_journal_entry sb) es (act, n, m) = Inr (act', n', m')"
  using assms
proof (induction es arbitrary: act n m)
  case (Cons e es)
  show ?case
  proof (cases e)
    case (Begin t)
    then show ?thesis using Cons by simp
  next
    case (Write t b x)
    then have "home_block sb b" using Cons.prems by simp
    then show ?thesis using Cons Write by (auto simp: home_block_def usize_add_def)
  next
    case (Commit t)
    then show ?thesis using Cons by (auto simp: usize_add_def)
  qed
qed simp

lemma audit_journal_ok:
  assumes "sb_ok sb" and "alloc_inv a" and "alloc_fits sb a" and "journal_ok sb es" and "length es < 2 ^ 64"
  shows "\<exists>report. audit_journal sb es (al_allocated_blocks a) (free_blocks a) i r d = Inr report \<and>
    unat (fk_allocated_blocks report) = card (owned a) \<and> fk_inode_records report = i \<and>
    fk_referenced_blocks report = r \<and> fk_directory_entries report = d \<and>
    fk_journal_entries report = length es"
proof -
  let ?t = "total_blocks sb" and ?r = "reserved_blocks sb"
  have geo: "al_total_blocks a = ?t" "al_reserved_blocks a = ?r" using assms(3) by (simp_all add: alloc_fits_def)
  have le: "unat ?r \<le> unat ?t" by (rule reserved_le_total [OF assms(1)])
  have sub: "checked_sub ?t ?r = Some (?t - ?r)" using le by (simp add: checked_sub_def word_le_nat_alt)
  have sum: "unat (al_allocated_blocks a) + unat (free_blocks a) = unat ?t - unat ?r"
    using free_room [OF assms(2)] geo by simp
  have "checked_add (al_allocated_blocks a) (free_blocks a) = Some (?t - ?r)"
    using sum le by (simp add: checked_add_layout unat_sub word_le_nat_alt)
  moreover obtain act n m where "iterR (audit_journal_entry sb) es (None, 0, 0) = Inr (act, n, m)"
    using audit_journal_loop [of None es sb 0 0] assms(4,5) by (auto simp: journal_ok_def)
  ultimately show ?thesis using sub card_owned [OF assms(2)] by (simp add: audit_journal_def)
qed

section \<open>On a device\<close>

definition fsck_counts :: "fs_state \<Rightarrow> fsck_report \<Rightarrow> bool" where
  "fsck_counts fs report \<longleftrightarrow>
     unat (fk_allocated_blocks report) = card (owned (fs_alloc fs)) \<and>
     fk_inode_records report = length (fs_inodes fs) \<and>
     fk_referenced_blocks report = length (file_blocks (fs_inodes fs)) \<and>
     fk_directory_entries report = length (fs_entries fs)"

lemma loaded:
  "wp m (\<lambda>x d'. R d' \<and> f = Inr x) (\<lambda>e d'. R d' \<and> f = Inl e) d \<Longrightarrow> f = Inr y \<Longrightarrow>
   \<exists>d'. m d = (Inr y, d') \<and> R d'"
  by (auto simp: wp_def split: prod.splits sum.splits)

context block_dev
begin

lemma read_superblock_mounted:
  assumes "sb_ok sb" and "at (total_blocks sb) v u d" and "superblock_decode (v 0) = Inr sb"
  shows "\<exists>d'. read_superblock D d = (Inr sb, d') \<and> at (total_blocks sb) v u d'"
proof -
  have "wp (read_superblock D) (\<lambda>x d'. x = sb \<and> at (total_blocks sb) v u d') (\<lambda>_ _. False) d"
  proof (rule wp_mono [OF read_superblock_wp [OF assms(2) sb_ok_nonempty [OF assms(1)]]], goal_cases)
    case (1 x d')
    then show ?case using assms(3) by (metis Inr_inject)
  next
    case (2 e d')
    then show ?case using assms(3) by (metis Inr_inject Inl_Inr_False)
  qed
  then show ?thesis by (elim wp_total) blast
qed

lemma check_device_wp:
  assumes "sb_ok sb" and "at (total_blocks sb) v u d" and "mounted sb v fs" and "journal_of sb v = Inr es"
  shows "wp (check_device D)
    (\<lambda>report d'. at (total_blocks sb) v u d' \<and> consistent fs \<and> fsck_counts fs report \<and>
       fk_journal_entries report = length es)
    (\<lambda>e d'. at (total_blocks sb) v u d' \<and> e = InvalidData \<and> \<not> consistent fs) d"
proof -
  have typed: "alloc_inv (fs_alloc fs)" "alloc_fits sb (fs_alloc fs)" "distinct (map pi_id (fs_inodes fs))"
    using mounted_typed [OF assms(3)] by (auto simp: fs_typed_def inode_fits_def)
  have tables: "superblock_decode (v 0) = Inr sb" "allocator_of sb v = Inr (fs_alloc fs)"
    "inodes_of sb v = Inr (fs_inodes fs)" "entries_of sb v = Inr (fs_entries fs)"
    using assms(3) by (simp_all add: mounted_def)
  have lens: "\<And>b. b < total_blocks sb \<Longrightarrow> length (v b) = 4096" using view_length [OF assms(2)] by simp
  have "\<exists>report. audit_journal sb es (al_allocated_blocks (fs_alloc fs)) (free_blocks (fs_alloc fs))
      (length (fs_inodes fs)) (length (file_blocks (fs_inodes fs))) (length (fs_entries fs)) = Inr report \<and>
      fsck_counts fs report \<and> fk_journal_entries report = length es"
    using audit_journal_ok [OF assms(1) typed(1,2) journal_of_ok [OF assms(1,4) lens]
        journal_of_length [OF assms(1,4) lens], of "length (fs_inodes fs)"
        "length (file_blocks (fs_inodes fs))" "length (fs_entries fs)"]
    by (auto simp: fsck_counts_def)
  then obtain report where report: "audit_journal sb es (al_allocated_blocks (fs_alloc fs)) (free_blocks (fs_alloc fs))
      (length (fs_inodes fs)) (length (file_blocks (fs_inodes fs))) (length (fs_entries fs)) = Inr report"
    "fsck_counts fs report" "fk_journal_entries report = length es" by (elim exE conjE)
  note audits = audit_inode_ownership_eq [OF typed(1,2)] audit_namespace_eq [OF typed(3)]
  let ?at = "at (total_blocks sb) v u"
  obtain d1 where d1: "read_superblock D d = (Inr sb, d1)" "?at d1"
    using read_superblock_mounted [OF assms(1,2) tables(1)] by (elim exE conjE)
  obtain d2 where d2: "load_allocator D sb d1 = (Inr (fs_alloc fs), d2)" "?at d2"
    using loaded [OF load_allocator_wp [OF assms(1) d1(2)] tables(2)] by blast
  obtain d3 where d3: "load_inode_table D sb d2 = (Inr (fs_inodes fs), d3)" "?at d3"
    using loaded [OF load_inode_wp [OF assms(1) d2(2)] tables(3)] by blast
  obtain d4 where d4: "load_directory_table D sb d3 = (Inr (fs_entries fs), d4)" "?at d4"
    using loaded [OF load_directory_wp [OF assms(1) d3(2)] tables(4)] by blast
  obtain d5 where d5: "load_journal_image D sb d4 = (Inr es, d5)" "?at d5"
    using loaded [OF load_journal_wp [OF assms(1) d4(2)] assms(4)] by blast
  have "check_device D d =
      (if \<not> ownership_ok (fs_alloc fs) (fs_inodes fs) then (Inl InvalidData, d3)
       else if \<not> namespace_ok (fs_inodes fs) (fs_entries fs) then (Inl InvalidData, d4)
       else (Inr report, d5))"
    by (simp add: check_device_def io_bind_def io_lift_def d1(1) d2(1) d3(1) d4(1) d5(1) audits report(1))
  then show ?thesis using d3(2) d4(2) d5(2) report(2,3) by (simp add: wp_def consistent_def)
qed

text \<open>The check as a read-only step of a larger operation, its report set aside.\<close>

lemma reads_check_device:
  assumes "sb_ok sb"
  shows "reads at sb P (io_bind (check_device D) (\<lambda>_. io_return ()))
    (\<lambda>fs. if consistent fs then Inr () else Inl InvalidData)"
  unfolding reads_def wp_bind wp_return
proof (intro allI impI, goal_cases)
  case (1 v u d fs)
  then obtain es where "journal_of sb v = Inr es" by (auto simp: stands_def settled_def)
  from check_device_wp [OF assms 1(1,3) this] show ?case by (rule wp_mono) auto
qed

end

text \<open>C8. The file-system check is exact. On a mounted device \<open>check_device\<close> writes nothing, and it
  succeeds, with the true counts in its report, if and only if the state is consistent: every
  block of every inode is allocated and no block occurs twice, every entry leads from an
  existing directory to an existing inode, and, unless there are no inodes at all, inode 1 is a
  directory, no inode contains itself through entries and every inode is reachable from inode 1.
  On any other state the result is \<open>InvalidData\<close>.
\<close>

theorem fsck_exact:
  assumes "sb_ok sb" and "cd_mounted sb dev fs"
  shows "case check_device crash_ops dev of (r, dev') \<Rightarrow>
    cd_view dev' = cd_view dev \<and> cd_durable dev' = cd_durable dev \<and>
    (case r of
       Inr report \<Rightarrow> consistent fs \<and> fsck_counts fs report
     | Inl e \<Rightarrow> e = InvalidData \<and> \<not> consistent fs)"
proof -
  have "crash_dev.at (total_blocks sb) (cd_view dev) (cd_durable dev) dev"
    using assms(2) by (simp add: cd_mounted_def dev_at_def)
  moreover obtain es where "journal_of sb (cd_view dev) = Inr es"
    using assms(2) by (auto simp: cd_mounted_def stands_def settled_def)
  ultimately have "wp (check_device crash_ops)
      (\<lambda>report d'. crash_dev.at (total_blocks sb) (cd_view dev) (cd_durable dev) d' \<and> consistent fs \<and>
         fsck_counts fs report \<and> fk_journal_entries report = length es)
      (\<lambda>e d'. crash_dev.at (total_blocks sb) (cd_view dev) (cd_durable dev) d' \<and>
         e = InvalidData \<and> \<not> consistent fs) dev"
    using crash_dev.check_device_wp assms(1,2) by (simp add: cd_mounted_def)
  then show ?thesis by (auto simp: wp_def dev_at_def split: prod.splits sum.splits)
qed

lemma consistent_empty_fs: "sb_ok sb \<Longrightarrow> consistent (empty_fs sb f)"
  by (simp add: consistent_def ownership_ok_def namespace_ok_def file_blocks_def empty_fs_def empty_allocator_new)

theorem fsck_exact_witness: "is_ok (fst (check_device crash_ops disk))"
  using fsck_exact [OF disk_superblock_ok disk_mounted] consistent_empty_fs [OF disk_superblock_ok]
  by (auto simp: is_ok_iff split: prod.splits sum.splits)

end
