(* ===== verification/FS_Namespace_Tx.thy ===== *)
theory FS_Namespace_Tx
  imports FS_Fsck
begin

text \<open>
  The journaled namespace operations: rename (\<^verbatim>\<open>rename_tx.rs\<close>), hard link and removal of a
  non-final link (\<^verbatim>\<open>hard_link_tx.rs\<close>, \<^verbatim>\<open>hard_unlink_tx.rs\<close>), rename over an existing file
  (\<^verbatim>\<open>rename_overwrite_tx.rs\<close>), exchange of two files (\<^verbatim>\<open>rename_exchange_tx.rs\<close>) and the
  validated unlink (\<^verbatim>\<open>unlink_tx.rs\<close>). Each operation loads the tables, decides on the new
  tables and publishes them as one transaction. The decision is a pure function, called the
  plan of the operation, so that the specification of an operation on the mounted state is its
  plan followed by the replacement of the tables, and the lemmas of this theory say that every
  operation implements its specification on every device of the contract.
\<close>

section \<open>Lookups\<close>

text \<open>\<^verbatim>\<open>inodes.iter().find(|inode| inode.id == id).ok_or_else(..)\<close>\<close>

definition find_inode :: "persisted_inode list \<Rightarrow> u64 \<Rightarrow> persisted_inode res" where
  "find_inode inodes i = ok_or InvalidInput (find (\<lambda>inode. pi_id inode = i) inodes)"

definition validate_directory_parent :: "persisted_inode list \<Rightarrow> u64 \<Rightarrow> unit res" where
  "validate_directory_parent inodes parent =
     bindR (find_inode inodes parent) (\<lambda>inode.
       if pi_kind inode \<noteq> Directory then Inl InvalidInput else Inr ())"

definition validate_regular_file_target :: "persisted_inode list \<Rightarrow> u64 \<Rightarrow> unit res" where
  "validate_regular_file_target inodes target =
     bindR (find_inode inodes target) (\<lambda>inode.
       if pi_kind inode \<noteq> File then Inl InvalidInput else Inr ())"

definition entry_position :: "persisted_directory_entry list \<Rightarrow> u64 \<Rightarrow> rust_string \<Rightarrow> nat res" where
  "entry_position entries parent name =
     ok_or InvalidInput (position (\<lambda>entry. pd_parent entry = parent \<and> pd_name entry = name) entries)"

text \<open>\<^verbatim>\<open>iter().filter(|entry| entry.target == target).count()\<close>\<close>

definition references :: "persisted_directory_entry list \<Rightarrow> u64 \<Rightarrow> nat" where
  "references entries target = length (filter (\<lambda>entry. pd_target entry = target) entries)"

text \<open>\<^verbatim>\<open>Vec::remove\<close>\<close>

definition remove_at :: "nat \<Rightarrow> 'a list \<Rightarrow> 'a list" where
  "remove_at i xs = take i xs @ drop (Suc i) xs"

section \<open>Rename\<close>

definition would_create_directory_cycle ::
  "persisted_directory_entry list \<Rightarrow> nat \<Rightarrow> u64 \<Rightarrow> u64 \<Rightarrow> bool" where
  "would_create_directory_cycle entries source_index target new_parent =
     (if target = new_parent then True
      else
        let children = children_of
              (map (\<lambda>(_, entry). (pd_parent entry, pd_target entry))
                 (filter (\<lambda>(index, _). index \<noteq> source_index) (enumerate 0 entries)))
        in search_for (next_of children) new_parent [target] {})"

text \<open>The new entries, or nothing when the entry keeps its name and place.\<close>

definition rename_plan ::
  "persisted_inode list \<Rightarrow> persisted_directory_entry list \<Rightarrow> u64 \<Rightarrow> rust_string \<Rightarrow> u64 \<Rightarrow> rust_string \<Rightarrow>
   persisted_directory_entry list option res" where
  "rename_plan inodes entries old_parent old_name new_parent new_name =
     bindR (entry_position entries old_parent old_name) (\<lambda>source_index.
       let target = pd_target (entries ! source_index);
           candidate = \<lparr>pd_parent = new_parent, pd_target = target, pd_name = new_name\<rparr>
       in
         if target = 1 then Inl InvalidInput
         else if old_parent = new_parent \<and> old_name = new_name then Inr None
         else if list_ex (\<lambda>(index, entry). index \<noteq> source_index \<and> pd_parent entry = new_parent \<and>
                   pd_name entry = new_name) (enumerate 0 entries)
         then Inl InvalidInput
         else
           bindR (encode_directory_entry candidate) (\<lambda>_.
           bindR (find_inode inodes target) (\<lambda>target_inode.
             if pi_kind target_inode = Directory \<and>
                would_create_directory_cycle entries source_index target new_parent
             then Inl InvalidInput
             else Inr (Some (entries[source_index := candidate])))))"

definition rename_entry_journaled ::
  "'d block_device \<Rightarrow> superblock \<Rightarrow> u64 \<Rightarrow> rust_string \<Rightarrow> u64 \<Rightarrow> rust_string \<Rightarrow>
   ('d, recovery_report) io" where
  "rename_entry_journaled D sb old_parent old_name new_parent new_name =
     io_bind (load_inode_table D sb) (\<lambda>inodes.
     io_bind (io_lift (validate_directory_parent inodes old_parent)) (\<lambda>_.
     io_bind (io_lift (validate_directory_parent inodes new_parent)) (\<lambda>_.
     io_bind (load_directory_table D sb) (\<lambda>entries.
     io_bind (io_lift (rename_plan inodes entries old_parent old_name new_parent new_name)) (\<lambda>plan.
       case plan of
         None \<Rightarrow> io_return default_report
       | Some entries \<Rightarrow> store_directory_table_journaled D sb entries)))))"

section \<open>Hard links\<close>

definition hard_link_plan ::
  "persisted_directory_entry list \<Rightarrow> u64 \<Rightarrow> rust_string \<Rightarrow> u64 \<Rightarrow> persisted_directory_entry list res" where
  "hard_link_plan entries parent name target =
     (if list_ex (\<lambda>entry. pd_parent entry = parent \<and> pd_name entry = name) entries
      then Inl InvalidInput
      else Inr (entries @ [\<lparr>pd_parent = parent, pd_target = target, pd_name = name\<rparr>]))"

definition hard_link_file_journaled ::
  "'d block_device \<Rightarrow> superblock \<Rightarrow> u64 \<Rightarrow> rust_string \<Rightarrow> u64 \<Rightarrow> ('d, recovery_report) io" where
  "hard_link_file_journaled D sb parent name target =
     io_bind (load_inode_table D sb) (\<lambda>inodes.
     io_bind (io_lift (validate_directory_parent inodes parent)) (\<lambda>_.
     io_bind (io_lift (validate_regular_file_target inodes target)) (\<lambda>_.
     io_bind (load_directory_table D sb) (\<lambda>entries.
     io_bind (io_lift (hard_link_plan entries parent name target)) (\<lambda>entries.
     io_bind (store_directory_table_journaled D sb entries) (\<lambda>report.
     io_bind (recover_journal_and_checkpoint D sb) (\<lambda>_.
       io_return report)))))))"

definition hard_unlink_plan ::
  "persisted_inode list \<Rightarrow> persisted_directory_entry list \<Rightarrow> u64 \<Rightarrow> rust_string \<Rightarrow>
   persisted_directory_entry list res" where
  "hard_unlink_plan inodes entries parent name =
     bindR (entry_position entries parent name) (\<lambda>index.
       let target = pd_target (entries ! index)
       in
         bindR (find_inode inodes target) (\<lambda>inode.
           if pi_kind inode \<noteq> File then Inl InvalidInput
           else if references entries target < 2 then Inl InvalidInput
           else Inr (remove_at index entries)))"

definition unlink_nonfinal_file_link_journaled ::
  "'d block_device \<Rightarrow> superblock \<Rightarrow> u64 \<Rightarrow> rust_string \<Rightarrow> ('d, recovery_report) io" where
  "unlink_nonfinal_file_link_journaled D sb parent name =
     io_bind (load_inode_table D sb) (\<lambda>inodes.
     io_bind (load_directory_table D sb) (\<lambda>entries.
     io_bind (io_lift (hard_unlink_plan inodes entries parent name)) (\<lambda>entries.
     io_bind (store_directory_table_journaled D sb entries) (\<lambda>report.
     io_bind (recover_journal_and_checkpoint D sb) (\<lambda>_.
       io_return report)))))"

section \<open>Rename over an existing file\<close>

text \<open>The loop that frees blocks; a block that cannot be freed ends the operation.\<close>

definition release_blocks :: "io_error \<Rightarrow> block_allocator \<Rightarrow> u64 list \<Rightarrow> block_allocator res" where
  "release_blocks e allocator blocks =
     iterR (\<lambda>block a. case free a block of (Inl _, _) \<Rightarrow> Inl e | (Inr _, a') \<Rightarrow> Inr a')
       blocks allocator"

definition overwrite_entries ::
  "persisted_directory_entry list \<Rightarrow> nat \<Rightarrow> nat \<Rightarrow> persisted_directory_entry \<Rightarrow>
   persisted_directory_entry list" where
  "overwrite_entries entries source_index destination_index replacement =
     map (\<lambda>(index, entry). if index = source_index then replacement else entry)
       (filter (\<lambda>(index, _). index \<noteq> destination_index) (enumerate 0 entries))"

text \<open>
  The overwritten inode and the new entries, or nothing when source and destination are the
  same entry.
\<close>

definition overwrite_plan ::
  "persisted_inode list \<Rightarrow> persisted_directory_entry list \<Rightarrow> u64 \<Rightarrow> rust_string \<Rightarrow> u64 \<Rightarrow> rust_string \<Rightarrow> bool \<Rightarrow>
   (persisted_inode \<times> persisted_directory_entry list) option res" where
  "overwrite_plan inodes entries old_parent old_name new_parent new_name require_multiple_links =
     bindR (entry_position entries old_parent old_name) (\<lambda>source_index.
     bindR (entry_position entries new_parent new_name) (\<lambda>destination_index.
       if source_index = destination_index then Inr None
       else
         let source_target = pd_target (entries ! source_index);
             destination_target = pd_target (entries ! destination_index)
         in
           if source_target = destination_target then Inl InvalidInput
           else
             bindR (find_inode inodes source_target) (\<lambda>source_inode.
             if pi_kind source_inode \<noteq> File then Inl InvalidInput
             else
               bindR (find_inode inodes destination_target) (\<lambda>destination_inode.
               if pi_kind destination_inode \<noteq> File then Inl InvalidInput
               else if require_multiple_links \<and> references entries destination_target < 2 \<or>
                 \<not> require_multiple_links \<and> references entries destination_target \<noteq> 1
               then Inl InvalidInput
               else
                 let replacement =
                       \<lparr>pd_parent = new_parent, pd_target = source_target, pd_name = new_name\<rparr>
                 in
                   bindR (encode_directory_entry replacement) (\<lambda>_.
                     Inr (Some (destination_inode,
                       overwrite_entries entries source_index destination_index replacement)))))))"

definition rename_overwrite_file_impl ::
  "'d block_device \<Rightarrow> superblock \<Rightarrow> u64 \<Rightarrow> rust_string \<Rightarrow> u64 \<Rightarrow> rust_string \<Rightarrow> bool \<Rightarrow>
   ('d, recovery_report) io" where
  "rename_overwrite_file_impl D sb old_parent old_name new_parent new_name require_multiple_links =
     io_bind (check_device D) (\<lambda>_.
     io_bind (load_allocator D sb) (\<lambda>allocator.
     io_bind (load_inode_table D sb) (\<lambda>inodes.
     io_bind (load_directory_table D sb) (\<lambda>entries.
     io_bind (io_lift (validate_directory_parent inodes old_parent)) (\<lambda>_.
     io_bind (io_lift (validate_directory_parent inodes new_parent)) (\<lambda>_.
     io_bind (io_lift (overwrite_plan inodes entries old_parent old_name new_parent new_name
                         require_multiple_links)) (\<lambda>plan.
       case plan of
         None \<Rightarrow> io_return default_report
       | Some (destination_inode, desired_entries) \<Rightarrow>
           if require_multiple_links then
             io_bind (store_directory_table_journaled D sb desired_entries) (\<lambda>report.
             io_bind (recover_journal_and_checkpoint D sb) (\<lambda>_.
               io_return report))
           else
             io_bind (io_lift (release_blocks InvalidInput allocator (pi_blocks destination_inode))) (\<lambda>allocator.
               store_create_metadata_journaled D sb allocator
                 (filter (\<lambda>inode. pi_id inode \<noteq> pi_id destination_inode) inodes)
                 desired_entries))))))))"

definition rename_overwrite_file_journaled ::
  "'d block_device \<Rightarrow> superblock \<Rightarrow> u64 \<Rightarrow> rust_string \<Rightarrow> u64 \<Rightarrow> rust_string \<Rightarrow>
   ('d, recovery_report) io" where
  "rename_overwrite_file_journaled D sb old_parent old_name new_parent new_name =
     rename_overwrite_file_impl D sb old_parent old_name new_parent new_name False"

definition rename_overwrite_linked_file_journaled ::
  "'d block_device \<Rightarrow> superblock \<Rightarrow> u64 \<Rightarrow> rust_string \<Rightarrow> u64 \<Rightarrow> rust_string \<Rightarrow>
   ('d, recovery_report) io" where
  "rename_overwrite_linked_file_journaled D sb old_parent old_name new_parent new_name =
     rename_overwrite_file_impl D sb old_parent old_name new_parent new_name True"

section \<open>Exchange of two files\<close>

definition exchange_plan ::
  "persisted_inode list \<Rightarrow> persisted_directory_entry list \<Rightarrow> u64 \<Rightarrow> rust_string \<Rightarrow> u64 \<Rightarrow> rust_string \<Rightarrow>
   persisted_directory_entry list option res" where
  "exchange_plan inodes entries first_parent first_name second_parent second_name =
     bindR (entry_position entries first_parent first_name) (\<lambda>first_index.
     bindR (entry_position entries second_parent second_name) (\<lambda>second_index.
       let first_target = pd_target (entries ! first_index);
           second_target = pd_target (entries ! second_index)
       in
         bindR (validate_regular_file_target inodes first_target) (\<lambda>_.
         bindR (validate_regular_file_target inodes second_target) (\<lambda>_.
           if first_target = second_target then Inr None
           else
             let first_replacement =
                   \<lparr>pd_parent = first_parent, pd_target = second_target, pd_name = first_name\<rparr>;
                 second_replacement =
                   \<lparr>pd_parent = second_parent, pd_target = first_target, pd_name = second_name\<rparr>
             in
               bindR (encode_directory_entry first_replacement) (\<lambda>_.
               bindR (encode_directory_entry second_replacement) (\<lambda>_.
                 Inr (Some (entries[first_index := first_replacement,
                                    second_index := second_replacement]))))))))"

definition rename_exchange_files_journaled ::
  "'d block_device \<Rightarrow> superblock \<Rightarrow> u64 \<Rightarrow> rust_string \<Rightarrow> u64 \<Rightarrow> rust_string \<Rightarrow>
   ('d, recovery_report) io" where
  "rename_exchange_files_journaled D sb first_parent first_name second_parent second_name =
     io_bind (check_device D) (\<lambda>_.
     io_bind (load_inode_table D sb) (\<lambda>inodes.
     io_bind (io_lift (validate_directory_parent inodes first_parent)) (\<lambda>_.
     io_bind (io_lift (validate_directory_parent inodes second_parent)) (\<lambda>_.
       if first_parent = second_parent \<and> first_name = second_name then io_return default_report
       else
         io_bind (load_directory_table D sb) (\<lambda>entries.
         io_bind (io_lift (exchange_plan inodes entries first_parent first_name second_parent second_name))
           (\<lambda>plan.
           case plan of
             None \<Rightarrow> io_return default_report
           | Some entries \<Rightarrow>
               io_bind (store_directory_table_journaled D sb entries) (\<lambda>report.
               io_bind (recover_journal_and_checkpoint D sb) (\<lambda>_.
                 io_return report))))))))"

section \<open>Validated unlink\<close>

text \<open>\<^verbatim>\<open>inodes.iter().map(|inode| (inode.id, inode)).collect()\<close>\<close>

definition by_id :: "persisted_inode list \<Rightarrow> u64 \<rightharpoonup> persisted_inode" where
  "by_id inodes = foldl (\<lambda>m inode. m(pi_id inode \<mapsto> inode)) Map.empty inodes"

definition id_set :: "persisted_inode list \<Rightarrow> u64 set" where
  "id_set inodes = set (map pi_id inodes)"

definition entry_set :: "persisted_directory_entry list \<Rightarrow> (u64 \<times> rust_string \<times> u64) set" where
  "entry_set entries = set (map (\<lambda>entry. (pd_parent entry, pd_name entry, pd_target entry)) entries)"

text \<open>The inode delta: the identifier of the one removed inode.\<close>

definition unlink_inode_delta :: "persisted_inode list \<Rightarrow> persisted_inode list \<Rightarrow> u64 res" where
  "unlink_inode_delta current_inodes desired_inodes =
     (let current_by_id = by_id current_inodes; desired_by_id = by_id desired_inodes;
          removed_ids = filter (\<lambda>i. desired_by_id i = None) (sorted_list_of_set (id_set current_inodes))
      in
        if card (id_set current_inodes) \<noteq> length current_inodes \<or>
           card (id_set desired_inodes) \<noteq> length desired_inodes
        then Inl InvalidInput
        else if length removed_ids \<noteq> 1 then Inl InvalidInput
        else if \<exists>i \<in> id_set desired_inodes. current_by_id i = None then Inl InvalidInput
        else if \<exists>i \<in> id_set current_inodes. desired_by_id i \<noteq> None \<and> desired_by_id i \<noteq> current_by_id i
        then Inl InvalidInput
        else if removed_ids ! 0 = 1 then Inl InvalidInput
        else Inr (removed_ids ! 0))"

text \<open>The namespace delta: one entry disappears, the last one of the removed inode.\<close>

definition unlink_entry_delta ::
  "persisted_directory_entry list \<Rightarrow> persisted_directory_entry list \<Rightarrow> u64 \<Rightarrow> inode_kind \<Rightarrow> unit res" where
  "unlink_entry_delta current_entries desired_entries removed_id removed_kind =
     (let current_entry_set = entry_set current_entries; desired_entry_set = entry_set desired_entries;
          removed_entries = current_entry_set - desired_entry_set
      in
        if card current_entry_set \<noteq> length current_entries \<or>
           card desired_entry_set \<noteq> length desired_entries
        then Inl InvalidInput
        else if \<exists>entry \<in> desired_entry_set. entry \<notin> current_entry_set then Inl InvalidInput
        else if card removed_entries \<noteq> 1 then Inl InvalidInput
        else if \<exists>(_, _, target) \<in> removed_entries. target \<noteq> removed_id then Inl InvalidInput
        else if references current_entries removed_id \<noteq> 1 then Inl InvalidInput
        else if list_ex (\<lambda>entry. pd_target entry = removed_id \<or> pd_parent entry = removed_id) desired_entries
        then Inl InvalidInput
        else if removed_kind = Directory \<and>
           list_ex (\<lambda>entry. pd_parent entry = removed_id) current_entries
        then Inl InvalidInput
        else Inr ())"

text \<open>The blocks that the new allocator does not own any more.\<close>

definition observe_freed ::
  "block_allocator \<Rightarrow> block_allocator \<Rightarrow> u64 \<Rightarrow> u64 set \<Rightarrow> u64 set res" where
  "observe_freed current_allocator desired_allocator block observed_freed =
     bindR (map_err (\<lambda>_. InvalidInput) (is_owned current_allocator block)) (\<lambda>current_owned.
     bindR (map_err (\<lambda>_. InvalidInput) (is_owned desired_allocator block)) (\<lambda>desired_owned.
       if current_owned \<and> \<not> desired_owned then Inr (insert block observed_freed)
       else if \<not> current_owned \<and> desired_owned then Inl InvalidInput
       else Inr observed_freed))"

definition unlink_plan ::
  "block_allocator \<Rightarrow> persisted_inode list \<Rightarrow> persisted_directory_entry list \<Rightarrow>
   block_allocator \<Rightarrow> persisted_inode list \<Rightarrow> persisted_directory_entry list \<Rightarrow> unit res" where
  "unlink_plan current_allocator current_inodes current_entries
     desired_allocator desired_inodes desired_entries =
     (if al_total_blocks current_allocator \<noteq> al_total_blocks desired_allocator \<or>
         al_reserved_blocks current_allocator \<noteq> al_reserved_blocks desired_allocator
      then Inl InvalidInput
      else
        bindR (unlink_inode_delta current_inodes desired_inodes) (\<lambda>removed_id.
        let removed_inode = the (by_id current_inodes removed_id)
        in
          bindR (unlink_entry_delta current_entries desired_entries removed_id (pi_kind removed_inode)) (\<lambda>_.
          bindR (iterR (observe_freed current_allocator desired_allocator)
                   (u64_range (al_reserved_blocks current_allocator) (al_total_blocks current_allocator)) {})
            (\<lambda>observed_freed.
            if observed_freed \<noteq> set (pi_blocks removed_inode) then Inl InvalidInput else Inr ()))))"

definition validate_unlink_transition ::
  "'d block_device \<Rightarrow> superblock \<Rightarrow> block_allocator \<Rightarrow> persisted_inode list \<Rightarrow>
   persisted_directory_entry list \<Rightarrow> ('d, unit) io" where
  "validate_unlink_transition D sb desired_allocator desired_inodes desired_entries =
     io_bind (load_allocator D sb) (\<lambda>current_allocator.
     io_bind (load_inode_table D sb) (\<lambda>current_inodes.
     io_bind (load_directory_table D sb) (\<lambda>current_entries.
       io_lift (unlink_plan current_allocator current_inodes current_entries
                  desired_allocator desired_inodes desired_entries))))"

definition store_unlink_metadata_journaled ::
  "'d block_device \<Rightarrow> superblock \<Rightarrow> block_allocator \<Rightarrow> persisted_inode list \<Rightarrow>
   persisted_directory_entry list \<Rightarrow> ('d, recovery_report) io" where
  "store_unlink_metadata_journaled D sb allocator inodes entries =
     io_bind (validate_unlink_transition D sb allocator inodes entries) (\<lambda>_.
       store_create_metadata_journaled D sb allocator inodes entries)"

section \<open>Specifications\<close>

definition checked :: "fs_state \<Rightarrow> unit res" where
  "checked fs = (if consistent fs then Inr () else Inl InvalidData)"

definition rename_spec ::
  "superblock \<Rightarrow> u64 \<Rightarrow> rust_string \<Rightarrow> u64 \<Rightarrow> rust_string \<Rightarrow> fs_state \<Rightarrow> (unit \<times> fs_state) res" where
  "rename_spec sb old_parent old_name new_parent new_name fs =
     bindR (validate_directory_parent (fs_inodes fs) old_parent) (\<lambda>_.
     bindR (validate_directory_parent (fs_inodes fs) new_parent) (\<lambda>_.
     bindR (rename_plan (fs_inodes fs) (fs_entries fs) old_parent old_name new_parent new_name) (\<lambda>plan.
       case plan of None \<Rightarrow> Inr ((), fs) | Some entries \<Rightarrow> put_entries sb entries fs)))"

definition hard_link_spec ::
  "superblock \<Rightarrow> u64 \<Rightarrow> rust_string \<Rightarrow> u64 \<Rightarrow> fs_state \<Rightarrow> (unit \<times> fs_state) res" where
  "hard_link_spec sb parent name target fs =
     bindR (validate_directory_parent (fs_inodes fs) parent) (\<lambda>_.
     bindR (validate_regular_file_target (fs_inodes fs) target) (\<lambda>_.
     bindR (hard_link_plan (fs_entries fs) parent name target) (\<lambda>entries.
       put_entries sb entries fs)))"

definition hard_unlink_spec ::
  "superblock \<Rightarrow> u64 \<Rightarrow> rust_string \<Rightarrow> fs_state \<Rightarrow> (unit \<times> fs_state) res" where
  "hard_unlink_spec sb parent name fs =
     bindR (hard_unlink_plan (fs_inodes fs) (fs_entries fs) parent name) (\<lambda>entries.
       put_entries sb entries fs)"

definition overwrite_spec ::
  "superblock \<Rightarrow> u64 \<Rightarrow> rust_string \<Rightarrow> u64 \<Rightarrow> rust_string \<Rightarrow> bool \<Rightarrow> fs_state \<Rightarrow> (unit \<times> fs_state) res" where
  "overwrite_spec sb old_parent old_name new_parent new_name linked fs =
     bindR (checked fs) (\<lambda>_.
     bindR (validate_directory_parent (fs_inodes fs) old_parent) (\<lambda>_.
     bindR (validate_directory_parent (fs_inodes fs) new_parent) (\<lambda>_.
     bindR (overwrite_plan (fs_inodes fs) (fs_entries fs) old_parent old_name new_parent new_name linked) (\<lambda>plan.
       case plan of
         None \<Rightarrow> Inr ((), fs)
       | Some (inode, entries) \<Rightarrow>
           if linked then put_entries sb entries fs
           else
             bindR (release_blocks InvalidInput (fs_alloc fs) (pi_blocks inode)) (\<lambda>allocator.
               put_tables sb allocator (filter (\<lambda>x. pi_id x \<noteq> pi_id inode) (fs_inodes fs)) entries fs)))))"

definition exchange_spec ::
  "superblock \<Rightarrow> u64 \<Rightarrow> rust_string \<Rightarrow> u64 \<Rightarrow> rust_string \<Rightarrow> fs_state \<Rightarrow> (unit \<times> fs_state) res" where
  "exchange_spec sb first_parent first_name second_parent second_name fs =
     bindR (checked fs) (\<lambda>_.
     bindR (validate_directory_parent (fs_inodes fs) first_parent) (\<lambda>_.
     bindR (validate_directory_parent (fs_inodes fs) second_parent) (\<lambda>_.
       if first_parent = second_parent \<and> first_name = second_name then Inr ((), fs)
       else
         bindR (exchange_plan (fs_inodes fs) (fs_entries fs) first_parent first_name second_parent second_name)
           (\<lambda>plan. case plan of None \<Rightarrow> Inr ((), fs) | Some entries \<Rightarrow> put_entries sb entries fs))))"

definition unlink_spec ::
  "superblock \<Rightarrow> block_allocator \<Rightarrow> persisted_inode list \<Rightarrow> persisted_directory_entry list \<Rightarrow> fs_state \<Rightarrow>
   (unit \<times> fs_state) res" where
  "unlink_spec sb allocator inodes entries fs =
     bindR (unlink_plan (fs_alloc fs) (fs_inodes fs) (fs_entries fs) allocator inodes entries) (\<lambda>_.
       put_tables sb allocator inodes entries fs)"

section \<open>The operations implement their specifications\<close>

text \<open>Freeing keeps the invariant and releases exactly the listed blocks.\<close>

lemma release_blocks_Inr:
  assumes "alloc_inv a" and "release_blocks e a bs = Inr a'"
  shows "alloc_inv a' \<and> same_geometry a a' \<and> owned a' = owned a - set bs"
  using assms unfolding release_blocks_def
proof (induction bs arbitrary: a)
  case (Cons b bs)
  obtain a1 where a1: "free a b = (Inr (), a1)" "release_blocks e a1 bs = Inr a'"
    using Cons.prems(2) by (auto simp: release_blocks_def bindR_Inr_iff split: prod.splits sum.splits)
  note found = free_found [OF Cons.prems(1) a1(1)]
  show ?case using Cons.IH [OF found(3) a1(2) [unfolded release_blocks_def]] found(2,4) by auto
qed simp

lemma release_blocks_ok:
  assumes "alloc_inv a" and "set bs \<subseteq> owned a" and "distinct bs"
  shows "\<exists>a'. release_blocks e a bs = Inr a'"
  using assms
proof (induction bs arbitrary: a)
  case (Cons b bs)
  have "b < al_total_blocks a" "\<not> b < al_reserved_blocks a" "b \<in> owned a"
    using Cons.prems(2) by (auto simp: owned_def data_blocks_def)
  then obtain a1 where a1: "free a b = (Inr (), a1)"
    unfolding free_spec [OF Cons.prems(1)] by (auto simp: not_le)
  note found = free_found [OF Cons.prems(1) a1]
  obtain a' where "release_blocks e a1 bs = Inr a'"
    using Cons.IH [OF found(3)] Cons.prems(2,3) found(2) by auto
  then show ?case using a1 by (simp add: release_blocks_def)
qed (simp add: release_blocks_def)

lemma implements_prod:
  assumes "\<And>x y. implements at faulty sb P ret (m x y) (s x y)"
  shows "implements at faulty sb P ret (case p of (x, y) \<Rightarrow> m x y) (\<lambda>fs. case p of (x, y) \<Rightarrow> s x y fs)"
  using assms by (cases p) simp

context block_dev
begin

lemma implements_checked:
  assumes "sb_ok sb" and "\<And>x. implements at faulty sb (\<lambda>fs. P fs \<and> checked fs = Inr x) ret m s"
  shows "implements at faulty sb P ret (io_bind (check_device D) (\<lambda>_. m)) (\<lambda>fs. bindR (checked fs) (\<lambda>_. s fs))"
proof -
  have "implements at faulty sb P ret (io_bind (io_bind (check_device D) (\<lambda>_. io_return ())) (\<lambda>_. m))
      (\<lambda>fs. bindR (checked fs) (\<lambda>_. s fs))"
    by (rule implements_bind [OF reads_cong [OF reads_check_device [OF assms(1)]] assms(2)])
      (simp add: checked_def)
  then show ?thesis by (simp add: io_bind_assoc io_bind_return)
qed

lemmas act_steps = implements_bind [OF reads_load_allocator] implements_bind [OF reads_load_inodes]
  implements_bind [OF reads_load_entries] implements_bind [OF reads_lift] implements_checked

lemmas act_ends = implements_return implements_put_entries implements_checkpointed [OF _ _ implements_put_entries]

lemma implements_rename:
  assumes "sb_ok sb" and syncs
  shows "implements at faulty sb P (\<lambda>_. ()) (rename_entry_journaled D sb p n p' n') (rename_spec sb p n p' n')"
  unfolding rename_entry_journaled_def
  by (rule implements_cong, (rule act_steps implements_option act_ends assms)+, simp add: rename_spec_def)

lemma implements_hard_link:
  assumes "sb_ok sb" and syncs
  shows "implements at faulty sb P (\<lambda>_. ()) (hard_link_file_journaled D sb p n i) (hard_link_spec sb p n i)"
  unfolding hard_link_file_journaled_def
  by (rule implements_cong, (rule act_steps act_ends assms)+, simp add: hard_link_spec_def)

lemma implements_hard_unlink:
  assumes "sb_ok sb" and syncs
  shows "implements at faulty sb P (\<lambda>_. ()) (unlink_nonfinal_file_link_journaled D sb p n) (hard_unlink_spec sb p n)"
  unfolding unlink_nonfinal_file_link_journaled_def
  by (rule implements_cong, (rule act_steps act_ends assms)+, simp add: hard_unlink_spec_def)

lemma implements_exchange:
  assumes "sb_ok sb" and syncs
  shows "implements at faulty sb P (\<lambda>_. ()) (rename_exchange_files_journaled D sb p n p' n')
    (exchange_spec sb p n p' n')"
  unfolding rename_exchange_files_journaled_def
  by (rule implements_cong, (rule act_steps implements_option implements_if act_ends assms)+,
      simp add: exchange_spec_def)

lemma implements_put_tables_assuming:
  assumes "sb_ok sb" and syncs and "\<And>fs. P fs \<Longrightarrow> alloc_inv a"
  shows "implements at faulty sb P (\<lambda>_. ()) (store_create_metadata_journaled D sb a xs es) (put_tables sb a xs es)"
  by (rule implements_assume [where A = "alloc_inv a"])
    (use assms implements_put_tables in blast)+

lemma reads_validate_unlink:
  assumes "sb_ok sb"
  shows "reads at sb P (validate_unlink_transition D sb a xs es)
    (\<lambda>fs. unlink_plan (fs_alloc fs) (fs_inodes fs) (fs_entries fs) a xs es)"
  unfolding validate_unlink_transition_def
  by (rule reads_cong,
      (rule reads_bind reads_load_allocator reads_load_inodes reads_load_entries reads_lift assms)+, simp)

lemma implements_unlink:
  assumes "sb_ok sb" and syncs and "alloc_inv a"
  shows "implements at faulty sb P (\<lambda>_. ()) (store_unlink_metadata_journaled D sb a xs es) (unlink_spec sb a xs es)"
  unfolding store_unlink_metadata_journaled_def validate_unlink_transition_def io_bind_assoc
  by (rule implements_cong, (rule act_steps implements_put_tables assms)+, simp add: unlink_spec_def)

lemma implements_overwrite:
  assumes "sb_ok sb" and syncs
  shows "implements at faulty sb P (\<lambda>_. ()) (rename_overwrite_file_impl D sb p n p' n' linked)
    (overwrite_spec sb p n p' n' linked)"
  unfolding rename_overwrite_file_impl_def
proof (rule implements_typed, rule implements_cong,
    (rule act_steps implements_option implements_prod implements_if act_ends
      implements_put_tables_assuming assms)+, goal_cases)
  case 1
  then show ?case using release_blocks_Inr by (auto simp: fs_typed_def)
next
  case (2 fs)
  show ?case by (simp add: overwrite_spec_def split: option.splits)
qed

end

lemma crash_safe_namespace:
  assumes "sb_ok sb"
  shows "crash_safe sb P (\<lambda>_. ()) (rename_entry_journaled crash_ops sb p n p' n') (rename_spec sb p n p' n')"
    and "crash_safe sb P (\<lambda>_. ()) (hard_link_file_journaled crash_ops sb p n i) (hard_link_spec sb p n i)"
    and "crash_safe sb P (\<lambda>_. ()) (unlink_nonfinal_file_link_journaled crash_ops sb p n) (hard_unlink_spec sb p n)"
    and "crash_safe sb P (\<lambda>_. ()) (rename_overwrite_file_journaled crash_ops sb p n p' n')
      (overwrite_spec sb p n p' n' False)"
    and "crash_safe sb P (\<lambda>_. ()) (rename_overwrite_linked_file_journaled crash_ops sb p n p' n')
      (overwrite_spec sb p n p' n' True)"
    and "crash_safe sb P (\<lambda>_. ()) (rename_exchange_files_journaled crash_ops sb p n p' n') (exchange_spec sb p n p' n')"
    and "alloc_inv a \<Longrightarrow>
      crash_safe sb P (\<lambda>_. ()) (store_unlink_metadata_journaled crash_ops sb a xs es) (unlink_spec sb a xs es)"
  using assms unfolding crash_safe_def rename_overwrite_file_journaled_def rename_overwrite_linked_file_journaled_def
  by (simp_all add: crash_dev.implements_rename calm_dev.implements_rename
      crash_dev.implements_hard_link calm_dev.implements_hard_link
      crash_dev.implements_hard_unlink calm_dev.implements_hard_unlink
      crash_dev.implements_overwrite calm_dev.implements_overwrite
      crash_dev.implements_exchange calm_dev.implements_exchange
      crash_dev.implements_unlink calm_dev.implements_unlink)

end
