(* ===== verification/FS_File_Data.thy ===== *)
theory FS_File_Data
  imports FS_Namespace_Tx
begin

text \<open>
  The operations on the contents of regular files: reading and overwriting blocks and byte
  ranges (\<^verbatim>\<open>file_data.rs\<close>, \<^verbatim>\<open>file_overwrite_batch.rs\<close>, \<^verbatim>\<open>file_range_read.rs\<close>), copying and
  zeroing ranges (\<^verbatim>\<open>file_copy_range.rs\<close>, \<^verbatim>\<open>file_zero_range.rs\<close>), growing a file
  (\<^verbatim>\<open>append_file_block_journaled\<close>, \<^verbatim>\<open>file_append_batch.rs\<close>, \<^verbatim>\<open>file_insert.rs\<close>) and shrinking it
  (\<^verbatim>\<open>truncate_tx.rs\<close>). A logical index and a byte offset are \<^verbatim>\<open>usize\<close> values, modelled as
  natural numbers with checked addition.
\<close>

section \<open>Blocks of a file\<close>

text \<open>The position of the inode, which must be a regular file.\<close>

definition find_file :: "persisted_inode list \<Rightarrow> u64 \<Rightarrow> nat res" where
  "find_file inodes inode_id =
     bindR (ok_or InvalidInput (position (\<lambda>inode. pi_id inode = inode_id) inodes)) (\<lambda>k.
       if pi_kind (inodes ! k) \<noteq> File then Inl InvalidInput else Inr k)"

text \<open>\<^verbatim>\<open>inode.blocks.get(index)\<close>\<close>

definition block_at :: "persisted_inode \<Rightarrow> nat \<Rightarrow> u64 res" where
  "block_at inode index =
     (if index < length (pi_blocks inode) then Inr (pi_blocks inode ! index) else Inl InvalidInput)"

definition check_owned :: "block_allocator \<Rightarrow> u64 \<Rightarrow> unit res" where
  "check_owned allocator block =
     bindR (map_err (\<lambda>_. InvalidData) (is_owned allocator block)) (\<lambda>owned.
       if \<not> owned then Inl InvalidData else Inr ())"

definition resolve_owned_file_block ::
  "'d block_device \<Rightarrow> superblock \<Rightarrow> u64 \<Rightarrow> nat \<Rightarrow> ('d, u64) io" where
  "resolve_owned_file_block D sb inode_id file_block_index =
     io_bind (load_inode_table D sb) (\<lambda>inodes.
     io_bind (io_lift (find_file inodes inode_id)) (\<lambda>k.
     io_bind (io_lift (block_at (inodes ! k) file_block_index)) (\<lambda>block.
     io_bind (load_allocator D sb) (\<lambda>allocator.
     io_bind (io_lift (check_owned allocator block)) (\<lambda>_.
       io_return block)))))"

section \<open>Reading and overwriting\<close>

definition read_file_block :: "'d block_device \<Rightarrow> superblock \<Rightarrow> u64 \<Rightarrow> nat \<Rightarrow> ('d, bytes) io" where
  "read_file_block D sb inode_id file_block_index =
     io_bind (resolve_owned_file_block D sb inode_id file_block_index) (\<lambda>block. read_block D block)"

definition journal_block_image ::
  "'d block_device \<Rightarrow> superblock \<Rightarrow> u64 \<Rightarrow> bytes \<Rightarrow> ('d, recovery_report) io" where
  "journal_block_image D sb block data =
     io_bind (read_block D block) (\<lambda>current.
       if current = data then io_return default_report
       else publish D sb recover_journal_and_checkpoint [(block, data)])"

definition write_file_block_journaled ::
  "'d block_device \<Rightarrow> superblock \<Rightarrow> u64 \<Rightarrow> nat \<Rightarrow> bytes \<Rightarrow> ('d, recovery_report) io" where
  "write_file_block_journaled D sb inode_id file_block_index data =
     io_bind (resolve_owned_file_block D sb inode_id file_block_index) (\<lambda>block.
       journal_block_image D sb block data)"

definition write_file_block_range_journaled ::
  "'d block_device \<Rightarrow> superblock \<Rightarrow> u64 \<Rightarrow> nat \<Rightarrow> nat \<Rightarrow> bytes \<Rightarrow> ('d, recovery_report) io" where
  "write_file_block_range_journaled D sb inode_id file_block_index offset data =
     (if data = [] \<or> offset \<ge> BLOCK_SIZE \<or> length data > BLOCK_SIZE - offset then io_fail InvalidInput
      else
        io_bind (resolve_owned_file_block D sb inode_id file_block_index) (\<lambda>block.
        io_bind (read_block D block) (\<lambda>image.
          journal_block_image D sb block (copy_slice image offset data))))"

text \<open>One round of the batch: the indices seen and the blocks that change.\<close>

definition overwrite_round ::
  "'d block_device \<Rightarrow> block_allocator \<Rightarrow> persisted_inode \<Rightarrow> nat \<times> bytes \<Rightarrow> nat set \<times> writes \<Rightarrow>
   ('d, nat set \<times> writes) io" where
  "overwrite_round D allocator inode write state =
     (case (write, state) of ((logical_index, img), (seen, changed)) \<Rightarrow>
        if logical_index \<in> seen then io_fail InvalidInput
        else
          io_bind (io_lift (block_at inode logical_index)) (\<lambda>block.
          io_bind (io_lift (check_owned allocator block)) (\<lambda>_.
          io_bind (read_block D block) (\<lambda>current.
            io_return (insert logical_index seen,
              if current \<noteq> img then changed @ [(block, img)] else changed)))))"

definition write_file_blocks_journaled ::
  "'d block_device \<Rightarrow> superblock \<Rightarrow> u64 \<Rightarrow> (nat \<times> bytes) list \<Rightarrow> ('d, recovery_report) io" where
  "write_file_blocks_journaled D sb inode_id ws =
     (if ws = [] then io_fail InvalidInput
      else
        io_bind (load_inode_table D sb) (\<lambda>inodes.
        io_bind (io_lift (find_file inodes inode_id)) (\<lambda>k.
        io_bind (load_allocator D sb) (\<lambda>allocator.
        io_bind (io_fold (overwrite_round D allocator (inodes ! k)) ws ({}, [])) (\<lambda>(_, changed).
          if changed = [] then io_return default_report
          else publish D sb recover_journal_and_checkpoint changed)))))"

text \<open>\<^verbatim>\<open>last_byte.div_ceil(BLOCK_SIZE)\<close>\<close>

definition div_ceil :: "nat \<Rightarrow> nat \<Rightarrow> nat" where
  "div_ceil a b = a div b + (if a mod b > 0 then 1 else 0)"

definition write_range_round ::
  "'d block_device \<Rightarrow> superblock \<Rightarrow> u64 \<Rightarrow> nat \<Rightarrow> nat \<Rightarrow> bytes \<Rightarrow> nat \<Rightarrow> nat \<times> (nat \<times> bytes) list \<Rightarrow>
   ('d, nat \<times> (nat \<times> bytes) list) io" where
  "write_range_round D sb inode_id first_block_index start_offset data relative_index state =
     (case state of (consumed, ws) \<Rightarrow>
        io_bind (io_lift (ok_or InvalidInput (usize_add first_block_index relative_index))) (\<lambda>logical_index.
        io_bind (read_file_block D sb inode_id logical_index) (\<lambda>img.
          let begin = (if relative_index = 0 then start_offset else 0);
              available = BLOCK_SIZE - begin;
              taken = min available (length data - consumed)
          in io_return (consumed + taken,
               ws @ [(logical_index, copy_slice img begin (subslice data consumed (consumed + taken)))]))))"

definition write_file_range_journaled ::
  "'d block_device \<Rightarrow> superblock \<Rightarrow> u64 \<Rightarrow> nat \<Rightarrow> nat \<Rightarrow> bytes \<Rightarrow> ('d, recovery_report) io" where
  "write_file_range_journaled D sb inode_id first_block_index start_offset data =
     (if data = [] \<or> start_offset \<ge> BLOCK_SIZE then io_fail InvalidInput
      else
        io_bind (io_lift (ok_or InvalidInput (usize_add start_offset (length data)))) (\<lambda>last_byte.
        io_bind (io_fold (write_range_round D sb inode_id first_block_index start_offset data)
                   [0..<div_ceil last_byte BLOCK_SIZE] (0, [])) (\<lambda>(_, ws).
          write_file_blocks_journaled D sb inode_id ws)))"

definition read_range_round ::
  "'d block_device \<Rightarrow> superblock \<Rightarrow> u64 \<Rightarrow> nat \<Rightarrow> nat \<Rightarrow> nat \<Rightarrow> bytes \<times> nat \<Rightarrow> ('d, bytes \<times> nat) io" where
  "read_range_round D sb inode_id first_block_index start_offset relative_index state =
     (case state of (out, remaining) \<Rightarrow>
        io_bind (io_lift (ok_or InvalidInput (usize_add first_block_index relative_index))) (\<lambda>logical_index.
        io_bind (read_file_block D sb inode_id logical_index) (\<lambda>img.
          let begin = (if relative_index = 0 then start_offset else 0);
              taken = min (BLOCK_SIZE - begin) remaining
          in io_return (out @ subslice img begin (begin + taken), remaining - taken))))"

definition read_file_range ::
  "'d block_device \<Rightarrow> superblock \<Rightarrow> u64 \<Rightarrow> nat \<Rightarrow> nat \<Rightarrow> nat \<Rightarrow> ('d, bytes) io" where
  "read_file_range D sb inode_id first_block_index start_offset len =
     (if len = 0 \<or> start_offset \<ge> BLOCK_SIZE then io_fail InvalidInput
      else
        io_bind (io_lift (ok_or InvalidInput (usize_add start_offset len))) (\<lambda>last_byte.
        io_bind (io_fold (read_range_round D sb inode_id first_block_index start_offset)
                   [0..<div_ceil last_byte BLOCK_SIZE] ([], len)) (\<lambda>(out, _).
          io_return out)))"

record file_range_endpoint =
  fre_inode :: u64
  fre_first_block :: nat
  fre_offset :: nat

definition copy_file_range_journaled ::
  "'d block_device \<Rightarrow> superblock \<Rightarrow> file_range_endpoint \<Rightarrow> file_range_endpoint \<Rightarrow> nat \<Rightarrow>
   ('d, recovery_report) io" where
  "copy_file_range_journaled D sb source destination len =
     io_bind (read_file_range D sb (fre_inode source) (fre_first_block source) (fre_offset source) len)
       (\<lambda>snapshot.
       write_file_range_journaled D sb (fre_inode destination) (fre_first_block destination)
         (fre_offset destination) snapshot)"

definition zero_file_range_journaled ::
  "'d block_device \<Rightarrow> superblock \<Rightarrow> u64 \<Rightarrow> nat \<Rightarrow> nat \<Rightarrow> nat \<Rightarrow> ('d, recovery_report) io" where
  "zero_file_range_journaled D sb inode_id first_block offset len =
     (if len = 0 then io_fail InvalidInput
      else write_file_range_journaled D sb inode_id first_block offset (replicate len 0))"

section \<open>Growing\<close>

definition set_blocks :: "persisted_inode list \<Rightarrow> nat \<Rightarrow> u64 list \<Rightarrow> persisted_inode list" where
  "set_blocks inodes k blocks = inodes[k := (inodes ! k)\<lparr>pi_blocks := blocks\<rparr>]"

definition allocate_block :: "block_allocator \<Rightarrow> (u64 \<times> block_allocator) res" where
  "allocate_block allocator =
     (case allocate allocator of (Inl _, _) \<Rightarrow> Inl InvalidInput | (Inr block, allocator') \<Rightarrow> Inr (block, allocator'))"

text \<open>
  The tables with the grown file are rendered, and their changed blocks published together with
  the new data blocks.
\<close>

definition publish_grown ::
  "'d block_device \<Rightarrow> superblock \<Rightarrow> block_allocator \<Rightarrow> persisted_inode list \<Rightarrow> writes \<Rightarrow>
   ('d, recovery_report) io" where
  "publish_grown D sb allocator inodes new =
     io_bind (stage D sb
                (io_bind (store_allocator capture_ops sb allocator) (\<lambda>_.
                   store_inode_table capture_ops sb inodes))
                [allocation_range sb, inode_range sb]) (\<lambda>changed.
       publish D sb recover_journal_and_checkpoint (changed @ new))"

definition append_file_block_journaled ::
  "'d block_device \<Rightarrow> superblock \<Rightarrow> u64 \<Rightarrow> bytes \<Rightarrow> ('d, u64 \<times> recovery_report) io" where
  "append_file_block_journaled D sb inode_id data =
     io_bind (load_allocator D sb) (\<lambda>allocator.
     io_bind (load_inode_table D sb) (\<lambda>inodes.
     io_bind (io_lift (find_file inodes inode_id)) (\<lambda>k.
     io_bind (io_lift (allocate_block allocator)) (\<lambda>(block, allocator).
     io_bind (publish_grown D sb allocator (set_blocks inodes k (pi_blocks (inodes ! k) @ [block]))
                [(block, data)]) (\<lambda>report.
       io_return (block, report))))))"

definition allocate_round ::
  "bytes \<Rightarrow> block_allocator \<times> u64 list \<Rightarrow> (block_allocator \<times> u64 list) res" where
  "allocate_round _ state =
     (case state of (allocator, blocks) \<Rightarrow>
        bindR (allocate_block allocator) (\<lambda>(block, allocator). Inr (allocator, blocks @ [block])))"

definition append_file_blocks_journaled ::
  "'d block_device \<Rightarrow> superblock \<Rightarrow> u64 \<Rightarrow> bytes list \<Rightarrow> ('d, u64 list \<times> recovery_report) io" where
  "append_file_blocks_journaled D sb inode_id new_blocks =
     (if new_blocks = [] then io_fail InvalidInput
      else
        io_bind (load_allocator D sb) (\<lambda>allocator.
        io_bind (load_inode_table D sb) (\<lambda>inodes.
        io_bind (io_lift (find_file inodes inode_id)) (\<lambda>k.
        io_bind (io_lift (iterR allocate_round new_blocks (allocator, []))) (\<lambda>(allocator, blocks).
        io_bind (publish_grown D sb allocator (set_blocks inodes k (pi_blocks (inodes ! k) @ blocks))
                   (zip blocks new_blocks)) (\<lambda>report.
          io_return (blocks, report)))))))"

text \<open>\<^verbatim>\<open>Vec::insert\<close>\<close>

definition insert_at :: "nat \<Rightarrow> 'a \<Rightarrow> 'a list \<Rightarrow> 'a list" where
  "insert_at i x xs = take i xs @ x # drop i xs"

definition insert_file_block_journaled ::
  "'d block_device \<Rightarrow> superblock \<Rightarrow> u64 \<Rightarrow> nat \<Rightarrow> bytes \<Rightarrow> ('d, u64 \<times> recovery_report) io" where
  "insert_file_block_journaled D sb inode_id insert_index data =
     io_bind (load_allocator D sb) (\<lambda>allocator.
     io_bind (load_inode_table D sb) (\<lambda>inodes.
     io_bind (io_lift (find_file inodes inode_id)) (\<lambda>k.
       if insert_index > length (pi_blocks (inodes ! k)) then io_fail InvalidInput
       else
         io_bind (io_lift (allocate_block allocator)) (\<lambda>(block, allocator).
         io_bind (publish_grown D sb allocator
                    (set_blocks inodes k (insert_at insert_index block (pi_blocks (inodes ! k))))
                    [(block, data)]) (\<lambda>report.
           io_return (block, report))))))"

section \<open>Shrinking\<close>

definition truncate_file_to_zero_journaled ::
  "'d block_device \<Rightarrow> superblock \<Rightarrow> u64 \<Rightarrow> ('d, recovery_report) io" where
  "truncate_file_to_zero_journaled D sb inode_id =
     io_bind (load_allocator D sb) (\<lambda>allocator.
     io_bind (load_inode_table D sb) (\<lambda>inodes.
     io_bind (load_directory_table D sb) (\<lambda>entries.
     io_bind (io_lift (find_file inodes inode_id)) (\<lambda>k.
       let blocks = pi_blocks (inodes ! k) in
       if blocks = [] then io_return default_report
       else
         io_bind (io_lift (release_blocks InvalidData allocator blocks)) (\<lambda>allocator.
           store_create_metadata_journaled D sb allocator (set_blocks inodes k []) entries)))))"

definition truncate_file_to_blocks_journaled ::
  "'d block_device \<Rightarrow> superblock \<Rightarrow> u64 \<Rightarrow> nat \<Rightarrow> ('d, u64 list \<times> recovery_report) io" where
  "truncate_file_to_blocks_journaled D sb inode_id target_blocks =
     io_bind (load_allocator D sb) (\<lambda>allocator.
     io_bind (load_inode_table D sb) (\<lambda>inodes.
     io_bind (load_directory_table D sb) (\<lambda>entries.
     io_bind (io_lift (find_file inodes inode_id)) (\<lambda>k.
       let blocks = pi_blocks (inodes ! k) in
       if target_blocks > length blocks then io_fail InvalidInput
       else if target_blocks = length blocks then io_return ([], default_report)
       else
         let released = drop target_blocks blocks in
         io_bind (io_lift (release_blocks InvalidData allocator released)) (\<lambda>allocator.
         io_bind (store_create_metadata_journaled D sb allocator
                    (set_blocks inodes k (take target_blocks blocks)) entries) (\<lambda>report.
           io_return (released, report)))))))"

definition truncate_file_last_block_journaled ::
  "'d block_device \<Rightarrow> superblock \<Rightarrow> u64 \<Rightarrow> ('d, u64 \<times> recovery_report) io" where
  "truncate_file_last_block_journaled D sb inode_id =
     io_bind (load_allocator D sb) (\<lambda>allocator.
     io_bind (load_inode_table D sb) (\<lambda>inodes.
     io_bind (load_directory_table D sb) (\<lambda>entries.
     io_bind (io_lift (find_file inodes inode_id)) (\<lambda>k.
       let blocks = pi_blocks (inodes ! k) in
       if blocks = [] then io_fail InvalidInput
       else
         io_bind (io_lift (release_blocks InvalidData allocator [last blocks])) (\<lambda>allocator.
         io_bind (store_create_metadata_journaled D sb allocator
                    (set_blocks inodes k (butlast blocks)) entries) (\<lambda>report.
           io_return (last blocks, report)))))))"

end
