(* ===== verification/FS_File_Spec.thy ===== *)
theory FS_File_Spec
  imports FS_File_Data
begin

text \<open>
  The file operations as functions on the mounted state, and the lemmas that the operations of
  \<^verbatim>\<open>FS_File_Data\<close> implement them on every device of the contract. The lemmas about reading and
  writing file blocks ask for a consistent state: on such a state every block of an inode is a
  data block. The ownership query of the code also accepts reserved blocks
  (\<^verbatim>\<open>check_owned_reserved\<close>).
\<close>

section \<open>Specifications\<close>

definition resolve_block :: "fs_state \<Rightarrow> u64 \<Rightarrow> nat \<Rightarrow> u64 res" where
  "resolve_block fs i index =
     bindR (find_file (fs_inodes fs) i) (\<lambda>k.
     bindR (block_at (fs_inodes fs ! k) index) (\<lambda>b.
     bindR (check_owned (fs_alloc fs) b) (\<lambda>_. Inr b)))"

definition file_block :: "fs_state \<Rightarrow> u64 \<Rightarrow> nat \<Rightarrow> bytes res" where
  "file_block fs i index = bindR (resolve_block fs i index) (\<lambda>b. Inr (fs_data fs b))"

definition put_data :: "writes \<Rightarrow> fs_state \<Rightarrow> (unit \<times> fs_state) res" where
  "put_data ws fs = Inr ((), fs\<lparr>fs_data := apply_writes ws (fs_data fs) id\<rparr>)"

definition write_block_spec :: "u64 \<Rightarrow> nat \<Rightarrow> bytes \<Rightarrow> fs_state \<Rightarrow> (unit \<times> fs_state) res" where
  "write_block_spec i index data fs = bindR (resolve_block fs i index) (\<lambda>b. put_data [(b, data)] fs)"

definition write_block_range_spec :: "u64 \<Rightarrow> nat \<Rightarrow> nat \<Rightarrow> bytes \<Rightarrow> fs_state \<Rightarrow> (unit \<times> fs_state) res" where
  "write_block_range_spec i index off data fs =
     (if data = [] \<or> off \<ge> BLOCK_SIZE \<or> length data > BLOCK_SIZE - off then Inl InvalidInput
      else bindR (resolve_block fs i index) (\<lambda>b. put_data [(b, copy_slice (fs_data fs b) off data)] fs))"

definition batch_step ::
  "fs_state \<Rightarrow> persisted_inode \<Rightarrow> nat \<times> bytes \<Rightarrow> nat set \<times> writes \<Rightarrow> (nat set \<times> writes) res" where
  "batch_step fs inode w state =
     (case (w, state) of ((index, img), (seen, changed)) \<Rightarrow>
        if index \<in> seen then Inl InvalidInput
        else
          bindR (block_at inode index) (\<lambda>b.
          bindR (check_owned (fs_alloc fs) b) (\<lambda>_.
            Inr (insert index seen, if fs_data fs b \<noteq> img then changed @ [(b, img)] else changed))))"

definition write_blocks_spec :: "u64 \<Rightarrow> (nat \<times> bytes) list \<Rightarrow> fs_state \<Rightarrow> (unit \<times> fs_state) res" where
  "write_blocks_spec i ws fs =
     (if ws = [] then Inl InvalidInput
      else
        bindR (find_file (fs_inodes fs) i) (\<lambda>k.
        bindR (iterR (batch_step fs (fs_inodes fs ! k)) ws ({}, [])) (\<lambda>(_, changed).
          put_data changed fs)))"

definition write_range_step ::
  "fs_state \<Rightarrow> u64 \<Rightarrow> nat \<Rightarrow> nat \<Rightarrow> bytes \<Rightarrow> nat \<Rightarrow> nat \<times> (nat \<times> bytes) list \<Rightarrow>
   (nat \<times> (nat \<times> bytes) list) res" where
  "write_range_step fs i first off data k state =
     (case state of (consumed, ws) \<Rightarrow>
        bindR (ok_or InvalidInput (usize_add first k)) (\<lambda>index.
        bindR (file_block fs i index) (\<lambda>img.
          let begin = (if k = 0 then off else 0);
              taken = min (BLOCK_SIZE - begin) (length data - consumed)
          in Inr (consumed + taken,
               ws @ [(index, copy_slice img begin (subslice data consumed (consumed + taken)))]))))"

definition write_range_spec :: "u64 \<Rightarrow> nat \<Rightarrow> nat \<Rightarrow> bytes \<Rightarrow> fs_state \<Rightarrow> (unit \<times> fs_state) res" where
  "write_range_spec i first off data fs =
     (if data = [] \<or> off \<ge> BLOCK_SIZE then Inl InvalidInput
      else
        bindR (ok_or InvalidInput (usize_add off (length data))) (\<lambda>last_byte.
        bindR (iterR (write_range_step fs i first off data) [0..<div_ceil last_byte BLOCK_SIZE] (0, []))
          (\<lambda>(_, ws). write_blocks_spec i ws fs)))"

definition read_range_step ::
  "fs_state \<Rightarrow> u64 \<Rightarrow> nat \<Rightarrow> nat \<Rightarrow> nat \<Rightarrow> bytes \<times> nat \<Rightarrow> (bytes \<times> nat) res" where
  "read_range_step fs i first off k state =
     (case state of (out, remaining) \<Rightarrow>
        bindR (ok_or InvalidInput (usize_add first k)) (\<lambda>index.
        bindR (file_block fs i index) (\<lambda>img.
          let begin = (if k = 0 then off else 0); taken = min (BLOCK_SIZE - begin) remaining
          in Inr (out @ subslice img begin (begin + taken), remaining - taken))))"

definition read_range_spec :: "u64 \<Rightarrow> nat \<Rightarrow> nat \<Rightarrow> nat \<Rightarrow> fs_state \<Rightarrow> bytes res" where
  "read_range_spec i first off len fs =
     (if len = 0 \<or> off \<ge> BLOCK_SIZE then Inl InvalidInput
      else
        bindR (ok_or InvalidInput (usize_add off len)) (\<lambda>last_byte.
        bindR (iterR (read_range_step fs i first off) [0..<div_ceil last_byte BLOCK_SIZE] ([], len))
          (\<lambda>(out, _). Inr out)))"

definition copy_range_spec ::
  "file_range_endpoint \<Rightarrow> file_range_endpoint \<Rightarrow> nat \<Rightarrow> fs_state \<Rightarrow> (unit \<times> fs_state) res" where
  "copy_range_spec src dst len fs =
     bindR (read_range_spec (fre_inode src) (fre_first_block src) (fre_offset src) len fs) (\<lambda>data.
       write_range_spec (fre_inode dst) (fre_first_block dst) (fre_offset dst) data fs)"

definition zero_range_spec :: "u64 \<Rightarrow> nat \<Rightarrow> nat \<Rightarrow> nat \<Rightarrow> fs_state \<Rightarrow> (unit \<times> fs_state) res" where
  "zero_range_spec i first off len fs =
     (if len = 0 then Inl InvalidInput else write_range_spec i first off (replicate len 0) fs)"

definition put_grown ::
  "superblock \<Rightarrow> block_allocator \<Rightarrow> persisted_inode list \<Rightarrow> writes \<Rightarrow> fs_state \<Rightarrow> (unit \<times> fs_state) res" where
  "put_grown sb a xs new fs =
     bindR (encode_allocator sb a) (\<lambda>_. bindR (inode_encode_image sb xs) (\<lambda>_.
       Inr ((), fs\<lparr>fs_alloc := a, fs_inodes := xs, fs_data := apply_writes new (fs_data fs) id\<rparr>)))"

text \<open>The result of an operation, with its value replaced.\<close>

abbreviation yielding :: "'b \<Rightarrow> (unit \<times> fs_state) res \<Rightarrow> ('b \<times> fs_state) res" where
  "yielding y r \<equiv> bindR r (\<lambda>(_, fs). Inr (y, fs))"

definition append_spec :: "superblock \<Rightarrow> u64 \<Rightarrow> bytes \<Rightarrow> fs_state \<Rightarrow> (u64 \<times> fs_state) res" where
  "append_spec sb i data fs =
     bindR (find_file (fs_inodes fs) i) (\<lambda>k.
     bindR (allocate_block (fs_alloc fs)) (\<lambda>(b, a).
       yielding b (put_grown sb a (set_blocks (fs_inodes fs) k (pi_blocks (fs_inodes fs ! k) @ [b])) [(b, data)] fs)))"

definition append_blocks_spec :: "superblock \<Rightarrow> u64 \<Rightarrow> bytes list \<Rightarrow> fs_state \<Rightarrow> (u64 list \<times> fs_state) res" where
  "append_blocks_spec sb i datas fs =
     (if datas = [] then Inl InvalidInput
      else
        bindR (find_file (fs_inodes fs) i) (\<lambda>k.
        bindR (iterR allocate_round datas (fs_alloc fs, [])) (\<lambda>(a, bs).
          yielding bs (put_grown sb a (set_blocks (fs_inodes fs) k (pi_blocks (fs_inodes fs ! k) @ bs))
            (zip bs datas) fs))))"

definition insert_spec :: "superblock \<Rightarrow> u64 \<Rightarrow> nat \<Rightarrow> bytes \<Rightarrow> fs_state \<Rightarrow> (u64 \<times> fs_state) res" where
  "insert_spec sb i at data fs =
     bindR (find_file (fs_inodes fs) i) (\<lambda>k.
       if at > length (pi_blocks (fs_inodes fs ! k)) then Inl InvalidInput
       else
         bindR (allocate_block (fs_alloc fs)) (\<lambda>(b, a).
           yielding b (put_grown sb a
             (set_blocks (fs_inodes fs) k (insert_at at b (pi_blocks (fs_inodes fs ! k)))) [(b, data)] fs)))"

text \<open>Shrinking to the first \<open>n\<close> blocks.\<close>

definition shrink_spec :: "superblock \<Rightarrow> nat \<Rightarrow> nat \<Rightarrow> fs_state \<Rightarrow> (unit \<times> fs_state) res" where
  "shrink_spec sb k n fs =
     bindR (release_blocks InvalidData (fs_alloc fs) (drop n (pi_blocks (fs_inodes fs ! k)))) (\<lambda>a.
       put_tables sb a (set_blocks (fs_inodes fs) k (take n (pi_blocks (fs_inodes fs ! k)))) (fs_entries fs) fs)"

definition truncate_zero_spec :: "superblock \<Rightarrow> u64 \<Rightarrow> fs_state \<Rightarrow> (unit \<times> fs_state) res" where
  "truncate_zero_spec sb i fs =
     bindR (find_file (fs_inodes fs) i) (\<lambda>k.
       if pi_blocks (fs_inodes fs ! k) = [] then Inr ((), fs) else shrink_spec sb k 0 fs)"

definition truncate_blocks_spec :: "superblock \<Rightarrow> u64 \<Rightarrow> nat \<Rightarrow> fs_state \<Rightarrow> (u64 list \<times> fs_state) res" where
  "truncate_blocks_spec sb i n fs =
     bindR (find_file (fs_inodes fs) i) (\<lambda>k.
       let bs = pi_blocks (fs_inodes fs ! k) in
       if n > length bs then Inl InvalidInput
       else if n = length bs then Inr ([], fs)
       else yielding (drop n bs) (shrink_spec sb k n fs))"

definition truncate_last_spec :: "superblock \<Rightarrow> u64 \<Rightarrow> fs_state \<Rightarrow> (u64 \<times> fs_state) res" where
  "truncate_last_spec sb i fs =
     bindR (find_file (fs_inodes fs) i) (\<lambda>k.
       let bs = pi_blocks (fs_inodes fs ! k) in
       if bs = [] then Inl InvalidInput
       else yielding (last bs) (shrink_spec sb k (length bs - 1) fs))"

section \<open>Blocks of a consistent state\<close>

lemma find_file_Inr:
  assumes "find_file xs i = Inr k"
  shows "k < length xs" "xs ! k \<in> set xs" "pi_id (xs ! k) = i" "pi_kind (xs ! k) = File"
  using assms by (auto simp: find_file_def bindR_Inr_iff ok_or_Inr_iff position_Some_iff split: if_splits)

lemma owned_data: "fs_typed sb fs \<Longrightarrow> owned (fs_alloc fs) \<subseteq> set (data_region sb)"
  by (auto simp: fs_typed_def alloc_fits_def owned_def data_blocks_def u64_range_eq_iff)

lemma consistent_blocks:
  assumes "consistent fs" and "x \<in> set (fs_inodes fs)"
  shows "set (pi_blocks x) \<subseteq> owned (fs_alloc fs)"
  using assms by (auto simp: consistent_def ownership_ok_def file_blocks_def)

lemma block_data:
  assumes "consistent fs" and "fs_typed sb fs" and "x \<in> set (fs_inodes fs)" and "block_at x index = Inr b"
  shows "b \<in> set (data_region sb)" "check_owned (fs_alloc fs) b = Inr ()" "length (fs_data fs b) = 4096"
proof -
  have b: "b \<in> owned (fs_alloc fs)"
    using assms(4) consistent_blocks [OF assms(1,3)] by (auto simp: block_at_def split: if_splits)
  then show d: "b \<in> set (data_region sb)" using owned_data [OF assms(2)] by blast
  have "alloc_inv (fs_alloc fs)" using assms(2) by (simp add: fs_typed_def)
  then show "check_owned (fs_alloc fs) b = Inr ()"
    using b by (auto simp: check_owned_def is_owned_spec owned_def data_blocks_def)
  show "length (fs_data fs b) = 4096" using assms(2) d unfolding fs_typed_def by blast
qed

lemma resolve_data:
  assumes "consistent fs" and "fs_typed sb fs" and "resolve_block fs i index = Inr b"
  shows "b \<in> set (data_region sb)" "length (fs_data fs b) = 4096"
proof -
  obtain k where k: "find_file (fs_inodes fs) i = Inr k" "block_at (fs_inodes fs ! k) index = Inr b"
    using assms(3) by (auto simp: resolve_block_def bindR_Inr_iff)
  show "b \<in> set (data_region sb)" "length (fs_data fs b) = 4096"
    using block_data [OF assms(1,2) find_file_Inr(2) [OF k(1)] k(2)] by simp_all
qed

text \<open>
  The ownership query treats every reserved block as owned, so an inode that refers to one
  passes the check of \<^verbatim>\<open>resolve_owned_file_block\<close>.
\<close>

lemma check_owned_reserved:
  assumes "alloc_inv a" and "b < al_reserved_blocks a"
  shows "check_owned a b = Inr ()"
proof -
  have "\<not> al_total_blocks a \<le> b" using assms by (auto simp: alloc_inv_def)
  then show ?thesis using assms by (simp add: check_owned_def is_owned_spec)
qed

section \<open>Batches\<close>

definition batch_writes :: "persisted_inode \<Rightarrow> (nat \<times> bytes) list \<Rightarrow> writes" where
  "batch_writes x ws = map (\<lambda>(index, img). (pi_blocks x ! index, img)) ws"

lemma batch_steps:
  assumes "\<forall>b \<in> set (pi_blocks x). check_owned (fs_alloc fs) b = Inr ()"
  shows "iterR (batch_step fs x) ws (seen, ch) =
    (if distinct (map fst ws) \<and> set (map fst ws) \<inter> seen = {} \<and> (\<forall>(j, _) \<in> set ws. j < length (pi_blocks x))
     then Inr (seen \<union> set (map fst ws), ch @ filter (\<lambda>(b, img). fs_data fs b \<noteq> img) (batch_writes x ws))
     else Inl InvalidInput)"
proof (induction ws arbitrary: seen ch)
  case (Cons w ws)
  obtain j img where w: "w = (j, img)" by (cases w)
  show ?case
  proof (cases "j \<in> seen \<or> \<not> j < length (pi_blocks x)")
    case True
    then show ?thesis by (auto simp: w batch_step_def block_at_def)
  next
    case False
    then show ?thesis using assms Cons.IH by (auto simp: w batch_step_def block_at_def batch_writes_def)
  qed
qed (simp add: batch_writes_def)

lemma batch_distinct:
  assumes "distinct (pi_blocks x)" and "distinct (map fst ws)" and "\<forall>(j, _) \<in> set ws. j < length (pi_blocks x)"
  shows "distinct (map fst (batch_writes x ws))"
proof -
  have "map fst (batch_writes x ws) = map ((!) (pi_blocks x)) (map fst ws)"
    by (auto simp: batch_writes_def)
  moreover have "\<forall>j \<in> set (map fst ws). j < length (pi_blocks x)" using assms(3) by auto
  then have "inj_on ((!) (pi_blocks x)) (set (map fst ws))"
    using assms(1) by (metis inj_onI nth_eq_iff_index_eq)
  ultimately show ?thesis using assms(2) by (simp only: distinct_map)
qed

lemma batch_owned:
  assumes "consistent fs" and "fs_typed sb fs" and "find_file (fs_inodes fs) i = Inr k"
  shows "\<forall>b \<in> set (pi_blocks (fs_inodes fs ! k)). check_owned (fs_alloc fs) b = Inr ()"
    and "set (pi_blocks (fs_inodes fs ! k)) \<subseteq> set (data_region sb)" and "distinct (pi_blocks (fs_inodes fs ! k))"
proof -
  let ?x = "fs_inodes fs ! k"
  note x = find_file_Inr(2) [OF assms(3)]
  have "check_owned (fs_alloc fs) b = Inr () \<and> b \<in> set (data_region sb)" if "b \<in> set (pi_blocks ?x)" for b
  proof -
    obtain j where "j < length (pi_blocks ?x)" "pi_blocks ?x ! j = b" using \<open>b \<in> _\<close> by (auto simp: in_set_conv_nth)
    then have "block_at ?x j = Inr b" by (simp add: block_at_def)
    then show ?thesis using block_data [OF assms(1,2) x] by blast
  qed
  then show "\<forall>b \<in> set (pi_blocks ?x). check_owned (fs_alloc fs) b = Inr ()"
    and "set (pi_blocks ?x) \<subseteq> set (data_region sb)" by blast+
  show "distinct (pi_blocks ?x)"
    using assms(2) x by (auto simp: fs_typed_def inode_fits_def list_all_iff inode_ok_def)
qed

lemma batch_changed:
  assumes "consistent fs" and "fs_typed sb fs" and "find_file (fs_inodes fs) i = Inr k"
    and "iterR (batch_step fs (fs_inodes fs ! k)) ws ({}, []) = Inr (seen, ch)"
    and "list_all (\<lambda>(_, img). length img = 4096) ws"
  shows "list_all (\<lambda>(b, x). b \<in> set (data_region sb) \<and> length x = 4096) ch \<and> distinct (map fst ch) \<and>
    list_all (\<lambda>(b, x). fs_data fs b \<noteq> x) ch"
proof -
  let ?x = "fs_inodes fs ! k" and ?P = "\<lambda>(b, img). fs_data fs b \<noteq> img"
  note own = batch_owned [OF assms(1-3)]
  have ws: "distinct (map fst ws)" "\<forall>(j, _) \<in> set ws. j < length (pi_blocks ?x)" and ch: "ch = filter ?P (batch_writes ?x ws)"
    using assms(4) unfolding batch_steps [OF own(1)] by (auto split: if_splits)
  have "pi_blocks ?x ! j \<in> set (data_region sb)" if "(j, img) \<in> set ws" for j img
    using ws(2) that own(2) nth_mem by fastforce
  then have "list_all (\<lambda>(b, x). b \<in> set (data_region sb) \<and> length x = 4096) (batch_writes ?x ws)"
    using assms(5) by (fastforce simp: list_all_iff batch_writes_def)
  moreover have "distinct (map fst ch)"
    unfolding ch by (rule distinct_map_filter [OF batch_distinct [OF own(3) ws]])
  ultimately show ?thesis by (auto simp: ch list_all_iff)
qed

lemma file_block_length:
  assumes "consistent fs" and "fs_typed sb fs" and "file_block fs i index = Inr img"
  shows "length img = 4096"
  using assms resolve_data(2) by (auto simp: file_block_def bindR_Inr_iff)

lemma write_range_lengths:
  assumes "consistent fs" and "fs_typed sb fs" and "off < 4096"
    and "iterR (write_range_step fs i first off data) ks (0, []) = Inr (c, ws)"
  shows "list_all (\<lambda>(_, img). length img = 4096) ws"
proof -
  have "case (c, ws) of (c, ws) \<Rightarrow> list_all (\<lambda>(_, img). length img = 4096) ws"
  proof (rule iterR_result [OF assms(4)])
    fix k s s'
    assume inv: "case s of (c, ws) \<Rightarrow> list_all (\<lambda>(_, img). length img = 4096) ws"
      and step: "write_range_step fs i first off data k s = Inr s'"
    obtain c ws where s: "s = (c, ws)" by (cases s)
    from step obtain j img where "file_block fs i j = Inr img" and s': "s' =
        (let begin = (if k = 0 then off else 0); taken = min (BLOCK_SIZE - begin) (length data - c)
         in (c + taken, ws @ [(j, copy_slice img begin (subslice data c (c + taken)))]))"
      by (auto simp: write_range_step_def s bindR_Inr_iff Let_def)
    then have "length img = 4096" using file_block_length [OF assms(1,2)] by blast
    then show "case s' of (c, ws) \<Rightarrow> list_all (\<lambda>(_, img). length img = 4096) ws"
      using inv assms(3) by (auto simp: s s' Let_def BLOCK_SIZE_def subslice_def)
  qed simp
  then show ?thesis by simp
qed

lemma allocate_block_Inr:
  assumes "alloc_inv a" and "allocate_block a = Inr (b, a')"
  shows "b \<in> data_blocks a - owned a" "owned a' = insert b (owned a)" "alloc_inv a'" "same_geometry a a'"
proof -
  have "allocate a = (Inr b, a')" using assms(2) by (auto simp: allocate_block_def split: prod.splits sum.splits)
  then show "b \<in> data_blocks a - owned a" "owned a' = insert b (owned a)" "alloc_inv a'" "same_geometry a a'"
    using allocate_found [OF assms(1)] by blast+
qed

lemma allocate_round_Inr:
  "allocate_round d (a, bs) = Inr s \<longleftrightarrow> (\<exists>b a'. allocate_block a = Inr (b, a') \<and> s = (a', bs @ [b]))"
  by (auto simp: allocate_round_def bindR_Inr_iff)

lemma allocate_rounds:
  assumes "alloc_inv a" and "iterR allocate_round ds (a, bs) = Inr (a', bs')"
  shows "\<exists>new. bs' = bs @ new \<and> length new = length ds \<and> distinct new \<and> set new \<inter> owned a = {} \<and>
    owned a' = owned a \<union> set new \<and> alloc_inv a' \<and> same_geometry a a'"
  using assms
proof (induction ds arbitrary: a bs)
  case (Cons d ds)
  obtain b a1 where a1: "allocate_block a = Inr (b, a1)" "iterR allocate_round ds (a1, bs @ [b]) = Inr (a', bs')"
    using Cons.prems(2) by (auto simp: allocate_round_Inr bindR_Inr_iff)
  note one = allocate_block_Inr [OF Cons.prems(1) a1(1)]
  obtain new where "bs' = (bs @ [b]) @ new" "length new = length ds" "distinct new" "set new \<inter> owned a1 = {}"
    "owned a' = owned a1 \<union> set new" "alloc_inv a'" "same_geometry a1 a'"
    using Cons.IH [OF one(3) a1(2)] by blast
  then show ?case using one by (intro exI [of _ "b # new"]) auto
qed simp

section \<open>The operations implement their specifications\<close>

lemma implements_prod_eq:
  assumes "\<And>x y. p = (x, y) \<Longrightarrow> implements at faulty sb P ret (m x y) (s x y)"
  shows "implements at faulty sb P ret (case p of (x, y) \<Rightarrow> m x y) (\<lambda>fs. case p of (x, y) \<Rightarrow> s x y fs)"
  using assms by (cases p) simp

lemma drop_length_minus_one: "xs \<noteq> [] \<Longrightarrow> drop (length xs - Suc 0) xs = [last xs]"
  by (induction xs rule: rev_induct) simp_all

lemma implements_assume_typed:
  assumes "\<And>fs. P fs \<Longrightarrow> fs_typed sb fs \<Longrightarrow> A" and "A \<Longrightarrow> implements at faulty sb P ret m s"
  shows "implements at faulty sb P ret m s"
  using assms mounted_typed unfolding implements_def by blast

context block_dev
begin

lemma implements_data:
  assumes "sb_ok sb" and syncs
    and ws: "\<And>fs. P fs \<Longrightarrow> fs_typed sb fs \<Longrightarrow>
      list_all (\<lambda>(b, x). b \<in> set (data_region sb) \<and> length x = 4096) ws \<and> distinct (map fst ws) \<and>
      list_all (\<lambda>(b, x). fs_data fs b \<noteq> x) ws"
    and "m = publish D sb recover_journal_and_checkpoint ws \<or> m = commit D sb recover_journal_and_checkpoint ws"
  shows "implements at faulty sb P (\<lambda>_. ()) m (put_data ws)"
  unfolding implements_def
proof (intro allI impI, goal_cases)
  case (1 v u d fs)
  let ?fs = "fs\<lparr>fs_data := apply_writes ws (fs_data fs) id\<rparr>"
  note w = ws [OF 1(4) mounted_typed [OF 1(3)]]
  have "b \<in> touched sb fs ?fs" if b: "(b, x) \<in> set ws" for b x
  proof -
    have "apply_writes ws (fs_data fs) id b = x"
      using apply_writes_distinct [of ws b x "fs_data fs" id] w b by simp
    then show ?thesis using w b by (auto simp: touched_def list_all_iff)
  qed
  then have "fst ` set ws \<subseteq> touched sb fs ?fs" by auto
  from commit_implements [OF assms(1,2) 1(1,2) data_tx_ok [OF assms(1)] 1(3) mounted_store_data [OF assms(1) 1(3)] _ this _ assms(4)]
  show ?case by (rule wp_mono) (use w in \<open>auto simp: put_data_def\<close>)
qed

lemma reads_resolve:
  assumes "sb_ok sb"
  shows "reads at sb P (resolve_owned_file_block D sb i index) (\<lambda>fs. resolve_block fs i index)"
  unfolding resolve_owned_file_block_def
  by (rule reads_cong, (rule reads_bind reads_load_allocator reads_load_inodes reads_lift reads_return assms)+,
      simp add: resolve_block_def)

lemma reads_data:
  assumes "\<And>fs. P fs \<Longrightarrow> fs_typed sb fs \<Longrightarrow> b \<in> set (data_region sb)"
  shows "reads at sb P (read_block D b) (\<lambda>fs. Inr (fs_data fs b))"
  by (rule reads_assume [OF assms]) (auto intro: reads_data_block)

lemma reads_file_block:
  assumes "sb_ok sb" and "\<And>fs. P fs \<Longrightarrow> consistent fs"
  shows "reads at sb P (read_file_block D sb i index) (\<lambda>fs. file_block fs i index)"
  unfolding read_file_block_def file_block_def
  by (rule reads_bind [OF reads_resolve [OF assms(1)]], rule reads_data)
    (use assms(2) resolve_data(1) in blast)

lemma implements_block_image:
  assumes "sb_ok sb" and syncs and "length data = 4096"
    and "\<And>fs. P fs \<Longrightarrow> fs_typed sb fs \<Longrightarrow> b \<in> set (data_region sb)"
  shows "implements at faulty sb P (\<lambda>_. ()) (journal_block_image D sb b data) (put_data [(b, data)])"
proof -
  have "implements at faulty sb P (\<lambda>_. ()) (journal_block_image D sb b data)
      (\<lambda>fs. bindR (Inr (fs_data fs b)) (\<lambda>x. if x = data then Inr ((), fs) else put_data [(b, data)] fs))"
    unfolding journal_block_image_def
    by (rule implements_bind, rule reads_data, rule assms(4), assumption+,
        rule implements_if, rule implements_return, rule implements_data [OF assms(1,2)])
      (use assms(3,4) in auto)
  then show ?thesis by (rule implements_cong) (auto simp: put_data_def fun_upd_idem)
qed

lemma implements_write_block:
  assumes "sb_ok sb" and syncs and "\<And>fs. P fs \<Longrightarrow> consistent fs" and "length data = 4096"
  shows "implements at faulty sb P (\<lambda>_. ()) (write_file_block_journaled D sb i index data)
    (write_block_spec i index data)"
  unfolding write_file_block_journaled_def write_block_spec_def [abs_def]
  by (rule implements_bind [OF reads_resolve [OF assms(1)]], rule implements_block_image [OF assms(1,2,4)])
    (use assms(3) resolve_data(1) in blast)

lemma implements_write_block_range:
  assumes "sb_ok sb" and syncs and "\<And>fs. P fs \<Longrightarrow> consistent fs"
  shows "implements at faulty sb P (\<lambda>_. ()) (write_file_block_range_journaled D sb i index off data)
    (write_block_range_spec i index off data)"
proof (cases "data = [] \<or> off \<ge> BLOCK_SIZE \<or> length data > BLOCK_SIZE - off")
  case True
  then show ?thesis
    unfolding write_file_block_range_journaled_def write_block_range_spec_def [abs_def] by (simp add: implements_fail)
next
  case False
  have "implements at faulty sb P (\<lambda>_. ()) (write_file_block_range_journaled D sb i index off data)
      (\<lambda>fs. bindR (resolve_block fs i index) (\<lambda>b. bindR (Inr (fs_data fs b)) (\<lambda>img.
         put_data [(b, copy_slice img off data)] fs)))"
    unfolding write_file_block_range_journaled_def if_not_P [OF False]
  proof (rule implements_bind [OF reads_resolve [OF assms(1)]], rule implements_bind [OF reads_data], goal_cases)
    case (1 b fs)
    then show ?case using assms(3) resolve_data(1) by blast
  next
    case (2 b img)
    show ?case
    proof (rule implements_assume_typed)
      fix fs assume "((P fs) \<and> resolve_block fs i index = Inr b) \<and> Inr (fs_data fs b) = Inr img" "fs_typed sb fs"
      then show "b \<in> set (data_region sb) \<and> length img = 4096" using assms(3) resolve_data by fastforce
    next
      assume "b \<in> set (data_region sb) \<and> length img = 4096"
      then show "implements at faulty sb (\<lambda>fs. ((P fs) \<and> resolve_block fs i index = Inr b) \<and> Inr (fs_data fs b) = Inr img)
          (\<lambda>_. ()) (journal_block_image D sb b (copy_slice img off data)) (put_data [(b, copy_slice img off data)])"
        using False by (intro implements_block_image [OF assms(1,2)]) (auto simp: BLOCK_SIZE_def)
    qed
  qed
  then show ?thesis by (rule implements_cong) (use False in \<open>simp add: write_block_range_spec_def\<close>)
qed

lemma reads_overwrite_round:
  assumes "\<And>fs. P fs \<Longrightarrow> consistent fs" and "\<And>fs. P fs \<Longrightarrow> fs_alloc fs = a \<and> x \<in> set (fs_inodes fs)"
  shows "reads at sb P (overwrite_round D a x w s) (\<lambda>fs. batch_step fs x w s)"
proof -
  obtain j img seen ch where ws: "w = (j, img)" "s = (seen, ch)" by (metis surj_pair)
  have "reads at sb P (overwrite_round D a x w s)
      (\<lambda>fs. if j \<in> seen then Inl InvalidInput
        else bindR (block_at x j) (\<lambda>b. bindR (check_owned a b) (\<lambda>_. bindR (Inr (fs_data fs b)) (\<lambda>cur.
          Inr (insert j seen, if cur \<noteq> img then ch @ [(b, img)] else ch)))))"
    unfolding overwrite_round_def ws prod.case
    by ((rule reads_if reads_fail reads_bind reads_lift reads_return reads_data
          | (use assms block_data(1) in \<open>blast\<close>))+)
  then show ?thesis by (rule reads_cong) (use assms(2) in \<open>simp add: batch_step_def ws\<close>)
qed

lemma implements_write_blocks:
  assumes "sb_ok sb" and syncs and "\<And>fs. P fs \<Longrightarrow> consistent fs"
    and "list_all (\<lambda>(_, img). length img = 4096) ws"
  shows "implements at faulty sb P (\<lambda>_. ()) (write_file_blocks_journaled D sb i ws) (write_blocks_spec i ws)"
proof (cases "ws = []")
  case True
  then show ?thesis
    unfolding write_file_blocks_journaled_def write_blocks_spec_def [abs_def] by (simp add: implements_fail)
next
  case False
  have "implements at faulty sb P (\<lambda>_. ()) (write_file_blocks_journaled D sb i ws)
      (\<lambda>fs. bindR (Inr (fs_inodes fs)) (\<lambda>xs. bindR (find_file xs i) (\<lambda>k. bindR (Inr (fs_alloc fs)) (\<lambda>a.
         bindR (iterR (batch_step fs (xs ! k)) ws ({}, [])) (\<lambda>s. case s of (_, ch) \<Rightarrow> put_data ch fs)))))"
    unfolding write_file_blocks_journaled_def if_not_P [OF False] commit_def [symmetric]
  proof ((rule act_steps assms)+, rule implements_bind [OF reads_fold [OF reads_overwrite_round]], goal_cases)
    case (1 xs k a s s' fs)
    then show ?case using assms(3) by blast
  next
    case (2 xs k a s s' fs)
    then show ?case using find_file_Inr(2) by auto
  next
    case (3 xs k a s)
    obtain seen ch where s: "s = (seen, ch)" by (cases s)
    show ?case
      unfolding s prod.case
    proof (rule implements_data [OF assms(1,2)], goal_cases)
      case (1 fs)
      then show ?case using batch_changed [of fs sb i k ws seen ch] assms(3,4) by (simp add: s)
    qed simp
  qed
  then show ?thesis by (rule implements_cong) (use False in \<open>simp add: write_blocks_spec_def\<close>)
qed

lemma reads_write_range_round:
  assumes "sb_ok sb" and "\<And>fs. P fs \<Longrightarrow> consistent fs"
  shows "reads at sb P (write_range_round D sb i first off data k s) (\<lambda>fs. write_range_step fs i first off data k s)"
proof (cases s)
  case (Pair a b)
  show ?thesis
    unfolding write_range_round_def write_range_step_def Pair prod.case Let_def
    by (rule reads_bind, rule reads_lift, rule reads_bind, rule reads_file_block [OF assms(1)])
      (use assms(2) in blast, rule reads_return)
qed

lemma reads_read_range_round:
  assumes "sb_ok sb" and "\<And>fs. P fs \<Longrightarrow> consistent fs"
  shows "reads at sb P (read_range_round D sb i first off k s) (\<lambda>fs. read_range_step fs i first off k s)"
proof (cases s)
  case (Pair a b)
  show ?thesis
    unfolding read_range_round_def read_range_step_def Pair prod.case Let_def
    by (rule reads_bind, rule reads_lift, rule reads_bind, rule reads_file_block [OF assms(1)])
      (use assms(2) in blast, rule reads_return)
qed

lemma reads_file_range:
  assumes "sb_ok sb" and "\<And>fs. P fs \<Longrightarrow> consistent fs"
  shows "reads at sb P (read_file_range D sb i first off len) (read_range_spec i first off len)"
proof -
  have out: "reads at sb Q (case s of (out, _) \<Rightarrow> io_return out) (\<lambda>fs. case s of (out, _) \<Rightarrow> Inr out)" for Q s
    by (cases s) (simp add: reads_return)
  show ?thesis
    unfolding read_file_range_def read_range_spec_def [abs_def]
    by (rule reads_if, rule reads_fail, rule reads_bind, rule reads_lift, rule reads_bind,
        rule reads_fold, rule reads_read_range_round [OF assms(1)], use assms(2) in blast, rule out)
qed

lemma implements_write_range:
  assumes "sb_ok sb" and syncs and "\<And>fs. P fs \<Longrightarrow> consistent fs"
  shows "implements at faulty sb P (\<lambda>_. ()) (write_file_range_journaled D sb i first off data)
    (write_range_spec i first off data)"
  unfolding write_file_range_journaled_def write_range_spec_def [abs_def]
proof (rule implements_if, rule implements_fail, rule implements_bind, rule reads_lift, rule implements_bind,
    rule reads_fold, rule reads_write_range_round [OF assms(1)], goal_cases)
  case (1 x k s fs)
  then show ?case using assms(3) by blast
next
  case (2 x s)
  obtain c ws where s: "s = (c, ws)" by (cases s)
  have off: "off < 4096" using 2 by (simp add: BLOCK_SIZE_def)
  show ?case
    unfolding s prod.case
  proof (rule implements_assume_typed [where A = "list_all (\<lambda>(_, img). length img = 4096) ws"], goal_cases)
    case (1 fs)
    then show ?case using write_range_lengths [OF _ 1(2) off] assms(3) by blast
  next
    case 2
    then show ?case by (intro implements_write_blocks [OF assms(1,2)]) (use assms(3) in blast)+
  qed
qed

lemma implements_copy_range:
  assumes "sb_ok sb" and syncs and "\<And>fs. P fs \<Longrightarrow> consistent fs"
  shows "implements at faulty sb P (\<lambda>_. ()) (copy_file_range_journaled D sb src dst len) (copy_range_spec src dst len)"
  unfolding copy_file_range_journaled_def copy_range_spec_def [abs_def]
  by (rule implements_bind [OF reads_file_range [OF assms(1)]], use assms(3) in blast,
      rule implements_write_range [OF assms(1,2)], use assms(3) in blast)

lemma implements_zero_range:
  assumes "sb_ok sb" and syncs and "\<And>fs. P fs \<Longrightarrow> consistent fs"
  shows "implements at faulty sb P (\<lambda>_. ()) (zero_file_range_journaled D sb i first off len) (zero_range_spec i first off len)"
  unfolding zero_file_range_journaled_def zero_range_spec_def [abs_def]
  by (rule implements_if, rule implements_fail, rule implements_write_range [OF assms])

lemma implements_grown:
  assumes "sb_ok sb" and syncs
    and new: "\<And>fs. P fs \<Longrightarrow> fs_typed sb fs \<Longrightarrow> alloc_inv a \<and> alloc_fits sb a \<and>
      fst ` set new \<subseteq> owned a - owned (fs_alloc fs)"
    and "distinct (map fst new)" and "list_all (\<lambda>(_, x). length x = 4096) new"
  shows "implements at faulty sb P (\<lambda>_. ()) (publish_grown D sb a xs new) (put_grown sb a xs new)"
proof (rule implements_assume_typed)
  fix fs assume fs: "P fs" "fs_typed sb fs"
  note n = new [OF fs]
  then have "owned a \<subseteq> set (data_region sb)"
    by (auto simp: alloc_fits_def owned_def data_blocks_def u64_range_eq_iff)
  then show "alloc_inv a \<and> list_all (\<lambda>(b, x). b \<in> set (data_region sb) \<and> length x = 4096) new"
    using n assms(5) by (fastforce simp: list_all_iff)
next
  assume a: "alloc_inv a \<and> list_all (\<lambda>(b, x). b \<in> set (data_region sb) \<and> length x = 4096) new"
  note regions = alloc_writes_region [OF assms(1)] inode_writes_region [OF assms(1)]
  let ?enc = "bindR (alloc_writes sb a) (\<lambda>w1. bindR (inode_writes sb xs) (\<lambda>w2. Inr (w1 @ w2)))"
  let ?upd = "\<lambda>fs. fs\<lparr>fs_alloc := a, fs_inodes := xs, fs_data := apply_writes new (fs_data fs) id\<rparr>"
  have up: "mounted sb (apply_writes new (apply_writes W v id) id) (?upd fs)" if "?enc = Inr W" "mounted sb v fs" for W v fs
    using that a mounted_store_data [OF assms(1) mounted_store_inodes [OF assms(1)
        mounted_store_alloc [OF assms(1)]], of _ _ a _ xs _ new]
    by (auto simp: bindR_Inr_iff image_writes_Inr_iff apply_writes_append)
  have reg: "fst ` set W = set (concat (map range_blocks [allocation_range sb, inode_range sb])) \<and> tx_ok sb W"
    if enc: "?enc = Inr W" for W
  proof -
    obtain w1 w2 where "alloc_writes sb a = Inr w1" "inode_writes sb xs = Inr w2" "W = w1 @ w2"
      using enc by (auto simp: bindR_Inr_iff)
    with regions show ?thesis by (simp add: image_Un)
  qed
  have touch: "fst ` set new \<subseteq> touched sb fs (?upd fs)" if "P fs" "fs_typed sb fs" for fs
    using new [OF that] unfolding touched_def by auto
  have "implements at faulty sb P (\<lambda>_. ()) (publish_grown D sb a xs new) (\<lambda>fs. bindR ?enc (\<lambda>_. Inr ((), ?upd fs)))"
    unfolding publish_grown_def
    by (rule stage_implements [OF assms(1,2) renders_seq [OF renders_tables(1,2) [OF assms(1)]] reg,
        where recover = recover_journal_and_checkpoint])
      (rule touch, assumption+ | rule up, assumption+ |
        (use distinct_regions(1) [OF assms(1)] a assms(4) in
          \<open>simp add: meta_regions del: range_blocks.simps\<close>))+
  then show "implements at faulty sb P (\<lambda>_. ()) (publish_grown D sb a xs new) (put_grown sb a xs new)"
    by (rule implements_cong) (cases "encode_allocator sb a"; cases "inode_encode_image sb xs";
        simp add: image_writes_def put_grown_def)
qed

lemma implements_yielding:
  assumes "implements at faulty sb P (\<lambda>_. ()) m s"
  shows "implements at faulty sb P fst (io_bind m (\<lambda>report. io_return (y, report))) (\<lambda>fs. yielding y (s fs))"
  using implements_map [OF assms, where ret' = fst and g = "Pair y" and h = "\<lambda>_. y"] by simp

text \<open>One block is allocated and written.\<close>

lemma implements_grown_block:
  assumes "sb_ok sb" and syncs and "length data = 4096"
    and "\<And>fs. P fs \<Longrightarrow> allocate_block (fs_alloc fs) = Inr (b, a)"
  shows "implements at faulty sb P fst
    (io_bind (publish_grown D sb a xs [(b, data)]) (\<lambda>report. io_return (b, report)))
    (\<lambda>fs. yielding b (put_grown sb a xs [(b, data)] fs))"
proof (rule implements_yielding, rule implements_grown [OF assms(1,2)])
  fix fs assume fs: "P fs" "fs_typed sb fs"
  then have a: "alloc_inv (fs_alloc fs)" "alloc_fits sb (fs_alloc fs)" by (simp_all add: fs_typed_def)
  note one = allocate_block_Inr [OF a(1) assms(4) [OF fs(1)]]
  show "alloc_inv a \<and> alloc_fits sb a \<and> fst ` set [(b, data)] \<subseteq> owned a - owned (fs_alloc fs)"
    using one a(2) by (auto simp: alloc_fits_def)
qed (use assms(3) in auto)

lemma implements_append:
  assumes "sb_ok sb" and syncs and "length data = 4096"
  shows "implements at faulty sb P fst (append_file_block_journaled D sb i data) (append_spec sb i data)"
  unfolding append_file_block_journaled_def
  by (rule implements_cong, (rule act_steps implements_prod_eq implements_grown_block assms)+)
    (auto simp: append_spec_def)

lemma implements_insert:
  assumes "sb_ok sb" and syncs and "length data = 4096"
  shows "implements at faulty sb P fst (insert_file_block_journaled D sb i j data) (insert_spec sb i j data)"
  unfolding insert_file_block_journaled_def
  by (rule implements_cong,
      (rule act_steps implements_if implements_fail implements_prod_eq implements_grown_block assms)+)
    (auto simp: insert_spec_def)

lemma implements_append_blocks:
  assumes "sb_ok sb" and syncs and "list_all (\<lambda>x. length x = 4096) datas"
  shows "implements at faulty sb P fst (append_file_blocks_journaled D sb i datas) (append_blocks_spec sb i datas)"
proof (cases "datas = []")
  case True
  then show ?thesis
    unfolding append_file_blocks_journaled_def append_blocks_spec_def [abs_def] by (simp add: implements_fail)
next
  case False
  have "implements at faulty sb P fst (append_file_blocks_journaled D sb i datas)
      (\<lambda>fs. bindR (Inr (fs_alloc fs)) (\<lambda>a. bindR (Inr (fs_inodes fs)) (\<lambda>xs. bindR (find_file xs i) (\<lambda>k.
         bindR (iterR allocate_round datas (a, [])) (\<lambda>p. case p of (a, bs) \<Rightarrow>
           yielding bs (put_grown sb a (set_blocks xs k (pi_blocks (xs ! k) @ bs)) (zip bs datas) fs))))))"
    unfolding append_file_blocks_journaled_def if_not_P [OF False]
  proof ((rule act_steps implements_prod_eq implements_yielding assms)+, goal_cases)
    case (1 a xs k p a' bs)
    have new: "alloc_inv a' \<and> alloc_fits sb a' \<and> set bs \<subseteq> owned a' - owned a \<and> distinct bs \<and> length bs = length datas"
      if "fs_typed sb fs" "fs_alloc fs = a" "iterR allocate_round datas (a, []) = Inr p" for fs
    proof -
      have "alloc_inv a" "alloc_fits sb a" using that by (auto simp: fs_typed_def)
      then show ?thesis using allocate_rounds [of a datas "[]" a' bs] that(3) 1 by (auto simp: alloc_fits_def)
    qed
    show ?case
    proof (rule implements_assume_typed [where A = "distinct bs \<and> length bs = length datas"], goal_cases)
      case (1 fs)
      then show ?case using new [of fs] by simp
    next
      case bs: 2
      have "list_all (\<lambda>(_, x). length x = 4096) (zip bs datas)"
        using assms(3) by (auto simp: list_all_iff dest: set_zip_rightD)
      moreover have "fst ` set (zip bs datas) = set bs" "map fst (zip bs datas) = bs"
        using bs by (auto simp flip: set_map)
      ultimately show ?case using new bs by (intro implements_grown [OF assms(1,2)]) auto
    qed
  qed
  then show ?thesis by (rule implements_cong) (use False in \<open>simp add: append_blocks_spec_def\<close>)
qed

lemma implements_released:
  assumes "sb_ok sb" and syncs and "\<And>fs. P fs \<Longrightarrow> release_blocks InvalidData (fs_alloc fs) bs = Inr a"
  shows "implements at faulty sb P (\<lambda>_. ()) (store_create_metadata_journaled D sb a xs es) (put_tables sb a xs es)"
  by (rule implements_assume_typed [where A = "alloc_inv a"])
    (use assms release_blocks_Inr implements_put_tables in \<open>unfold fs_typed_def, blast+\<close>)

lemma implements_truncate_zero:
  assumes "sb_ok sb" and syncs
  shows "implements at faulty sb P (\<lambda>_. ()) (truncate_file_to_zero_journaled D sb i) (truncate_zero_spec sb i)"
  unfolding truncate_file_to_zero_journaled_def Let_def
  by (rule implements_cong,
      (rule act_steps implements_if implements_return implements_released assms | (elim conjE, simp; fail))+)
    (simp add: truncate_zero_spec_def, rule bindR_cong, simp add: shrink_spec_def)

lemma implements_truncate_blocks:
  assumes "sb_ok sb" and syncs
  shows "implements at faulty sb P fst (truncate_file_to_blocks_journaled D sb i n) (truncate_blocks_spec sb i n)"
  unfolding truncate_file_to_blocks_journaled_def Let_def
  by (rule implements_cong,
      (rule act_steps implements_if implements_fail implements_return implements_yielding implements_released assms
        | (elim conjE, simp; fail))+)
    (simp add: truncate_blocks_spec_def, rule bindR_cong, simp add: shrink_spec_def Let_def bindR_assoc)

lemma implements_truncate_last:
  assumes "sb_ok sb" and syncs
  shows "implements at faulty sb P fst (truncate_file_last_block_journaled D sb i) (truncate_last_spec sb i)"
  unfolding truncate_file_last_block_journaled_def Let_def
  by (rule implements_cong,
      (rule act_steps implements_if implements_fail implements_return implements_yielding implements_released assms
        | (elim conjE, simp; fail))+)
    (simp add: truncate_last_spec_def, rule bindR_cong,
      simp add: shrink_spec_def Let_def bindR_assoc butlast_conv_take drop_length_minus_one)

end

lemma crash_safe_files:
  assumes "sb_ok sb"
  shows "length data = 4096 \<Longrightarrow> crash_safe sb consistent (\<lambda>_. ()) (write_file_block_journaled crash_ops sb i j data)
      (write_block_spec i j data)"
    and "crash_safe sb consistent (\<lambda>_. ()) (write_file_block_range_journaled crash_ops sb i j off data)
      (write_block_range_spec i j off data)"
    and "list_all (\<lambda>(_, img). length img = 4096) ws \<Longrightarrow>
      crash_safe sb consistent (\<lambda>_. ()) (write_file_blocks_journaled crash_ops sb i ws) (write_blocks_spec i ws)"
    and "crash_safe sb consistent (\<lambda>_. ()) (write_file_range_journaled crash_ops sb i j off data)
      (write_range_spec i j off data)"
    and "crash_safe sb consistent (\<lambda>_. ()) (copy_file_range_journaled crash_ops sb src dst len)
      (copy_range_spec src dst len)"
    and "crash_safe sb consistent (\<lambda>_. ()) (zero_file_range_journaled crash_ops sb i j off len)
      (zero_range_spec i j off len)"
    and "length data = 4096 \<Longrightarrow>
      crash_safe sb consistent fst (append_file_block_journaled crash_ops sb i data) (append_spec sb i data)"
    and "list_all (\<lambda>x. length x = 4096) datas \<Longrightarrow>
      crash_safe sb consistent fst (append_file_blocks_journaled crash_ops sb i datas) (append_blocks_spec sb i datas)"
    and "length data = 4096 \<Longrightarrow>
      crash_safe sb consistent fst (insert_file_block_journaled crash_ops sb i j data) (insert_spec sb i j data)"
    and "crash_safe sb consistent (\<lambda>_. ()) (truncate_file_to_zero_journaled crash_ops sb i) (truncate_zero_spec sb i)"
    and "crash_safe sb consistent fst (truncate_file_to_blocks_journaled crash_ops sb i j) (truncate_blocks_spec sb i j)"
    and "crash_safe sb consistent fst (truncate_file_last_block_journaled crash_ops sb i) (truncate_last_spec sb i)"
  using assms unfolding crash_safe_def
  by (simp_all add: crash_dev.implements_write_block calm_dev.implements_write_block
      crash_dev.implements_write_block_range calm_dev.implements_write_block_range
      crash_dev.implements_write_blocks calm_dev.implements_write_blocks
      crash_dev.implements_write_range calm_dev.implements_write_range
      crash_dev.implements_copy_range calm_dev.implements_copy_range
      crash_dev.implements_zero_range calm_dev.implements_zero_range
      crash_dev.implements_append calm_dev.implements_append
      crash_dev.implements_append_blocks calm_dev.implements_append_blocks
      crash_dev.implements_insert calm_dev.implements_insert
      crash_dev.implements_truncate_zero calm_dev.implements_truncate_zero
      crash_dev.implements_truncate_blocks calm_dev.implements_truncate_blocks
      crash_dev.implements_truncate_last calm_dev.implements_truncate_last)

end
