(* ===== verification/FS_Namespace.thy ===== *)
theory FS_Namespace
  imports FS_Namespace_Tx
begin

text \<open>
  What the namespace operations do to the file system. Seen from the outside the directory
  table is a finite map from a directory and a name to an inode, and the operations are updates
  of this map. Seen from the inside it is a graph, and the operations keep it free of cycles
  and connected to the root, so that the file-system check accepts the result of every
  operation on a state it accepts.
\<close>

section \<open>Graphs\<close>

text \<open>No cycles, and all nodes are reachable from the root.\<close>

definition rooted :: "'a set \<Rightarrow> 'a \<Rightarrow> ('a \<times> 'a) set \<Rightarrow> bool" where
  "rooted N r R \<longleftrightarrow> acyclic R \<and> (\<forall>x \<in> N. (r, x) \<in> R\<^sup>*)"

lemma leaf_rtrancl: "t \<notin> Domain R \<Longrightarrow> (t, x) \<in> R\<^sup>* \<longleftrightarrow> x = t"
  by (auto elim: converse_rtranclE)

lemma rooted_insert: "rooted N r R \<Longrightarrow> (t, p) \<notin> R\<^sup>* \<Longrightarrow> rooted N r (insert (p, t) R)"
  by (simp add: rooted_def acyclic_insert rtrancl_insert)

lemma rooted_move:
  assumes "rooted N r (insert (p, t) R)" and "(t, p') \<notin> R\<^sup>*" and "p' \<in> N"
  shows "rooted N r (insert (p', t) R)"
proof -
  have "(r, p') \<in> R\<^sup>*" using assms by (auto simp: rooted_def rtrancl_insert)
  then show ?thesis using assms(1,2) by (auto simp: rooted_def acyclic_insert rtrancl_insert)
qed

lemma rooted_drop_leaf:
  assumes "rooted N r (insert (p, t) R)" and "t \<notin> Domain R"
  shows "rooted (N - {t}) r R"
  using assms by (auto simp: rooted_def acyclic_insert rtrancl_insert leaf_rtrancl)

lemma rooted_drop_alias:
  assumes "rooted N r (insert (p, t) R)" and "t \<notin> Domain R" and "(q, t) \<in> R" and "q \<in> N"
  shows "rooted N r R"
proof -
  note R = rooted_drop_leaf [OF assms(1,2)]
  have "q \<noteq> t" using assms(2,3) by blast
  then have "(r, q) \<in> R\<^sup>*" using R assms(4) by (simp add: rooted_def)
  then have "(r, t) \<in> R\<^sup>*" using assms(3) by simp
  then show ?thesis using R by (auto simp: rooted_def)
qed

section \<open>Namespace and ownership as properties of sets\<close>

definition edges :: "persisted_directory_entry set \<Rightarrow> (u64 \<times> u64) set" where
  "edges E = (\<lambda>e. (pd_parent e, pd_target e)) ` E"

definition resolve :: "persisted_inode set \<Rightarrow> persisted_directory_entry set \<Rightarrow> bool" where
  "resolve X E \<longleftrightarrow>
     (\<forall>e \<in> E. (\<exists>x \<in> X. pi_id x = pd_parent e \<and> pi_kind x = Directory) \<and> (\<exists>x \<in> X. pi_id x = pd_target e))"

lemma namespace_ok_sets:
  "namespace_ok xs es \<longleftrightarrow>
     resolve (set xs) (set es) \<and>
     (xs \<noteq> [] \<longrightarrow> has_directory xs 1 \<and> rooted (pi_id ` set xs) 1 (edges (set es)))"
  by (auto simp: namespace_ok_def resolve_def rooted_def edges_def links_def ROOT_INODE_ID_def
      has_directory_def has_inode_def image_def)

definition unshared :: "persisted_inode set \<Rightarrow> bool" where
  "unshared X \<longleftrightarrow>
     (\<forall>x y b. x \<in> X \<longrightarrow> y \<in> X \<longrightarrow> b \<in> set (pi_blocks x) \<longrightarrow> b \<in> set (pi_blocks y) \<longrightarrow> x = y)"

lemma ownership_ok_sets:
  assumes "distinct xs"
  shows "ownership_ok a xs \<longleftrightarrow>
    (\<forall>x \<in> set xs. distinct (pi_blocks x) \<and> set (pi_blocks x) \<subseteq> owned a) \<and> unshared (set xs)"
proof -
  have "distinct (file_blocks xs) \<longleftrightarrow> (\<forall>x \<in> set xs. distinct (pi_blocks x)) \<and> unshared (set xs)"
    using assms
  proof (induction xs)
    case (Cons x xs)
    have "unshared (set (x # xs)) \<longleftrightarrow>
        unshared (set xs) \<and> (\<forall>y \<in> set xs. set (pi_blocks x) \<inter> set (pi_blocks y) = {})"
      using Cons.prems by (fastforce simp: unshared_def)
    then show ?case using Cons by (auto simp: file_blocks_def)
  qed (simp add: file_blocks_def unshared_def)
  then show ?thesis by (auto simp: ownership_ok_def file_blocks_def)
qed

section \<open>Lookups\<close>

definition has_file :: "persisted_inode list \<Rightarrow> u64 \<Rightarrow> bool" where
  "has_file xs i \<longleftrightarrow> (\<exists>x \<in> set xs. pi_id x = i \<and> pi_kind x = File)"

lemma same_id: "distinct (map pi_id xs) \<Longrightarrow> x \<in> set xs \<Longrightarrow> y \<in> set xs \<Longrightarrow> pi_id x = pi_id y \<Longrightarrow> x = y"
  by (simp add: distinct_map inj_on_def)

lemma find_inode_Inr:
  assumes "distinct (map pi_id xs)"
  shows "find_inode xs i = Inr x \<longleftrightarrow> x \<in> set xs \<and> pi_id x = i"
proof
  assume "find_inode xs i = Inr x"
  then show "x \<in> set xs \<and> pi_id x = i"
    by (auto simp: find_inode_def ok_or_Inr_iff find_Some_iff)
next
  assume x: "x \<in> set xs \<and> pi_id x = i"
  then obtain y where y: "find (\<lambda>inode. pi_id inode = i) xs = Some y"
    by (cases "find (\<lambda>inode. pi_id inode = i) xs") (auto simp: find_None_iff)
  then have "y \<in> set xs" "pi_id y = i" by (auto simp: find_Some_iff)
  then show "find_inode xs i = Inr x" using y x same_id [OF assms] by (simp add: find_inode_def)
qed

lemma validate_directory_parent_iff:
  "distinct (map pi_id xs) \<Longrightarrow> validate_directory_parent xs p = Inr u \<longleftrightarrow> has_directory xs p"
  by (auto simp: validate_directory_parent_def bindR_Inr_iff find_inode_Inr has_directory_def)

lemma validate_regular_file_target_iff:
  "distinct (map pi_id xs) \<Longrightarrow> validate_regular_file_target xs t = Inr u \<longleftrightarrow> has_file xs t"
  by (auto simp: validate_regular_file_target_def bindR_Inr_iff find_inode_Inr has_file_def)

lemma entry_position_Inr:
  assumes "distinct (map dentry_key es)"
  shows "entry_position es p n = Inr i \<longleftrightarrow> i < length es \<and> pd_parent (es ! i) = p \<and> pd_name (es ! i) = n"
proof -
  have "i = j" if "i < length es" "j < length es" "dentry_key (es ! i) = dentry_key (es ! j)" for i j
    using that assms nth_eq_iff_index_eq [OF assms, of i j] by simp
  then show ?thesis
    by (auto simp: entry_position_def ok_or_Inr_iff position_Some_iff dentry_key_def)
      (metis less_imp_not_eq less_trans)
qed

lemma filter_enumerate: "map snd (filter (\<lambda>(j, _). j \<noteq> i) (enumerate 0 xs)) = remove_at i xs"
proof -
  have "map snd (filter (\<lambda>(j, _). j \<noteq> i + k) (enumerate k xs)) = remove_at i xs" for k
  proof (induction xs arbitrary: i k)
    case (Cons x xs)
    show ?case
    proof (cases i)
      case 0
      have "filter (\<lambda>(j, _). j \<noteq> k) (enumerate (Suc k) xs) = enumerate (Suc k) xs"
        by (rule filter_True) (auto simp: in_set_enumerate_eq)
      then show ?thesis using 0 by (simp add: remove_at_def)
    next
      case (Suc i')
      then show ?thesis using Cons.IH [of i' "Suc k"] by (simp add: remove_at_def)
    qed
  qed (simp add: remove_at_def)
  from this [of 0] show ?thesis by simp
qed

lemma set_remove_at:
  assumes "distinct xs" and "i < length xs"
  shows "set (remove_at i xs) = set xs - {xs ! i}"
proof -
  have "xs = take i xs @ xs ! i # drop (Suc i) xs" using assms(2) by (rule id_take_nth_drop)
  then obtain as bs where xs: "xs = as @ xs ! i # bs" and eq: "remove_at i xs = as @ bs"
    unfolding remove_at_def by blast
  have "xs ! i \<notin> set as \<union> set bs" using assms(1) by (subst (asm) xs) simp
  moreover have "set xs = insert (xs ! i) (set as \<union> set bs)" using arg_cong [OF xs, of set] by simp
  ultimately show ?thesis unfolding eq set_append by blast
qed

lemma set_overwrite_entries:
  assumes "distinct es" and "s < length es" and "d < length es" and "s \<noteq> d"
  shows "set (overwrite_entries es s d r) = insert r (set es - {es ! s, es ! d})"
proof -
  have indexed: "{x \<in> set (enumerate 0 es). case x of (j, _) \<Rightarrow> j \<noteq> d} = (\<lambda>j. (j, es ! j)) ` ({..<length es} - {d})"
    by (auto simp: in_set_enumerate_eq)
  have "set (overwrite_entries es s d r) = (\<lambda>j. if j = s then r else es ! j) ` ({..<length es} - {d})"
    by (simp add: overwrite_entries_def indexed image_image)
  also have "{..<length es} - {d} = insert s ({..<length es} - {s, d})" using assms(2,4) by auto
  also have "(\<lambda>j. if j = s then r else es ! j) ` \<dots> = insert r ((!) es ` ({..<length es} - {s, d}))" by auto
  also have "(!) es ` ({..<length es} - {s, d}) = set es - {es ! s, es ! d}"
    using assms by (auto simp: set_conv_nth nth_eq_iff_index_eq)
  finally show ?thesis .
qed

lemma would_create_directory_cycle_iff:
  assumes "distinct es" and "i < length es"
  shows "would_create_directory_cycle es i t p \<longleftrightarrow> (t, p) \<in> (edges (set es - {es ! i}))\<^sup>*"
proof -
  have "map (\<lambda>(_, entry). (pd_parent entry, pd_target entry)) (filter (\<lambda>(j, _). j \<noteq> i) (enumerate 0 es)) =
      entry_edges (remove_at i es)"
    unfolding filter_enumerate [symmetric] by (simp add: case_prod_beta)
  moreover have "links (remove_at i es) = edges (set es - {es ! i})"
    by (simp add: links_def edges_def set_remove_at [OF assms])
  ultimately show ?thesis
    by (simp add: would_create_directory_cycle_def Let_def search_for_reachable reachable_from_start
        edge_rel_links del: search_for.simps reachable_from.simps)
qed

text \<open>The edges the search of \<^verbatim>\<open>would_create_directory_cycle\<close> follows.\<close>

definition cycle_edges :: "persisted_directory_entry list \<Rightarrow> nat \<Rightarrow> (u64 \<times> u64) list" where
  "cycle_edges entries source_index =
     map (\<lambda>(_, entry). (pd_parent entry, pd_target entry))
       (filter (\<lambda>(index, _). index \<noteq> source_index) (enumerate 0 entries))"

text \<open>C13. Termination of the cycle check. On every directory table, also a corrupt one whose entries
  form cycles, the worklist loop of \<^verbatim>\<open>would_create_directory_cycle\<close> ends after at most one round
  more than there are entries, and what it then has found is the result of the check.\<close>

theorem cycle_check_terminates:
  "\<exists>k \<le> Suc (length entries). \<exists>pending seen found.
     (search_round (next_of (children_of (cycle_edges entries i))) new_parent ^^ k) ([target], {}, False) =
       (pending, seen, found) \<and>
     search_over (pending, seen, found) \<and>
     (would_create_directory_cycle entries i target new_parent \<longleftrightarrow> target = new_parent \<or> found)"
proof -
  let ?es = "cycle_edges entries i"
  let ?found = "search_for (next_of (children_of ?es)) new_parent [target] {}"
  have "length (filter (\<lambda>(p, t). p \<notin> {}) ?es) \<le> length entries"
    unfolding cycle_edges_def by (rule le_trans [OF length_filter_le]) (simp add: le_trans [OF length_filter_le])
  then have budget: "search_budget ?es [target] {} \<le> Suc (length entries)" by (simp add: search_budget_def)
  obtain k pending seen where "k \<le> search_budget ?es [target] {}"
    "(search_round (next_of (children_of ?es)) new_parent ^^ k) ([target], {}, False) = (pending, seen, ?found)"
    "search_over (pending, seen, ?found)"
    using search_rounds [OF refl, of ?es "[target]" "{}" new_parent] by blast
  moreover have "would_create_directory_cycle entries i target new_parent \<longleftrightarrow> target = new_parent \<or> ?found"
    unfolding would_create_directory_cycle_def cycle_edges_def Let_def by (cases "target = new_parent") simp_all
  ultimately show ?thesis using budget le_trans by blast
qed

section \<open>The effect of each operation\<close>

lemma put_entries_Inr:
  "sb_ok sb \<Longrightarrow> put_entries sb es fs = Inr (u, fs') \<longleftrightarrow> directory_fits sb es \<and> fs' = fs\<lparr>fs_entries := es\<rparr>"
  using directory_encode_fits [of sb es] by (auto simp: put_entries_def bindR_Inr_iff is_ok_iff)

lemma typed_tables:
  assumes "fs_typed sb fs"
  shows "alloc_inv (fs_alloc fs)" and "distinct (map pi_id (fs_inodes fs))" and "distinct (fs_inodes fs)"
    and "distinct (map dentry_key (fs_entries fs))" and "distinct (fs_entries fs)"
  using assms by (simp_all add: fs_typed_def inode_fits_def directory_fits_def distinct_map)

lemma checked_Inr [simp]: "checked fs = Inr u \<longleftrightarrow> consistent fs"
  by (simp add: checked_def)

lemma rename_effect:
  assumes "sb_ok sb" and "fs_typed sb fs" and "rename_spec sb p n p' n' fs = Inr (u, fs')"
  obtains (same) e where "fs' = fs" "(p, n) = (p', n')" "e \<in> set (fs_entries fs)" "dentry_key e = (p, n)"
  | (moved) e x es where "e \<in> set (fs_entries fs)" "dentry_key e = (p, n)" "(p', n') \<notin> dentry_key ` set (fs_entries fs)"
    "x \<in> set (fs_inodes fs)" "pi_id x = pd_target e" "pd_target e \<noteq> 1" "has_directory (fs_inodes fs) p'"
    "pi_kind x = Directory \<longrightarrow> (pd_target e, p') \<notin> (edges (set (fs_entries fs) - {e}))\<^sup>*"
    "fs' = fs\<lparr>fs_entries := es\<rparr>" "directory_fits sb es"
    "set es = insert \<lparr>pd_parent = p', pd_target = pd_target e, pd_name = n'\<rparr> (set (fs_entries fs) - {e})"
proof -
  note typed = typed_tables [OF assms(2)]
  let ?xs = "fs_inodes fs" and ?es = "fs_entries fs"
  obtain plan where dir: "has_directory ?xs p'" and plan: "rename_plan ?xs ?es p n p' n' = Inr plan"
    and out: "(case plan of None \<Rightarrow> Inr ((), fs) | Some es \<Rightarrow> put_entries sb es fs) = Inr (u, fs')"
    using assms(3) by (auto simp: rename_spec_def bindR_Inr_iff validate_directory_parent_iff [OF typed(2)])
  obtain i where pos: "entry_position ?es p n = Inr i" using plan by (auto simp: rename_plan_def bindR_Inr_iff)
  then have i: "i < length ?es" "?es ! i \<in> set ?es" "dentry_key (?es ! i) = (p, n)"
    by (auto simp: entry_position_Inr [OF typed(4)] dentry_key_def)
  show ?thesis
  proof (cases plan)
    case None
    then have "(p, n) = (p', n')"
      using plan pos by (auto simp: rename_plan_def Let_def bindR_Inr_iff split: if_splits)
    then show ?thesis using None out i same [of "?es ! i"] by simp
  next
    case (Some es)
    let ?c = "\<lparr>pd_parent = p', pd_target = pd_target (?es ! i), pd_name = n'\<rparr>"
    obtain x where x: "find_inode ?xs (pd_target (?es ! i)) = Inr x" and new: "pd_target (?es ! i) \<noteq> 1"
      "(p, n) \<noteq> (p', n')" "es = ?es[i := ?c]"
      "pi_kind x = Directory \<longrightarrow> \<not> would_create_directory_cycle ?es i (pd_target (?es ! i)) p'"
      and other: "\<forall>j e. (j, e) \<in> set (enumerate 0 ?es) \<longrightarrow> j \<noteq> i \<longrightarrow> dentry_key e \<noteq> (p', n')"
      using plan pos Some
      by (auto simp: rename_plan_def Let_def bindR_Inr_iff list_ex_iff dentry_key_def split: if_splits)
    have "dentry_key (?es ! j) \<noteq> (p', n')" if "j < length ?es" for j
      using other [rule_format, of j "?es ! j"] new(2) i(3) that
      by (cases "j = i") (auto simp: in_set_enumerate_eq)
    then have "(p', n') \<notin> dentry_key ` set ?es" by (metis imageE in_set_conv_nth)
    then show ?thesis
      using moved [of "?es ! i" x es] i x new out Some dir typed(5)
      by (simp add: find_inode_Inr [OF typed(2)] would_create_directory_cycle_iff set_update_distinct
          put_entries_Inr [OF assms(1)])
  qed
qed

lemma hard_link_effect:
  assumes "sb_ok sb" and "fs_typed sb fs" and "hard_link_spec sb p n i fs = Inr (u, fs')"
  obtains es where "has_directory (fs_inodes fs) p" "has_file (fs_inodes fs) i"
    "(p, n) \<notin> dentry_key ` set (fs_entries fs)" "fs' = fs\<lparr>fs_entries := es\<rparr>" "directory_fits sb es"
    "set es = insert \<lparr>pd_parent = p, pd_target = i, pd_name = n\<rparr> (set (fs_entries fs))"
proof -
  note typed = typed_tables [OF assms(2)]
  obtain es where *: "has_directory (fs_inodes fs) p" "has_file (fs_inodes fs) i"
    "hard_link_plan (fs_entries fs) p n i = Inr es" "put_entries sb es fs = Inr (u, fs')"
    using assms(3)
    by (auto simp: hard_link_spec_def bindR_Inr_iff validate_directory_parent_iff [OF typed(2)]
        validate_regular_file_target_iff [OF typed(2)])
  have "(p, n) \<notin> dentry_key ` set (fs_entries fs)"
    "es = fs_entries fs @ [\<lparr>pd_parent = p, pd_target = i, pd_name = n\<rparr>]"
    using *(3) by (auto simp: hard_link_plan_def list_ex_iff dentry_key_def split: if_splits)
  then show ?thesis using * that [of es] by (simp add: put_entries_Inr [OF assms(1)])
qed

text \<open>Counting references in a table without duplicates.\<close>

lemma references_card:
  "distinct es \<Longrightarrow> references es t = card {e \<in> set es. pd_target e = t}"
  by (simp add: references_def distinct_card [symmetric])

lemma other_reference:
  assumes "distinct es" and "2 \<le> references es (pd_target e)"
  obtains f where "f \<in> set es" "f \<noteq> e" "pd_target f = pd_target e"
proof -
  have "\<not> {f \<in> set es. pd_target f = pd_target e} \<subseteq> {e}"
    using assms(2) card_mono [of "{e}" "{f \<in> set es. pd_target f = pd_target e}"]
    by (auto simp: references_card [OF assms(1)])
  then show ?thesis using that by blast
qed

lemma sole_reference:
  assumes "distinct es" and "references es (pd_target e) = 1" and "e \<in> set es" and "f \<in> set es"
    and "pd_target f = pd_target e"
  shows "f = e"
proof -
  obtain x where "{f \<in> set es. pd_target f = pd_target e} = {x}"
    using assms(2) by (auto simp: references_card [OF assms(1)] card_1_singleton_iff)
  then have "e = x" "f = x" using assms(3-5) by blast+
  then show ?thesis by simp
qed

lemma hard_unlink_effect:
  assumes "sb_ok sb" and "fs_typed sb fs" and "hard_unlink_spec sb p n fs = Inr (u, fs')"
  obtains e f es where "e \<in> set (fs_entries fs)" "dentry_key e = (p, n)" "has_file (fs_inodes fs) (pd_target e)"
    "f \<in> set (fs_entries fs)" "f \<noteq> e" "pd_target f = pd_target e"
    "fs' = fs\<lparr>fs_entries := es\<rparr>" "directory_fits sb es" "set es = set (fs_entries fs) - {e}"
proof -
  note typed = typed_tables [OF assms(2)]
  let ?xs = "fs_inodes fs" and ?es = "fs_entries fs"
  obtain es where plan: "hard_unlink_plan ?xs ?es p n = Inr es" and out: "put_entries sb es fs = Inr (u, fs')"
    using assms(3) by (auto simp: hard_unlink_spec_def bindR_Inr_iff)
  obtain i x where pos: "entry_position ?es p n = Inr i" and x: "find_inode ?xs (pd_target (?es ! i)) = Inr x"
    "pi_kind x = File" and refs: "2 \<le> references ?es (pd_target (?es ! i))" and es: "es = remove_at i ?es"
    using plan by (auto simp: hard_unlink_plan_def Let_def bindR_Inr_iff split: if_splits)
  from pos have i: "i < length ?es" "dentry_key (?es ! i) = (p, n)"
    by (auto simp: entry_position_Inr [OF typed(4)] dentry_key_def)
  obtain f where "f \<in> set ?es" "f \<noteq> ?es ! i" "pd_target f = pd_target (?es ! i)"
    using other_reference [OF typed(5) refs] .
  moreover have "has_file ?xs (pd_target (?es ! i))"
    using x by (auto simp: find_inode_Inr [OF typed(2)] has_file_def)
  ultimately show ?thesis
    using that [of "?es ! i" f es] i out by (simp add: es set_remove_at [OF typed(5)] put_entries_Inr [OF assms(1)])
qed

lemma position_entry:
  assumes "distinct (map dentry_key es)" and "entry_position es p n = Inr i"
  shows "i < length es" "es ! i \<in> set es" "dentry_key (es ! i) = (p, n)"
  using assms(2) by (auto simp: entry_position_Inr [OF assms(1)] dentry_key_def)

lemma overwrite_plan_effect:
  assumes "distinct (map pi_id xs)" and "distinct (map dentry_key es)"
    and "overwrite_plan xs es p n p' n' linked = Inr plan"
  obtains (same) e where "plan = None" "(p, n) = (p', n')" "e \<in> set es" "dentry_key e = (p, n)"
  | (over) e f d es' where "plan = Some (d, es')" "e \<in> set es" "dentry_key e = (p, n)" "f \<in> set es"
    "dentry_key f = (p', n')" "pd_target e \<noteq> pd_target f" "has_file xs (pd_target e)" "d \<in> set xs"
    "pi_id d = pd_target f" "pi_kind d = File"
    "if linked then 2 \<le> references es (pd_target f) else references es (pd_target f) = 1"
    "set es' = insert \<lparr>pd_parent = p', pd_target = pd_target e, pd_name = n'\<rparr> (set es - {e, f})"
proof -
  obtain i j where pos: "entry_position es p n = Inr i" "entry_position es p' n' = Inr j"
    using assms(3) by (auto simp: overwrite_plan_def bindR_Inr_iff)
  note i = position_entry [OF assms(2) pos(1)] and j = position_entry [OF assms(2) pos(2)]
  have "distinct es" using assms(2) by (simp add: distinct_map)
  note over_set = set_overwrite_entries [OF this i(1) j(1)]
  show ?thesis
  proof (cases "i = j")
    case True
    then show ?thesis using same [of "es ! i"] assms(3) pos i j by (simp add: overwrite_plan_def)
  next
    case False
    let ?r = "\<lparr>pd_parent = p', pd_target = pd_target (es ! i), pd_name = n'\<rparr>"
    obtain x d where "pd_target (es ! i) \<noteq> pd_target (es ! j)" and x: "find_inode xs (pd_target (es ! i)) = Inr x"
      "pi_kind x = File" and d: "find_inode xs (pd_target (es ! j)) = Inr d" "pi_kind d = File"
      and "if linked then 2 \<le> references es (pd_target (es ! j)) else references es (pd_target (es ! j)) = 1"
      and plan: "plan = Some (d, overwrite_entries es i j ?r)"
      using assms(3) pos False
      by (auto simp: overwrite_plan_def Let_def bindR_Inr_iff split: if_splits)
    moreover have "has_file xs (pd_target (es ! i))"
      using x by (auto simp: find_inode_Inr [OF assms(1)] has_file_def)
    ultimately show ?thesis
      using over [of d "overwrite_entries es i j ?r" "es ! i" "es ! j"] over_set [OF False, of ?r] i j d
      by (simp add: find_inode_Inr [OF assms(1)])
  qed
qed

lemma overwrite_effect:
  assumes "sb_ok sb" and "fs_typed sb fs" and "overwrite_spec sb p n p' n' linked fs = Inr (u, fs')"
  obtains (same) e where "fs' = fs" "(p, n) = (p', n')" "e \<in> set (fs_entries fs)" "dentry_key e = (p, n)"
  | (over) e f d a xs es where "consistent fs" "has_directory (fs_inodes fs) p'"
    "e \<in> set (fs_entries fs)" "dentry_key e = (p, n)" "f \<in> set (fs_entries fs)" "dentry_key f = (p', n')"
    "pd_target e \<noteq> pd_target f" "has_file (fs_inodes fs) (pd_target e)"
    "d \<in> set (fs_inodes fs)" "pi_id d = pd_target f" "pi_kind d = File"
    "if linked then 2 \<le> references (fs_entries fs) (pd_target f) \<and> a = fs_alloc fs \<and> xs = fs_inodes fs
     else references (fs_entries fs) (pd_target f) = 1 \<and> owned a = owned (fs_alloc fs) - set (pi_blocks d) \<and>
       set xs = set (fs_inodes fs) - {d}"
    "fs' = fs\<lparr>fs_alloc := a, fs_inodes := xs, fs_entries := es\<rparr>" "fs_typed sb fs'"
    "set es = insert \<lparr>pd_parent = p', pd_target = pd_target e, pd_name = n'\<rparr> (set (fs_entries fs) - {e, f})"
proof -
  note typed = typed_tables [OF assms(2)]
  let ?xs = "fs_inodes fs" and ?es = "fs_entries fs"
  obtain plan where dir: "consistent fs" "has_directory ?xs p'"
    and plan: "overwrite_plan ?xs ?es p n p' n' linked = Inr plan"
    and out: "(case plan of None \<Rightarrow> Inr ((), fs) | Some (d, es) \<Rightarrow>
       if linked then put_entries sb es fs
       else bindR (release_blocks InvalidInput (fs_alloc fs) (pi_blocks d)) (\<lambda>a.
         put_tables sb a (filter (\<lambda>x. pi_id x \<noteq> pi_id d) ?xs) es fs)) = Inr (u, fs')"
    using assms(3) by (auto simp: overwrite_spec_def bindR_Inr_iff validate_directory_parent_iff [OF typed(2)])
  from typed(2,4) plan show ?thesis
  proof (cases rule: overwrite_plan_effect)
    case (same e)
    then show ?thesis using that(1) [of e] out by simp
  next
    case (over e f d es)
    show ?thesis
    proof (cases linked)
      case True
      then have fs': "fs' = fs\<lparr>fs_entries := es\<rparr>" "directory_fits sb es"
        using out over(1) by (simp_all add: put_entries_Inr [OF assms(1)])
      show ?thesis
        using that(2) [of e f d "fs_alloc fs" ?xs es] dir over fs' True fs_typed_entries [OF assms(2) fs'(2)] by simp
    next
      case False
      let ?f = "filter (\<lambda>x. pi_id x \<noteq> pi_id d) ?xs"
      obtain a where a: "release_blocks InvalidInput (fs_alloc fs) (pi_blocks d) = Inr a" "put_tables sb a ?f es fs = Inr (u, fs')"
        using out over(1) False by (auto simp: bindR_Inr_iff)
      note rel = release_blocks_Inr [OF typed(1) a(1)]
      then have fs': "fs' = fs\<lparr>fs_alloc := a, fs_inodes := ?f, fs_entries := es\<rparr>" "fs_typed sb fs'"
        using a(2) assms(2) by (auto simp: put_tables_iff [OF assms(1)] fs_typed_def)
      have "set ?f = set ?xs - {d}" using same_id [OF typed(2)] over(8) by auto
      then show ?thesis using that(2) [of e f d a ?f es] dir over fs' False rel by simp
    qed
  qed
qed

lemma set_update2_distinct:
  assumes "distinct xs" and "i < length xs" and "j < length xs" and "i \<noteq> j"
  shows "set (xs[i := a, j := b]) = insert a (insert b (set xs - {xs ! i, xs ! j}))"
proof -
  have "set (xs[i := a, j := b]) = (\<lambda>k. xs[i := a, j := b] ! k) ` {..<length xs}"
    by (auto simp: set_conv_nth)
  also have "{..<length xs} = insert i (insert j ({..<length xs} - {i, j}))" using assms(2,3) by auto
  also have "(\<lambda>k. xs[i := a, j := b] ! k) ` \<dots> = insert a (insert b ((!) xs ` ({..<length xs} - {i, j})))"
    using assms by auto
  also have "(!) xs ` ({..<length xs} - {i, j}) = set xs - {xs ! i, xs ! j}"
    using assms by (auto simp: set_conv_nth nth_eq_iff_index_eq)
  finally show ?thesis .
qed

lemma exchange_effect:
  assumes "sb_ok sb" and "fs_typed sb fs" and "exchange_spec sb p n p' n' fs = Inr (u, fs')"
  obtains (same) "fs' = fs" "(p, n) = (p', n')"
  | (aliased) e f where "fs' = fs" "e \<in> set (fs_entries fs)" "dentry_key e = (p, n)" "f \<in> set (fs_entries fs)"
    "dentry_key f = (p', n')" "pd_target e = pd_target f"
  | (swapped) e f es where "consistent fs" "has_directory (fs_inodes fs) p" "has_directory (fs_inodes fs) p'"
    "e \<in> set (fs_entries fs)" "dentry_key e = (p, n)" "f \<in> set (fs_entries fs)" "dentry_key f = (p', n')"
    "pd_target e \<noteq> pd_target f" "has_file (fs_inodes fs) (pd_target e)" "has_file (fs_inodes fs) (pd_target f)"
    "fs' = fs\<lparr>fs_entries := es\<rparr>" "directory_fits sb es"
    "set es = insert \<lparr>pd_parent = p, pd_target = pd_target f, pd_name = n\<rparr>
       (insert \<lparr>pd_parent = p', pd_target = pd_target e, pd_name = n'\<rparr> (set (fs_entries fs) - {e, f}))"
proof -
  note typed = typed_tables [OF assms(2)]
  let ?xs = "fs_inodes fs" and ?es = "fs_entries fs"
  have dir: "consistent fs" "has_directory ?xs p" "has_directory ?xs p'"
    using assms(3) by (auto simp: exchange_spec_def bindR_Inr_iff validate_directory_parent_iff [OF typed(2)])
  show ?thesis
  proof (cases "(p, n) = (p', n')")
    case True
    then show ?thesis using assms(3) same by (simp add: exchange_spec_def bindR_Inr_iff)
  next
    case False
    obtain plan where plan: "exchange_plan ?xs ?es p n p' n' = Inr plan"
      and out: "(case plan of None \<Rightarrow> Inr ((), fs) | Some es \<Rightarrow> put_entries sb es fs) = Inr (u, fs')"
      using assms(3) False by (auto simp: exchange_spec_def bindR_Inr_iff)
    obtain i j where pos: "entry_position ?es p n = Inr i" "entry_position ?es p' n' = Inr j"
      using plan by (auto simp: exchange_plan_def bindR_Inr_iff)
    note i = position_entry [OF typed(4) pos(1)] and j = position_entry [OF typed(4) pos(2)]
    let ?e = "?es ! i" and ?f = "?es ! j"
    have files: "has_file ?xs (pd_target ?e)" "has_file ?xs (pd_target ?f)"
      using plan pos
      by (auto simp: exchange_plan_def Let_def bindR_Inr_iff validate_regular_file_target_iff [OF typed(2)])
    show ?thesis
    proof (cases "pd_target ?e = pd_target ?f")
      case True
      then have "plan = None"
        using plan pos by (auto simp: exchange_plan_def Let_def bindR_Inr_iff)
      then show ?thesis using aliased [of ?e ?f] out i j True by simp
    next
      case ne: False
      then have "i \<noteq> j" by blast
      obtain es where es: "plan = Some es" "es = ?es[i := \<lparr>pd_parent = p, pd_target = pd_target ?f, pd_name = n\<rparr>,
          j := \<lparr>pd_parent = p', pd_target = pd_target ?e, pd_name = n'\<rparr>]"
        using plan pos ne by (auto simp: exchange_plan_def Let_def bindR_Inr_iff)
      then have "fs' = fs\<lparr>fs_entries := es\<rparr>" "directory_fits sb es"
        using out by (simp_all add: put_entries_Inr [OF assms(1)])
      then show ?thesis
        using swapped [of ?e ?f es] dir i j ne files set_update2_distinct [OF typed(5) i(1) j(1) \<open>i \<noteq> j\<close>]
        by (simp add: es(2))
    qed
  qed
qed

text \<open>The validator of unlink accepts exactly the legal transitions.\<close>

lemma by_id_None: "by_id xs i = None \<longleftrightarrow> i \<notin> id_set xs"
  by (induction xs rule: rev_induct) (auto simp: by_id_def id_set_def)

lemma by_id_Some:
  assumes "distinct (map pi_id xs)"
  shows "by_id xs i = Some x \<longleftrightarrow> x \<in> set xs \<and> pi_id x = i"
  using assms
  by (induction xs rule: rev_induct) (auto simp: by_id_def, metis imageI)

lemma card_id_set: "card (id_set xs) = length xs \<longleftrightarrow> distinct (map pi_id xs)"
  using card_distinct [of "map pi_id xs"] distinct_card [of "map pi_id xs"] by (auto simp: id_set_def)

lemma singleton_filter:
  assumes "finite A"
  shows "length (filter P (sorted_list_of_set A)) = 1 \<and> filter P (sorted_list_of_set A) ! 0 = (r :: u64) \<longleftrightarrow>
    {x \<in> A. P x} = {r}"
proof -
  let ?l = "filter P (sorted_list_of_set A)"
  have l: "set ?l = {x \<in> A. P x}" "distinct ?l" using assms by simp_all
  then show ?thesis using distinct_card [OF l(2)] by (cases ?l) auto
qed

lemma unlink_inode_delta_iff:
  assumes "distinct (map pi_id xs)"
  shows "unlink_inode_delta xs xs' = Inr r \<longleftrightarrow>
    distinct (map pi_id xs') \<and> r \<noteq> 1 \<and> (\<exists>x \<in> set xs. pi_id x = r \<and> set xs' = set xs - {x})"
proof (cases "distinct (map pi_id xs')")
  case True
  have fin: "finite (id_set xs)" by (simp add: id_set_def)
  have "unlink_inode_delta xs xs' = Inr r \<longleftrightarrow>
      id_set xs - id_set xs' = {r} \<and> id_set xs' \<subseteq> id_set xs \<and> r \<noteq> 1 \<and>
      (\<forall>i \<in> id_set xs. by_id xs' i \<noteq> None \<longrightarrow> by_id xs' i = by_id xs i)"
    using singleton_filter [OF fin, of "\<lambda>i. by_id xs' i = None" r] assms True
    by (auto simp: unlink_inode_delta_def Let_def card_id_set by_id_None set_diff_eq split: if_splits)
  also have "\<dots> \<longleftrightarrow> r \<noteq> 1 \<and> (\<exists>x \<in> set xs. pi_id x = r \<and> set xs' = set xs - {x})" (is "?L \<longleftrightarrow> ?R")
  proof
    assume L: ?L
    then have "r \<in> id_set xs" by blast
    then obtain x where x: "x \<in> set xs" "pi_id x = r" by (auto simp: id_set_def)
    have same: "y \<in> set xs' \<longleftrightarrow> y \<in> set xs" if "pi_id y \<in> id_set xs'" for y
    proof -
      have "by_id xs' (pi_id y) = by_id xs (pi_id y)" using L that by_id_None [of xs' "pi_id y"] by blast
      then show ?thesis using by_id_Some [OF True, of "pi_id y" y] by_id_Some [OF assms, of "pi_id y" y] by simp
    qed
    have "set xs' = set xs - {x}"
    proof (intro set_eqI iffI)
      fix y assume "y \<in> set xs'"
      then have "pi_id y \<in> id_set xs'" by (simp add: id_set_def)
      then show "y \<in> set xs - {x}" using same [of y] \<open>y \<in> set xs'\<close> L x by auto
    next
      fix y assume y: "y \<in> set xs - {x}"
      then have "pi_id y \<noteq> r" using x same_id [OF assms] by auto
      then have "pi_id y \<in> id_set xs'" using y L by (auto simp: id_set_def)
      then show "y \<in> set xs'" using same [of y] y by blast
    qed
    then show ?R using L x by blast
  next
    assume ?R
    then obtain x where x: "r \<noteq> 1" "x \<in> set xs" "pi_id x = r" "set xs' = set xs - {x}" by blast
    have "id_set xs' = id_set xs - {r}" using x same_id [OF assms] by (auto simp: id_set_def)
    moreover have "by_id xs' i = by_id xs i" if "by_id xs' i \<noteq> None" for i
    proof -
      obtain z where z: "by_id xs' i = Some z" using \<open>by_id xs' i \<noteq> None\<close> by blast
      then show ?thesis using x(4) by_id_Some [OF True, of i z] by_id_Some [OF assms, of i z] by simp
    qed
    ultimately show ?L using x by (auto simp: id_set_def)
  qed
  finally show ?thesis using True by simp
qed (use card_id_set in \<open>auto simp: unlink_inode_delta_def Let_def\<close>)

lemma unlink_entry_delta_iff:
  assumes "distinct es"
  shows "unlink_entry_delta es es' r k = Inr u \<longleftrightarrow>
    distinct es' \<and> (\<forall>f \<in> set es'. pd_parent f \<noteq> r) \<and> (k = Directory \<longrightarrow> (\<forall>f \<in> set es. pd_parent f \<noteq> r)) \<and>
    (\<exists>e \<in> set es. set es' = set es - {e} \<and> {f \<in> set es. pd_target f = r} = {e})"
proof -
  let ?t = "\<lambda>e :: persisted_directory_entry. (pd_parent e, pd_name e, pd_target e)"
  have inj: "inj ?t" by (rule injI) (auto intro: persisted_directory_entry.equality)
  have len: "card (entry_set ys) = length ys \<longleftrightarrow> distinct ys" for ys
    using card_distinct [of "map ?t ys"] distinct_card [of "map ?t ys"] inj
    by (auto simp: entry_set_def distinct_map inj_on_def)
  have mem: "?t e \<in> entry_set ys \<longleftrightarrow> e \<in> set ys" for e ys
    unfolding entry_set_def set_map by (rule inj_image_mem_iff [OF inj])
  have sub: "(\<exists>x \<in> entry_set es'. x \<notin> entry_set es) \<longleftrightarrow> \<not> set es' \<subseteq> set es"
    using mem by (auto simp: entry_set_def)
  have diff: "entry_set es - entry_set es' = ?t ` (set es - set es')"
    using mem by (auto simp: entry_set_def)
  have card: "card (entry_set es - entry_set es') = card (set es - set es')"
    unfolding diff by (rule card_image [OF inj_on_subset [OF inj]]) simp
  have "unlink_entry_delta es es' r k = Inr u \<longleftrightarrow>
      distinct es' \<and> set es' \<subseteq> set es \<and> card (set es - set es') = 1 \<and> (\<forall>e \<in> set es - set es'. pd_target e = r) \<and>
      card {e \<in> set es. pd_target e = r} = 1 \<and> (\<forall>f \<in> set es'. pd_target f \<noteq> r \<and> pd_parent f \<noteq> r) \<and>
      (k = Directory \<longrightarrow> (\<forall>f \<in> set es. pd_parent f \<noteq> r))"
    unfolding unlink_entry_delta_def Let_def len card sub references_card [OF assms]
    by (auto simp: assms diff list_ex_iff split: if_splits)
  also have "\<dots> \<longleftrightarrow> distinct es' \<and> (\<forall>f \<in> set es'. pd_parent f \<noteq> r) \<and>
      (k = Directory \<longrightarrow> (\<forall>f \<in> set es. pd_parent f \<noteq> r)) \<and>
      (\<exists>e \<in> set es. set es' = set es - {e} \<and> {f \<in> set es. pd_target f = r} = {e})" (is "?L \<longleftrightarrow> ?R")
  proof
    assume L: ?L
    then obtain e where e: "set es - set es' = {e}" by (auto simp: card_1_singleton_iff)
    then have "set es' = set es - {e}" "{f \<in> set es. pd_target f = r} = {e}" using L by blast+
    then show ?R using L e by blast
  next
    assume R: ?R
    then obtain e where e: "e \<in> set es" "set es' = set es - {e}" "{f \<in> set es. pd_target f = r} = {e}" by blast
    then have "set es - set es' = {e}" by blast
    then show ?L using R e by auto
  qed
  finally show ?thesis .
qed

lemma observe_freed_loop:
  assumes "alloc_inv a" and "alloc_inv a'" and "same_geometry a a'" and "set bs \<subseteq> data_blocks a"
  shows "iterR (observe_freed a a') bs S =
    (if set bs \<inter> owned a' \<subseteq> owned a then Inr (S \<union> (set bs \<inter> owned a - owned a')) else Inl InvalidInput)"
  using assms(4)
proof (induction bs arbitrary: S)
  case (Cons b bs)
  have b: "\<not> b < al_reserved_blocks a" "\<not> al_total_blocks a \<le> b"
    using Cons.prems by (auto simp: data_blocks_def)
  then have "observe_freed a a' b S =
      (if b \<in> owned a \<and> b \<notin> owned a' then Inr (insert b S)
       else if b \<notin> owned a \<and> b \<in> owned a' then Inl InvalidInput else Inr S)"
    using assms(3) by (simp add: observe_freed_def is_owned_spec [OF assms(1)] is_owned_spec [OF assms(2)])
  then show ?case using Cons.IH Cons.prems by auto
qed simp

definition unlink_legal ::
  "fs_state \<Rightarrow> block_allocator \<Rightarrow> persisted_inode list \<Rightarrow> persisted_directory_entry list \<Rightarrow> bool" where
  "unlink_legal fs a xs es \<longleftrightarrow>
     same_geometry (fs_alloc fs) a \<and> distinct (map pi_id xs) \<and> distinct es \<and>
     (\<exists>r \<in> set (fs_inodes fs). \<exists>e \<in> set (fs_entries fs).
        pi_id r \<noteq> 1 \<and> set xs = set (fs_inodes fs) - {r} \<and>
        set es = set (fs_entries fs) - {e} \<and> {f \<in> set (fs_entries fs). pd_target f = pi_id r} = {e} \<and>
        (\<forall>f \<in> set es. pd_parent f \<noteq> pi_id r) \<and>
        (pi_kind r = Directory \<longrightarrow> (\<forall>f \<in> set (fs_entries fs). pd_parent f \<noteq> pi_id r)) \<and>
        set (pi_blocks r) \<subseteq> owned (fs_alloc fs) \<and> owned a = owned (fs_alloc fs) - set (pi_blocks r))"

lemma unlink_plan_iff:
  assumes "alloc_inv a" and "distinct (map pi_id xs)" and "distinct es" and "alloc_inv a'"
  shows "unlink_plan a xs es a' xs' es' = Inr u \<longleftrightarrow>
    unlink_legal \<lparr>fs_alloc = a, fs_inodes = xs, fs_entries = es, fs_data = f\<rparr> a' xs' es'"
proof (cases "same_geometry a a'")
  case False
  then show ?thesis by (auto simp: unlink_plan_def unlink_legal_def)
next
  case True
  have range: "set (u64_range (al_reserved_blocks a) (al_total_blocks a)) = data_blocks a"
    by (auto simp: u64_range_eq_iff data_blocks_def)
  have own: "data_blocks a \<inter> owned a = owned a" "data_blocks a \<inter> owned a' = owned a'"
    using True by (auto simp: owned_def data_blocks_def)
  have freed: "iterR (observe_freed a a') (u64_range (al_reserved_blocks a) (al_total_blocks a)) {} = Inr S \<longleftrightarrow>
      owned a' \<subseteq> owned a \<and> S = owned a - owned a'" for S
    by (subst observe_freed_loop [OF assms(1,4) True]) (auto simp: range own)
  have geo: "al_total_blocks a = al_total_blocks a'" "al_reserved_blocks a = al_reserved_blocks a'" using True by auto
  have blocks: "owned a' \<subseteq> owned a \<and> owned a - owned a' = B \<longleftrightarrow> B \<subseteq> owned a \<and> owned a' = owned a - B" for B
    by blast
  have "unlink_plan a xs es a' xs' es' = Inr u \<longleftrightarrow>
      (\<exists>r. unlink_inode_delta xs xs' = Inr r \<and>
         unlink_entry_delta es es' r (pi_kind (the (by_id xs r))) = Inr () \<and>
         owned a' \<subseteq> owned a \<and> owned a - owned a' = set (pi_blocks (the (by_id xs r))))"
    using freed by (auto simp: unlink_plan_def geo bindR_Inr_iff Let_def)
  also have "\<dots> \<longleftrightarrow> (\<exists>x \<in> set xs. pi_id x \<noteq> 1 \<and> distinct (map pi_id xs') \<and> set xs' = set xs - {x} \<and>
      unlink_entry_delta es es' (pi_id x) (pi_kind x) = Inr () \<and>
      set (pi_blocks x) \<subseteq> owned a \<and> owned a' = owned a - set (pi_blocks x))"
  proof -
    have "by_id xs (pi_id x) = Some x" if "x \<in> set xs" for x using that by_id_Some [OF assms(2)] by simp
    then show ?thesis unfolding unlink_inode_delta_iff [OF assms(2)] blocks by fastforce
  qed
  also have "\<dots> \<longleftrightarrow> unlink_legal \<lparr>fs_alloc = a, fs_inodes = xs, fs_entries = es, fs_data = f\<rparr> a' xs' es'"
    unfolding unlink_entry_delta_iff [OF assms(3)] using True by (auto simp: unlink_legal_def)
  finally show ?thesis .
qed

end
