(* ===== verification/FS_Example.thy ===== *)
theory FS_Example
  imports FS_Fsck
begin

text \<open>
  A small populated file system, at which the theorems about operations are exercised: the
  device of \<^const>\<open>disk\<close> after one creation transaction. The root directory holds a file of two
  blocks, which has a second name, and a subdirectory with a file of one block.
\<close>

definition allocator_with :: "nat \<Rightarrow> block_allocator" where
  "allocator_with n =
     \<lparr>al_total_blocks = 40, al_reserved_blocks = 22,
      al_allocated = replicate 22 False @ replicate n True @ replicate (18 - n) False,
      al_allocated_blocks = word_of_nat n\<rparr>"

abbreviation disk_allocator :: block_allocator where "disk_allocator \<equiv> allocator_with 3"

definition disk_inodes :: "persisted_inode list" where
  "disk_inodes =
     [\<lparr>pi_id = 1, pi_kind = Directory, pi_blocks = []\<rparr>, \<lparr>pi_id = 2, pi_kind = File, pi_blocks = [22, 23]\<rparr>,
      \<lparr>pi_id = 3, pi_kind = Directory, pi_blocks = []\<rparr>, \<lparr>pi_id = 4, pi_kind = File, pi_blocks = [24]\<rparr>]"

abbreviation name_a :: rust_string where "name_a \<equiv> string_of_bytes [97]"

abbreviation name_b :: rust_string where "name_b \<equiv> string_of_bytes [98]"

abbreviation name_c :: rust_string where "name_c \<equiv> string_of_bytes [99]"

definition disk_entries :: "persisted_directory_entry list" where
  "disk_entries =
     [\<lparr>pd_parent = 1, pd_target = 2, pd_name = name_a\<rparr>, \<lparr>pd_parent = 1, pd_target = 3, pd_name = name_b\<rparr>,
      \<lparr>pd_parent = 3, pd_target = 4, pd_name = name_a\<rparr>, \<lparr>pd_parent = 3, pd_target = 2, pd_name = name_b\<rparr>]"

text \<open>The state with given tables, and the device after the transaction that publishes them.\<close>

definition fs_with ::
  "block_allocator \<Rightarrow> persisted_inode list \<Rightarrow> persisted_directory_entry list \<Rightarrow> fs_state" where
  "fs_with a xs es =
     (empty_fs disk_superblock (\<lambda>_. zero_block))\<lparr>fs_alloc := a, fs_inodes := xs, fs_entries := es\<rparr>"

definition disk_with ::
  "block_allocator \<Rightarrow> persisted_inode list \<Rightarrow> persisted_directory_entry list \<Rightarrow> crash_device" where
  "disk_with a xs es =
     snd (snd (crash_and_recover disk_superblock None (store_create_metadata_journaled crash_ops disk_superblock a xs es) disk))"

abbreviation disk_fs :: fs_state where "disk_fs \<equiv> fs_with disk_allocator disk_inodes disk_entries"

abbreviation populated :: crash_device where "populated \<equiv> disk_with disk_allocator disk_inodes disk_entries"

lemma fs_with_simps [simp]:
  "fs_alloc (fs_with a xs es) = a" "fs_inodes (fs_with a xs es) = xs" "fs_entries (fs_with a xs es) = es"
  by (simp_all add: fs_with_def)

lemma name_distinct [simp]:
  "name_a \<noteq> name_b" "name_b \<noteq> name_a" "name_a \<noteq> name_c" "name_c \<noteq> name_a" "name_b \<noteq> name_c" "name_c \<noteq> name_b"
  by (simp_all add: as_bytes_eq_iff [symmetric])

lemma allocator_with_simps [simp]:
  "al_total_blocks (allocator_with n) = 40" "al_reserved_blocks (allocator_with n) = 22"
  by (simp_all add: allocator_with_def)

lemma allocator_with_inv:
  assumes "n \<le> 18"
  shows "alloc_inv (allocator_with n)"
proof -
  have "unat (word_of_nat n :: u64) = n" using assms by (intro unat_u64_of_nat) simp
  moreover have "length (filter (\<lambda>b. b) (replicate 22 False @ replicate n True @ replicate (18 - n) False)) = n"
    by simp
  ultimately show ?thesis using assms by (simp add: alloc_inv_def allocator_with_def nth_append)
qed

lemma allocator_with_owned:
  assumes "n \<le> 18"
  shows "b \<in> owned (allocator_with n) \<longleftrightarrow> 22 \<le> b \<and> unat b < 22 + n"
proof -
  have "b \<in> owned (allocator_with n) \<longleftrightarrow> 22 \<le> unat b \<and> unat b < 40 \<and> al_allocated (allocator_with n) ! unat b"
    by (simp add: owned_def data_blocks_def allocator_with_def word_le_nat_alt word_less_nat_alt)
  also have "\<dots> \<longleftrightarrow> 22 \<le> unat b \<and> unat b < 22 + n"
    using assms by (auto simp: allocator_with_def nth_append split: if_splits)
  finally show ?thesis by (simp add: word_le_nat_alt)
qed

lemma card_allocator_with: "n \<le> 18 \<Longrightarrow> card (owned (allocator_with n) - B) \<le> n"
proof -
  assume n: "n \<le> 18"
  have "owned (allocator_with n) - B \<subseteq> word_of_nat ` {22..<22 + n}"
    using n by (auto simp: allocator_with_owned word_le_nat_alt intro!: image_eqI [of _ _ "unat _"])
  then have "card (owned (allocator_with n) - B) \<le> card {22..<22 + n}"
    by (meson card_image_le card_mono finite_atLeastLessThan finite_imageI le_trans)
  then show ?thesis by simp
qed

lemma allocator_with_fits: "alloc_fits disk_superblock (allocator_with n)"
  by (simp add: alloc_fits_def disk_superblock_def allocator_with_def reserved_blocks_def)

lemma disk_tables_fit:
  "alloc_fits disk_superblock disk_allocator" "inode_fits disk_superblock disk_inodes"
  "directory_fits disk_superblock disk_entries"
proof -
  show "alloc_fits disk_superblock disk_allocator"
    by (rule allocator_with_fits)
  show "inode_fits disk_superblock disk_inodes"
    by (simp add: inode_fits_def disk_superblock_def disk_inodes_def length_inode_record inode_ok_def)
  show "directory_fits disk_superblock disk_entries"
    by (simp add: directory_fits_def disk_superblock_def disk_entries_def length_dentry_record dentry_ok_def
        name_ok_def dentry_key_def)
qed

lemma disk_journal:
  assumes "card {b \<in> set (data_region disk_superblock). fs_data fs b \<noteq> fs_data fs' b} +
    card (owned (fs_alloc fs') - owned (fs_alloc fs)) \<le> 10"
  shows "\<not> journal_full disk_superblock fs fs'"
proof -
  let ?M = "meta_blocks disk_superblock"
  note len = region_lengths [OF sb_ok_layout [OF disk_superblock_ok]]
  have "card ?M \<le> card (set (allocation_region disk_superblock)) + card (set (inode_region disk_superblock)) +
      card (set (directory_region disk_superblock))"
    unfolding meta_blocks_def by (meson add_right_mono card_Un_le le_trans)
  also have "\<dots> \<le> 1 + 2 + 2"
    by (intro add_mono card_length [THEN le_trans]) (simp_all add: len, simp_all add: disk_superblock_def)
  finally have "card ?M \<le> 5" by simp
  moreover have "card (touched disk_superblock fs fs') \<le> card ?M +
      card {b \<in> set (data_region disk_superblock). fs_data fs b \<noteq> fs_data fs' b} +
      card (owned (fs_alloc fs') - owned (fs_alloc fs))"
    unfolding touched_def by (meson add_right_mono card_Un_le le_trans)
  ultimately have "card (touched disk_superblock fs fs') \<le> 15" using assms by linarith
  then have "card (touched disk_superblock fs fs') * 4128 \<le> 15 * 4128" by (rule mult_le_mono1)
  then show ?thesis by (simp add: journal_full_def journal_capacity_def disk_superblock_def)
qed

lemma disk_consistent: "ownership_ok disk_allocator disk_inodes" "namespace_ok disk_inodes disk_entries"
proof -
  show "ownership_ok disk_allocator disk_inodes"
    by (simp add: ownership_ok_def file_blocks_def disk_inodes_def allocator_with_owned)
  have links: "links disk_entries = {(1, 2), (1, 3), (3, 4), (3, 2)}"
    by (simp add: links_def disk_entries_def)
  have "acyclic (links disk_entries)"
    by (rule acyclicI_order [where f = "\<lambda>i. if i = 1 then 2 else if i = 3 then 1 else 0 :: nat"]) (auto simp: links)
  moreover have "(1, 2) \<in> (links disk_entries)\<^sup>*" "(1, 3) \<in> (links disk_entries)\<^sup>*" "(3, 4) \<in> (links disk_entries)\<^sup>*"
    by (auto simp: links)
  moreover have "(1, 4) \<in> (links disk_entries)\<^sup>*" using calculation(3,4) by (rule rtrancl_trans)
  ultimately show "namespace_ok disk_inodes disk_entries"
    by (simp add: namespace_ok_def has_directory_def has_inode_def ROOT_INODE_ID_def disk_inodes_def)
      (simp add: disk_entries_def)
qed

lemma disk_fs_consistent: "consistent disk_fs"
  using disk_consistent by (simp add: consistent_def)

lemma disk_with_mounted:
  assumes "n \<le> 10" and "inode_fits disk_superblock xs" and "directory_fits disk_superblock es"
  shows "cd_mounted disk_superblock (disk_with (allocator_with n) xs es) (fs_with (allocator_with n) xs es)"
proof -
  let ?sb = disk_superblock and ?fs = "empty_fs disk_superblock (\<lambda>_. zero_block)" and ?a = "allocator_with n"
  let ?op = "store_create_metadata_journaled crash_ops ?sb ?a xs es"
  have inv: "alloc_inv ?a" by (rule allocator_with_inv) (use assms(1) in simp)
  obtain r rep dev where run: "crash_and_recover ?sb None ?op disk = (r, rep, dev)" using prod_cases3 by blast
  have spec: "put_tables ?sb ?a xs es ?fs = Inr ((), fs_with ?a xs es)"
    using assms allocator_with_fits by (simp add: put_tables_iff [OF disk_superblock_ok inv] fs_with_def)
  have "card (owned (fs_alloc (fs_with ?a xs es)) - owned (fs_alloc ?fs)) \<le> 10"
    using card_allocator_with [of n "owned (fs_alloc ?fs)"] assms(1) by simp
  then have "\<not> journal_full ?sb ?fs (fs_with ?a xs es)" by (intro disk_journal) (simp add: fs_with_def)
  moreover have "crash_outcome ?sb (\<lambda>_. ()) (put_tables ?sb ?a xs es) ?fs None (r, rep, dev)"
    unfolding run [symmetric]
    by (rule crash_safe_outcome [where P = "\<lambda>_. True", OF disk_superblock_ok disk_mounted TrueI
          crash_safe_metadata(5) [OF disk_superblock_ok inv]])
  ultimately show ?thesis
    unfolding disk_with_def run by (auto simp: crash_outcome_def spec is_ok_iff)
qed

lemma populated_mounted: "cd_mounted disk_superblock populated disk_fs"
  by (rule disk_with_mounted) (simp_all add: disk_tables_fit)

end
