(* ===== verification/FS_Namespace_Laws.thy ===== *)
theory FS_Namespace_Laws
  imports FS_Namespace FS_Example
begin

text \<open>
  The laws of the namespace operations: every successful operation on a consistent state leads
  to a consistent state, acts on the map from names to inodes as the corresponding map update
  and touches nothing else, and is atomic under crashes.
\<close>

section \<open>Consistency\<close>

lemma edges_simps [simp]:
  "edges (insert e E) = insert (pd_parent e, pd_target e) (edges E)" "edges {} = {}"
  by (simp_all add: edges_def)

lemma edges_split: "e \<in> E \<Longrightarrow> edges E = insert (pd_parent e, pd_target e) (edges (E - {e}))"
  by (auto simp: edges_def)

lemma Domain_edges: "Domain (edges E) = pd_parent ` E"
  by (force simp: edges_def)

lemma resolve_insert [simp]:
  "resolve (set xs) (insert e E) \<longleftrightarrow> has_directory xs (pd_parent e) \<and> has_inode xs (pd_target e) \<and> resolve (set xs) E"
  by (auto simp: resolve_def has_directory_def has_inode_def)

lemma resolve_subset: "resolve X E \<Longrightarrow> F \<subseteq> E \<Longrightarrow> resolve X F"
  by (auto simp: resolve_def)

lemma has_inodeI: "has_file xs i \<Longrightarrow> has_inode xs i" "has_directory xs i \<Longrightarrow> has_inode xs i"
  by (auto simp: has_file_def has_directory_def has_inode_def)

lemma directory_id: "has_directory xs i \<Longrightarrow> i \<in> pi_id ` set xs"
  by (force simp: has_directory_def)

lemma file_not_directory: "distinct (map pi_id xs) \<Longrightarrow> has_file xs i \<Longrightarrow> \<not> has_directory xs i"
  using same_id by (fastforce simp: has_file_def has_directory_def)

lemma file_leaf:
  "distinct (map pi_id xs) \<Longrightarrow> resolve (set xs) E \<Longrightarrow> has_file xs t \<Longrightarrow> t \<notin> Domain (edges E)"
  using file_not_directory [of xs t] by (auto simp: resolve_def edges_def has_directory_def)

text \<open>A state whose entries alone are replaced.\<close>

lemma consistent_new_entries:
  assumes "consistent fs" and "has_directory (fs_inodes fs) p"
    and "resolve (set (fs_inodes fs)) (set es)"
    and "rooted (pi_id ` set (fs_inodes fs)) 1 (edges (set (fs_entries fs))) \<Longrightarrow>
      rooted (pi_id ` set (fs_inodes fs)) 1 (edges (set es))"
  shows "consistent (fs\<lparr>fs_entries := es\<rparr>)"
  using assms by (auto simp: consistent_def namespace_ok_sets has_directory_def)

lemma consistent_resolve: "consistent fs \<Longrightarrow> resolve (set (fs_inodes fs)) (set (fs_entries fs))"
  by (simp add: consistent_def namespace_ok_sets)

lemma rename_consistent:
  assumes "sb_ok sb" and "fs_typed sb fs" and "consistent fs" and "rename_spec sb p n p' n' fs = Inr (u, fs')"
  shows "consistent fs'"
  using assms(1,2,4)
proof (cases rule: rename_effect)
  case same
  then show ?thesis using assms(3) by simp
next
  case (moved e x es)
  let ?R = "edges (set (fs_entries fs) - {e})" and ?t = "pd_target e"
  note typed = typed_tables [OF assms(2)] and res = consistent_resolve [OF assms(3)]
  have res': "resolve (set (fs_inodes fs)) (set (fs_entries fs) - {e})" using resolve_subset [OF res] by blast
  have nr: "(?t, p') \<notin> ?R\<^sup>*"
  proof (cases "pi_kind x")
    case File
    then have tfile: "has_file (fs_inodes fs) ?t" using moved(4,5) by (auto simp: has_file_def)
    then have "p' \<noteq> ?t" using file_not_directory [OF typed(2)] moved(7) by blast
    then show ?thesis using leaf_rtrancl [OF file_leaf [OF typed(2) res' tfile]] by simp
  qed (use moved(8) in simp)
  have "consistent (fs\<lparr>fs_entries := es\<rparr>)"
    using moved(4,5,7) res' rooted_move [OF _ nr directory_id [OF moved(7)]]
    by (intro consistent_new_entries [OF assms(3) moved(7)])
      (auto simp: moved(11) edges_split [OF moved(1)] has_inode_def)
  then show ?thesis using moved(9) by simp
qed

lemma hard_link_consistent:
  assumes "sb_ok sb" and "fs_typed sb fs" and "consistent fs" and "hard_link_spec sb p n i fs = Inr (u, fs')"
  shows "consistent fs'"
  using assms(1,2,4)
proof (cases rule: hard_link_effect)
  case (1 es)
  note typed = typed_tables [OF assms(2)] and res = consistent_resolve [OF assms(3)]
  have "p \<noteq> i" using file_not_directory [OF typed(2)] 1 by blast
  then have "(i, p) \<notin> (edges (set (fs_entries fs)))\<^sup>*" using leaf_rtrancl [OF file_leaf [OF typed(2) res 1(2)]] by simp
  then have "consistent (fs\<lparr>fs_entries := es\<rparr>)"
    using 1 res has_inodeI by (intro consistent_new_entries [OF assms(3) 1(1)]) (auto simp: rooted_insert)
  then show ?thesis using 1 by simp
qed

lemma hard_unlink_consistent:
  assumes "sb_ok sb" and "fs_typed sb fs" and "consistent fs" and "hard_unlink_spec sb p n fs = Inr (u, fs')"
  shows "consistent fs'"
  using assms(1,2,4)
proof (cases rule: hard_unlink_effect)
  case (1 e f es)
  note typed = typed_tables [OF assms(2)] and res = consistent_resolve [OF assms(3)]
  let ?E = "set (fs_entries fs) - {e}"
  have res': "resolve (set (fs_inodes fs)) ?E" using resolve_subset [OF res] by blast
  have f: "(pd_parent f, pd_target e) \<in> edges ?E" using 1(4-6) by (force simp: edges_def)
  have dir: "has_directory (fs_inodes fs) (pd_parent f)" using res 1(4) by (auto simp: resolve_def has_directory_def)
  note N = directory_id [OF dir]
  have "consistent (fs\<lparr>fs_entries := es\<rparr>)"
    using rooted_drop_alias [OF _ file_leaf [OF typed(2) res' 1(3)] f N] res'
    by (intro consistent_new_entries [OF assms(3) dir]) (auto simp: 1(9) edges_split [OF 1(1)])
  then show ?thesis using 1 by simp
qed

lemma edges_split2:
  assumes "e \<in> E" and "f \<in> E" and "e \<noteq> f"
  shows "edges E = insert (pd_parent e, pd_target e) (insert (pd_parent f, pd_target f) (edges (E - {e, f})))"
proof -
  have "f \<in> E - {e}" "E - {e} - {f} = E - {e, f}" using assms by auto
  then show ?thesis using edges_split [OF assms(1)] edges_split [of f "E - {e}"] by simp
qed

text \<open>A state from which an inode is removed together with its blocks.\<close>

lemma ownership_removed:
  assumes "ownership_ok a xs" and "distinct xs" and "distinct xs'" and "set xs' = set xs - {r}" and "r \<in> set xs"
    and "owned a' = owned a - set (pi_blocks r)"
  shows "ownership_ok a' xs'"
  using assms by (auto simp: ownership_ok_sets unshared_def)

lemma namespace_removed:
  assumes "distinct (map pi_id xs)" and "r \<in> set xs" and "set xs' = set xs - {r}" and "has_directory xs 1"
    and "pi_id r \<noteq> 1" and "resolve (set xs) (set es)"
    and "\<forall>e \<in> set es. pd_target e \<noteq> pi_id r \<and> pd_parent e \<noteq> pi_id r"
    and "rooted (pi_id ` set xs - {pi_id r}) 1 (edges (set es))"
  shows "namespace_ok xs' es"
proof -
  have "pi_id ` set xs' = pi_id ` set xs - {pi_id r}" using same_id [OF assms(1)] assms(2,3) by auto
  moreover have "has_directory xs' 1" using assms(3-5) by (auto simp: has_directory_def)
  moreover have "resolve (set xs') (set es)" using assms(3,6,7) by (fastforce simp: resolve_def)
  ultimately show ?thesis using assms(8) by (simp add: namespace_ok_sets)
qed

lemma overwrite_consistent:
  assumes "sb_ok sb" and "fs_typed sb fs" and "overwrite_spec sb p n p' n' linked fs = Inr (u, fs')"
    and "consistent fs"
  shows "consistent fs'"
  using assms(1-3)
proof (cases rule: overwrite_effect)
  case same
  then show ?thesis using assms(4) by simp
next
  case (over e f d a xs es)
  let ?xs = "fs_inodes fs" and ?E = "set (fs_entries fs)" and ?s = "pd_target e" and ?d = "pd_target f"
  let ?R = "edges (?E - {e, f})" and ?N = "pi_id ` set ?xs"
  note typed = typed_tables [OF assms(2)] and res = consistent_resolve [OF assms(4)]
  have ne: "e \<noteq> f" using over(7) by blast
  have key: "pd_parent f = p'" using over(6) by (simp add: dentry_key_def)
  have dfile: "has_file ?xs ?d" using over(9-11) by (auto simp: has_file_def)
  have p': "p' \<noteq> ?s" "p' \<noteq> ?d" using file_not_directory [OF typed(2)] over(2,8) dfile by blast+
  have leaf: "?s \<notin> Domain (edges ?E)" "?d \<notin> Domain (edges ?E)"
    using file_leaf [OF typed(2) res] over(8) dfile by blast+
  have split: "edges ?E = insert (pd_parent e, ?s) (insert (p', ?d) ?R)"
    using edges_split2 [OF over(3,5) ne] key by simp
  have nr: "(?s, p') \<notin> (insert (p', ?d) ?R)\<^sup>*"
    using leaf_rtrancl [of ?s "insert (p', ?d) ?R"] leaf(1) p'(1) unfolding split by auto
  have root: "has_directory ?xs 1" and R: "rooted ?N 1 (edges ?E)"
    using assms(4) over(2) by (auto simp: consistent_def namespace_ok_sets has_directory_def)
  have moved: "rooted ?N 1 (insert (p', ?d) (insert (p', ?s) ?R))"
    using rooted_move [OF R [unfolded split] nr directory_id [OF over(2)]] by (simp add: insert_commute)
  have leafd: "?d \<notin> Domain (insert (p', ?s) ?R)" using leaf(2) p'(2) unfolding split by auto
  have res': "resolve (set ?xs) (set es)"
    unfolding over(15) using over(2,8) resolve_subset [OF res] has_inodeI(1) by simp
  have es: "edges (set es) = insert (p', ?s) ?R" by (simp add: over(15))
  show ?thesis
  proof (cases linked)
    case True
    obtain g where g: "g \<in> ?E" "g \<noteq> f" "pd_target g = ?d" using other_reference [OF typed(5)] over(12) True by auto
    then have "(pd_parent g, ?d) \<in> insert (p', ?s) ?R" using over(7) by (force simp: edges_def)
    moreover have "pd_parent g \<in> ?N" using res g(1) by (force simp: resolve_def)
    ultimately have "rooted ?N 1 (edges (set es))" unfolding es using rooted_drop_alias [OF moved leafd] by blast
    then show ?thesis using over(12,13) True assms(4) res' root by (simp add: consistent_def namespace_ok_sets)
  next
    case False
    have d1: "pi_id d \<noteq> 1" using root file_not_directory [OF typed(2) dfile] over(10) by auto
    have gone: "\<forall>g \<in> set es. pd_target g \<noteq> pi_id d \<and> pd_parent g \<noteq> pi_id d"
      using sole_reference [OF typed(5), of f] over(5,7,10,12,15) False p'(2) leaf(2)
      by (auto simp: Domain_edges image_iff)
    have "namespace_ok xs es"
      using namespace_removed [OF typed(2) over(9) _ root d1 res' gone] over(10,12) False es
        rooted_drop_leaf [OF moved leafd] by simp
    moreover have "ownership_ok a xs"
      using ownership_removed [of "fs_alloc fs" ?xs xs d a] over(9) typed(3) typed_tables(3) [OF over(14)] assms(4) over(12,13) False
      by (simp add: consistent_def)
    ultimately show ?thesis using over(13) by (simp add: consistent_def)
  qed
qed

lemma exchange_consistent:
  assumes "sb_ok sb" and "fs_typed sb fs" and "exchange_spec sb p n p' n' fs = Inr (u, fs')" and "consistent fs"
  shows "consistent fs'"
  using assms(1-3)
proof (cases rule: exchange_effect)
  case (swapped e f es)
  let ?xs = "fs_inodes fs" and ?E = "set (fs_entries fs)" and ?s = "pd_target e" and ?d = "pd_target f"
  let ?R = "edges (?E - {e, f})" and ?N = "pi_id ` set ?xs"
  note typed = typed_tables [OF assms(2)] and res = consistent_resolve [OF assms(4)]
  have ne: "e \<noteq> f" using swapped(8) by blast
  have key: "pd_parent e = p" "pd_parent f = p'" using swapped(5,7) by (simp_all add: dentry_key_def)
  have dirs: "p \<noteq> ?s" "p \<noteq> ?d" "p' \<noteq> ?s" "p' \<noteq> ?d"
    using file_not_directory [OF typed(2)] swapped(2,3,9,10) by blast+
  have leaf: "?s \<notin> Domain (edges ?E)" "?d \<notin> Domain (edges ?E)"
    using file_leaf [OF typed(2) res] swapped(9,10) by blast+
  have split: "edges ?E = insert (p, ?s) (insert (p', ?d) ?R)" using edges_split2 [OF swapped(4,6) ne] key by simp
  have nr: "(?s, p') \<notin> (insert (p', ?d) ?R)\<^sup>*" "(?d, p) \<notin> (insert (p', ?s) ?R)\<^sup>*"
    using leaf_rtrancl [of ?s "insert (p', ?d) ?R"] leaf_rtrancl [of ?d "insert (p', ?s) ?R"] leaf dirs
    unfolding split by auto
  have "rooted ?N 1 (insert (p, ?d) (insert (p', ?s) ?R))" if "rooted ?N 1 (edges ?E)"
  proof -
    have "rooted ?N 1 (insert (p', ?d) (insert (p', ?s) ?R))"
      using rooted_move [OF that [unfolded split] nr(1) directory_id [OF swapped(3)]] by (simp add: insert_commute)
    then show ?thesis using nr(2) directory_id [OF swapped(2)] by (rule rooted_move)
  qed
  moreover have "resolve (set ?xs) (set es)"
    unfolding swapped(13) using swapped(2,3,9,10) resolve_subset [OF res] has_inodeI(1) by simp
  ultimately have "consistent (fs\<lparr>fs_entries := es\<rparr>)"
    by (intro consistent_new_entries [OF assms(4) swapped(2)]) (simp_all add: swapped(13))
  then show ?thesis using swapped(11) by simp
qed (use assms(4) in simp_all)

lemma unlink_effect:
  assumes "sb_ok sb" and "fs_typed sb fs" and "alloc_inv a" and "unlink_spec sb a xs es fs = Inr (u, fs')"
  obtains r e where "r \<in> set (fs_inodes fs)" "pi_id r \<noteq> 1" "set xs = set (fs_inodes fs) - {r}"
    "owned a = owned (fs_alloc fs) - set (pi_blocks r)" "e \<in> set (fs_entries fs)" "set es = set (fs_entries fs) - {e}"
    "{f \<in> set (fs_entries fs). pd_target f = pi_id r} = {e}" "\<forall>f \<in> set es. pd_parent f \<noteq> pi_id r"
    "fs' = fs\<lparr>fs_alloc := a, fs_inodes := xs, fs_entries := es\<rparr>" "fs_typed sb fs'"
proof -
  note typed = typed_tables [OF assms(2)]
  have fs: "\<lparr>fs_alloc = fs_alloc fs, fs_inodes = fs_inodes fs, fs_entries = fs_entries fs, fs_data = fs_data fs\<rparr> = fs" by simp
  have legal: "unlink_legal fs a xs es" and fs': "fs' = fs\<lparr>fs_alloc := a, fs_inodes := xs, fs_entries := es\<rparr>"
    and "alloc_fits sb a" "inode_fits sb xs" "directory_fits sb es"
    using assms(4) unlink_plan_iff [OF typed(1,2,5) assms(3), where f = "fs_data fs" and u = "()", unfolded fs]
    by (auto simp: unlink_spec_def bindR_Inr_iff put_tables_iff [OF assms(1,3)])
  then have "fs_typed sb fs'" using assms(2,3) by (simp add: fs_typed_def)
  then show ?thesis using that fs' legal by (auto simp: unlink_legal_def)
qed

lemma unlink_consistent:
  assumes "sb_ok sb" and "fs_typed sb fs" and "alloc_inv a" and "unlink_spec sb a xs es fs = Inr (u, fs')"
    and "consistent fs"
  shows "consistent fs'"
  using assms(1-4)
proof (cases rule: unlink_effect)
  case (1 r e)
  let ?xs = "fs_inodes fs" and ?E = "set (fs_entries fs)"
  note typed = typed_tables [OF assms(2)] and res = consistent_resolve [OF assms(5)]
  note r = 1(1-4) and e = 1(5-8) and fs' = 1(9)
  have xs: "distinct (map pi_id xs)" using typed_tables(2) [OF 1(10)] fs' by simp
  have root: "has_directory ?xs 1" and R: "rooted (pi_id ` set ?xs) 1 (edges ?E)"
    using assms(5) r(1) by (auto simp: consistent_def namespace_ok_sets)
  have t: "pd_target e = pi_id r" using e(3) by blast
  have leaf: "pi_id r \<notin> Domain (edges (set es))" using e(4) by (auto simp: Domain_edges)
  have "edges ?E = insert (pd_parent e, pi_id r) (edges (set es))" using edges_split [OF e(1)] e(2) t by simp
  then have R': "rooted (pi_id ` set ?xs - {pi_id r}) 1 (edges (set es))"
    using rooted_drop_leaf [OF _ leaf] R by metis
  have gone: "\<forall>f \<in> set es. pd_target f \<noteq> pi_id r \<and> pd_parent f \<noteq> pi_id r" using e by blast
  have "namespace_ok xs es"
    using namespace_removed [OF typed(2) r(1,3) root r(2) _ gone R'] resolve_subset [OF res] e(2) by blast
  moreover have "ownership_ok a xs"
    using ownership_removed [OF _ typed(3) _ r(3,1,4)] xs assms(5) by (simp add: consistent_def distinct_map)
  ultimately show ?thesis using fs' by (simp add: consistent_def)
qed

section \<open>The map from names to inodes\<close>

definition names :: "fs_state \<Rightarrow> u64 \<times> rust_string \<rightharpoonup> u64" where
  "names fs = map_of (map (\<lambda>e. (dentry_key e, pd_target e)) (fs_entries fs))"

lemma names_Some:
  assumes "fs_typed sb fs"
  shows "names fs k = Some t \<longleftrightarrow> (\<exists>e \<in> set (fs_entries fs). dentry_key e = k \<and> pd_target e = t)"
proof -
  have "distinct (map fst (map (\<lambda>e. (dentry_key e, pd_target e)) (fs_entries fs)))"
    using typed_tables(4) [OF assms] by (simp add: comp_def)
  then show ?thesis unfolding names_def by (subst map_of_eq_Some_iff) auto
qed

lemma names_entry: "fs_typed sb fs \<Longrightarrow> e \<in> set (fs_entries fs) \<Longrightarrow> names fs (dentry_key e) = Some (pd_target e)"
  by (auto simp: names_Some)

lemma names_None: "names fs k = None \<longleftrightarrow> k \<notin> dentry_key ` set (fs_entries fs)"
  by (auto simp: names_def map_of_eq_None_iff image_image)

lemma same_key:
  assumes "fs_typed sb fs" and "e \<in> set (fs_entries fs)" and "f \<in> set (fs_entries fs)" and "dentry_key e = dentry_key f"
  shows "e = f"
  using typed_tables(4) [OF assms(1)] assms(2-4) by (simp add: distinct_map inj_on_def)

text \<open>Replacing the entries \<open>E\<close> by the entries \<open>as\<close>.\<close>

lemma names_replace:
  assumes "fs_typed sb fs" and "fs_typed sb fs'" and "E \<subseteq> set (fs_entries fs)" and "distinct (map dentry_key as)"
    and "set (fs_entries fs') = set as \<union> (set (fs_entries fs) - E)"
  shows "names fs' = (names fs |` (- dentry_key ` E)) ++ map_of (map (\<lambda>e. (dentry_key e, pd_target e)) as)"
    (is "_ = ?r ++ ?m")
proof
  fix k
  show "names fs' k = (?r ++ ?m) k"
  proof (cases "k \<in> dentry_key ` set as")
    case True
    then obtain e where e: "e \<in> set as" "k = dentry_key e" by blast
    have "?m k = Some (pd_target e)" using e assms(4) by (intro map_of_is_SomeI) (auto simp: comp_def)
    moreover have "names fs' k = Some (pd_target e)" using names_entry [OF assms(2), of e] e assms(5) by simp
    ultimately show ?thesis by simp
  next
    case False
    then have m: "?m k = None" by (auto simp: map_of_eq_None_iff image_image)
    have new: "names fs' k = Some t \<longleftrightarrow> (\<exists>e \<in> set (fs_entries fs) - E. dentry_key e = k \<and> pd_target e = t)" for t
      unfolding names_Some [OF assms(2)] assms(5) using False by blast
    have "names fs' k = Some t \<longleftrightarrow> ?r k = Some t" for t
    proof (cases "k \<in> dentry_key ` E")
      case True
      then have "e \<in> E" if "e \<in> set (fs_entries fs)" "dentry_key e = k" for e
        using same_key [OF assms(1) that(1)] assms(3) that(2) by blast
      then show ?thesis using True new by (auto simp: restrict_map_def)
    next
      case False
      then have "names fs k = Some t \<longleftrightarrow> (\<exists>e \<in> set (fs_entries fs) - E. dentry_key e = k \<and> pd_target e = t)"
        unfolding names_Some [OF assms(1)] by blast
      then show ?thesis using False new by (simp add: restrict_map_def)
    qed
    then have "names fs' k = ?r k" by (cases "?r k") auto
    then show ?thesis using m by (simp add: map_add_def)
  qed
qed

lemma names_move:
  assumes "fs_typed sb fs" and "fs_typed sb fs'" and "E \<subseteq> set (fs_entries fs)" and "dentry_key ` E \<subseteq> {k, dentry_key r}"
    and "k \<in> dentry_key ` E" and "set (fs_entries fs') = insert r (set (fs_entries fs) - E)"
  shows "names fs' = (names fs)(k := None, dentry_key r \<mapsto> pd_target r)"
proof -
  have "names fs' = (names fs |` (- dentry_key ` E)) ++ [dentry_key r \<mapsto> pd_target r]"
    using names_replace [OF assms(1-3), of "[r]"] assms(6) by simp
  then show ?thesis using assms(4,5) by (auto simp: fun_eq_iff restrict_map_def)
qed

lemma rename_names:
  assumes "sb_ok sb" and "fs_typed sb fs" and "rename_spec sb p n p' n' fs = Inr (u, fs')"
  shows "\<exists>t. names fs (p, n) = Some t \<and> names fs' = (names fs)((p, n) := None, (p', n') \<mapsto> t) \<and>
    fs' = fs\<lparr>fs_entries := fs_entries fs'\<rparr>"
  using assms
proof (cases rule: rename_effect)
  case (same e)
  then show ?thesis using names_entry [OF assms(2), of e] by (auto simp: fun_eq_iff)
next
  case (moved e x es)
  have "names fs' = (names fs)((p, n) := None, (p', n') \<mapsto> pd_target e)"
    using names_move [OF assms(2) fs_typed_entries [OF assms(2) moved(10)], of "{e}" "(p, n)"] moved
    by (simp add: dentry_key_def)
  then show ?thesis using names_entry [OF assms(2) moved(1)] moved(2,9) by auto
qed

lemma hard_link_names:
  assumes "sb_ok sb" and "fs_typed sb fs" and "hard_link_spec sb p n i fs = Inr (u, fs')"
  shows "names fs (p, n) = None \<and> names fs' = (names fs)((p, n) \<mapsto> i) \<and>
    fs' = fs\<lparr>fs_entries := fs_entries fs'\<rparr>"
  using assms
proof (cases rule: hard_link_effect)
  case (1 es)
  have "names fs' = (names fs)((p, n) \<mapsto> i)"
    using names_replace [OF assms(2) fs_typed_entries [OF assms(2) 1(5)], of "{}"
        "[\<lparr>pd_parent = p, pd_target = i, pd_name = n\<rparr>]"] 1(4,6)
    by (auto simp: dentry_key_def fun_eq_iff restrict_map_def)
  then show ?thesis using 1(3,4) by (auto simp: names_None)
qed

lemma hard_unlink_names:
  assumes "sb_ok sb" and "fs_typed sb fs" and "hard_unlink_spec sb p n fs = Inr (u, fs')"
  shows "\<exists>t k. names fs (p, n) = Some t \<and> k \<noteq> (p, n) \<and> names fs k = Some t \<and>
    names fs' = (names fs)((p, n) := None) \<and> fs' = fs\<lparr>fs_entries := fs_entries fs'\<rparr>"
  using assms
proof (cases rule: hard_unlink_effect)
  case (1 e f es)
  have "names fs' = (names fs)((p, n) := None)"
    using names_replace [OF assms(2) fs_typed_entries [OF assms(2) 1(8)], of "{e}" "[]"] 1
    by (simp add: restrict_complement_singleton_eq)
  moreover have "dentry_key f \<noteq> (p, n)" using same_key [OF assms(2) 1(4,1)] 1(2,5) by auto
  moreover have "names fs (p, n) = Some (pd_target e)" "names fs (dentry_key f) = Some (pd_target e)"
    "fs' = fs\<lparr>fs_entries := fs_entries fs'\<rparr>"
    using names_entry [OF assms(2) 1(1)] names_entry [OF assms(2) 1(4)] 1(2,6,7) by simp_all
  ultimately show ?thesis by blast
qed

lemma unlink_names:
  assumes "sb_ok sb" and "fs_typed sb fs" and "alloc_inv a" and "unlink_spec sb a xs es fs = Inr (u, fs')"
  shows "\<exists>r k. r \<in> set (fs_inodes fs) \<and> set (fs_inodes fs') = set (fs_inodes fs) - {r} \<and>
    (\<forall>k'. names fs k' = Some (pi_id r) \<longleftrightarrow> k' = k) \<and> names fs' = (names fs)(k := None) \<and>
    fs_data fs' = fs_data fs \<and> fs_typed sb fs'"
  using assms
proof (cases rule: unlink_effect)
  case (1 r e)
  have "names fs' = (names fs)(dentry_key e := None)"
    using names_replace [OF assms(2) 1(10), of "{e}" "[]"] 1(5,6,9) by (simp add: restrict_complement_singleton_eq)
  moreover have "names fs k' = Some (pi_id r) \<longleftrightarrow> k' = dentry_key e" for k'
    using 1(7) by (auto simp: names_Some [OF assms(2)])
  ultimately show ?thesis
    using 1(1,3,9,10) by (intro exI [of _ r] exI [of _ "dentry_key e"]) simp
qed

lemma overwrite_names:
  assumes "sb_ok sb" and "fs_typed sb fs" and "overwrite_spec sb p n p' n' linked fs = Inr (u, fs')"
  shows "\<exists>t t'. names fs (p, n) = Some t \<and> names fs (p', n') = Some t' \<and>
    names fs' = (names fs)((p, n) := None, (p', n') \<mapsto> t) \<and> fs_data fs' = fs_data fs \<and>
    (linked \<longrightarrow> fs' = fs\<lparr>fs_entries := fs_entries fs'\<rparr>) \<and>
    (\<not> linked \<and> (p, n) \<noteq> (p', n') \<longrightarrow>
       (\<exists>d \<in> set (fs_inodes fs). pi_id d = t' \<and> set (fs_inodes fs') = set (fs_inodes fs) - {d} \<and>
          owned (fs_alloc fs') = owned (fs_alloc fs) - set (pi_blocks d)))"
  using assms
proof (cases rule: overwrite_effect)
  case (same e)
  then show ?thesis using names_entry [OF assms(2), of e] by (auto simp: fun_eq_iff)
next
  case (over e f d a xs es)
  have "names fs' = (names fs)((p, n) := None, (p', n') \<mapsto> pd_target e)"
    using names_move [OF assms(2) over(14), of "{e, f}" "(p, n)"
        "\<lparr>pd_parent = p', pd_target = pd_target e, pd_name = n'\<rparr>"] over(3-6,13,15)
    by (simp add: dentry_key_def)
  moreover have "names fs (p, n) = Some (pd_target e)" "names fs (p', n') = Some (pd_target f)"
    using names_entry [OF assms(2) over(3)] names_entry [OF assms(2) over(5)] over(4,6) by simp_all
  moreover have "fs_data fs' = fs_data fs" "linked \<longrightarrow> fs' = fs\<lparr>fs_entries := fs_entries fs'\<rparr>"
    using over(12,13) by auto
  moreover have "\<not> linked \<longrightarrow> (\<exists>d \<in> set (fs_inodes fs). pi_id d = pd_target f \<and>
      set (fs_inodes fs') = set (fs_inodes fs) - {d} \<and> owned (fs_alloc fs') = owned (fs_alloc fs) - set (pi_blocks d))"
    using over(9,10,12,13) by auto
  ultimately show ?thesis by blast
qed

lemma exchange_names:
  assumes "sb_ok sb" and "fs_typed sb fs" and "exchange_spec sb p n p' n' fs = Inr (u, fs')"
  shows "fs' = fs\<lparr>fs_entries := fs_entries fs'\<rparr> \<and>
    ((p, n) = (p', n') \<and> fs' = fs \<or>
     (\<exists>t t'. names fs (p, n) = Some t \<and> names fs (p', n') = Some t' \<and>
        names fs' = (names fs)((p, n) \<mapsto> t', (p', n') \<mapsto> t)))"
  using assms
proof (cases rule: exchange_effect)
  case (aliased e f)
  have "names fs (p, n) = Some (pd_target e)" "names fs (p', n') = Some (pd_target e)"
    using names_entry [OF assms(2) aliased(2)] names_entry [OF assms(2) aliased(4)] aliased(3,5,6) by simp_all
  then show ?thesis using aliased(1) by (auto simp: fun_upd_idem)
next
  case (swapped e f es)
  let ?a = "\<lparr>pd_parent = p, pd_target = pd_target f, pd_name = n\<rparr>"
  let ?b = "\<lparr>pd_parent = p', pd_target = pd_target e, pd_name = n'\<rparr>"
  have ne: "(p, n) \<noteq> (p', n')" using same_key [OF assms(2) swapped(4,6)] swapped(5,7,8) by auto
  then have keys: "distinct (map dentry_key [?a, ?b])" by (simp add: dentry_key_def)
  have typed: "fs_typed sb fs'" using fs_typed_entries [OF assms(2) swapped(12)] swapped(11) by simp
  have "names fs' = (names fs |` (- {(p, n), (p', n')})) ++ [(p', n') \<mapsto> pd_target e, (p, n) \<mapsto> pd_target f]"
    using names_replace [OF assms(2) typed _ keys, of "{e, f}"] swapped(4-7,11,13)
    by (simp add: dentry_key_def)
  also have "\<dots> = (names fs)((p, n) \<mapsto> pd_target f, (p', n') \<mapsto> pd_target e)"
    using ne by (auto simp: fun_eq_iff restrict_map_def)
  finally show ?thesis
    using names_entry [OF assms(2) swapped(4)] names_entry [OF assms(2) swapped(6)] swapped(5,7,11) by auto
qed simp

section \<open>Properties\<close>

text \<open>C6. Namespace operations are atomic under crashes. On a crash-prone device that holds the file
  system \<open>fs\<close>, a rename, hard link, removal of a link, rename over a file (with one or with
  several links), exchange or validated unlink that a crash may interrupt before any of its
  device mutations leaves, after recovery, either \<open>fs\<close> or the state its specification names; a
  reported success implies the latter. Uninterrupted, it fails exactly as specified or because
  the journal is too small.\<close>

theorem namespace_update_crash_atomic:
  assumes "sb_ok sb" and "cd_mounted sb dev fs" and "alloc_inv a"
  shows "crash_outcome sb (\<lambda>_. ()) (rename_spec sb p n p' n') fs k
      (crash_and_recover sb k (rename_entry_journaled crash_ops sb p n p' n') dev) \<and>
    crash_outcome sb (\<lambda>_. ()) (hard_link_spec sb p n i) fs k
      (crash_and_recover sb k (hard_link_file_journaled crash_ops sb p n i) dev) \<and>
    crash_outcome sb (\<lambda>_. ()) (hard_unlink_spec sb p n) fs k
      (crash_and_recover sb k (unlink_nonfinal_file_link_journaled crash_ops sb p n) dev) \<and>
    crash_outcome sb (\<lambda>_. ()) (overwrite_spec sb p n p' n' False) fs k
      (crash_and_recover sb k (rename_overwrite_file_journaled crash_ops sb p n p' n') dev) \<and>
    crash_outcome sb (\<lambda>_. ()) (overwrite_spec sb p n p' n' True) fs k
      (crash_and_recover sb k (rename_overwrite_linked_file_journaled crash_ops sb p n p' n') dev) \<and>
    crash_outcome sb (\<lambda>_. ()) (exchange_spec sb p n p' n') fs k
      (crash_and_recover sb k (rename_exchange_files_journaled crash_ops sb p n p' n') dev) \<and>
    crash_outcome sb (\<lambda>_. ()) (unlink_spec sb a xs es) fs k
      (crash_and_recover sb k (store_unlink_metadata_journaled crash_ops sb a xs es) dev)"
  by (intro conjI crash_safe_outcome [where P = "\<lambda>_. True", OF assms(1,2) TrueI] crash_safe_namespace assms)

theorem namespace_update_crash_atomic_witness:
  "crash_outcome disk_superblock (\<lambda>_. ()) (rename_spec disk_superblock 1 name_a 3 name_c) disk_fs (Some 2)
     (crash_and_recover disk_superblock (Some 2) (rename_entry_journaled crash_ops disk_superblock 1 name_a 3 name_c) populated)"
  using namespace_update_crash_atomic [OF disk_superblock_ok populated_mounted allocator_with_inv [of 3]] by simp

lemma rename_plan_iff:
  assumes "distinct (map pi_id xs)" and "distinct (map dentry_key es)" and "i < length es" and "dentry_key (es ! i) = (p, n)"
    and "cand = \<lparr>pd_parent = p', pd_target = pd_target (es ! i), pd_name = n'\<rparr>"
  shows "rename_plan xs es p n p' n' = Inr plan \<longleftrightarrow>
    pd_target (es ! i) \<noteq> 1 \<and>
    ((p, n) = (p', n') \<and> plan = None \<or>
     (p, n) \<noteq> (p', n') \<and> (p', n') \<notin> dentry_key ` set es \<and> dentry_ok cand \<and> has_inode xs (pd_target (es ! i)) \<and>
     (has_directory xs (pd_target (es ! i)) \<longrightarrow> (pd_target (es ! i), p') \<notin> (edges (set es - {es ! i}))\<^sup>*) \<and>
     plan = Some (es[i := cand]))"
proof -
  let ?t = "pd_target (es ! i)"
  have pos: "entry_position es p n = Inr i" using assms(3,4) by (simp add: entry_position_Inr [OF assms(2)] dentry_key_def)
  have used: "list_ex (\<lambda>(j, e). j \<noteq> i \<and> pd_parent e = p' \<and> pd_name e = n') (enumerate 0 es) \<longleftrightarrow>
      (p', n') \<in> dentry_key ` set es" if "(p, n) \<noteq> (p', n')"
  proof -
    have "list_ex (\<lambda>(j, e). j \<noteq> i \<and> pd_parent e = p' \<and> pd_name e = n') (enumerate 0 es) \<longleftrightarrow>
        (\<exists>j < length es. j \<noteq> i \<and> dentry_key (es ! j) = (p', n'))"
      by (auto simp: list_ex_iff in_set_enumerate_eq dentry_key_def)
    also have "\<dots> \<longleftrightarrow> (\<exists>j < length es. dentry_key (es ! j) = (p', n'))" using assms(4) that by auto
    also have "\<dots> \<longleftrightarrow> (p', n') \<in> dentry_key ` set es" by (force simp: in_set_conv_nth image_iff)
    finally show ?thesis .
  qed
  have inode: "(\<exists>x. find_inode xs ?t = Inr x \<and> (pi_kind x = Directory \<longrightarrow> \<not> c)) \<longleftrightarrow>
      has_inode xs ?t \<and> (has_directory xs ?t \<longrightarrow> \<not> c)" for c
  proof (cases "has_inode xs ?t")
    case True
    then obtain x where x: "x \<in> set xs" "pi_id x = ?t" by (auto simp: has_inode_def)
    then have only: "y \<in> set xs \<and> pi_id y = ?t \<longleftrightarrow> y = x" for y using same_id [OF assms(1)] by metis
    then have "find_inode xs ?t = Inr y \<longleftrightarrow> y = x" for y unfolding find_inode_Inr [OF assms(1)] .
    moreover have "has_directory xs ?t \<longleftrightarrow> pi_kind x = Directory" unfolding has_directory_def using only by metis
    ultimately show ?thesis using True by simp
  qed (auto simp: has_inode_def find_inode_Inr [OF assms(1)])
  have cycle: "would_create_directory_cycle es i ?t p' \<longleftrightarrow> (?t, p') \<in> (edges (set es - {es ! i}))\<^sup>*"
    using assms(2,3) by (intro would_create_directory_cycle_iff) (simp_all add: distinct_map)
  show ?thesis
  proof (cases "(p, n) = (p', n')")
    case True
    then show ?thesis unfolding rename_plan_def pos by (auto simp: Let_def)
  next
    case False
    then have "rename_plan xs es p n p' n' = Inr plan \<longleftrightarrow> ?t \<noteq> 1 \<and> (p', n') \<notin> dentry_key ` set es \<and> dentry_ok cand \<and>
        (\<exists>x. find_inode xs ?t = Inr x \<and> (pi_kind x = Directory \<longrightarrow> \<not> would_create_directory_cycle es i ?t p')) \<and>
        plan = Some (es[i := cand])"
      using used unfolding rename_plan_def pos
      by (auto simp: Let_def bindR_Inr_iff encode_dentry_iff assms(5) split: if_splits)
    then show ?thesis using False unfolding inode cycle by blast
  qed
qed

text \<open>C11. Rename succeeds exactly when it should. On a consistent file system the operation is
  accepted if and only if both parents are directories, the source entry exists and does not lead
  to the root, and either the entry keeps its name or the new name is free, the new table is well
  formed and fits, and a directory is not moved below itself.\<close>

theorem rename_exact:
  assumes "sb_ok sb" and "fs_typed sb fs" and "consistent fs"
  shows "is_ok (rename_spec sb p n p' n' fs) \<longleftrightarrow>
    has_directory (fs_inodes fs) p \<and> has_directory (fs_inodes fs) p' \<and>
    (\<exists>i < length (fs_entries fs). let e = fs_entries fs ! i in
       dentry_key e = (p, n) \<and> pd_target e \<noteq> 1 \<and>
       ((p, n) = (p', n') \<or>
        (p', n') \<notin> dentry_key ` set (fs_entries fs) \<and>
        directory_fits sb ((fs_entries fs)[i := \<lparr>pd_parent = p', pd_target = pd_target e, pd_name = n'\<rparr>]) \<and>
        (has_directory (fs_inodes fs) (pd_target e) \<longrightarrow>
           (pd_target e, p') \<notin> (edges (set (fs_entries fs) - {e}))\<^sup>*)))"
proof -
  note typed = typed_tables [OF assms(2)]
  let ?es = "fs_entries fs" and ?xs = "fs_inodes fs"
  let ?cand = "\<lambda>i. \<lparr>pd_parent = p', pd_target = pd_target (?es ! i), pd_name = n'\<rparr>"
  have pos: "entry_position ?es p n = Inr i \<longleftrightarrow> i < length ?es \<and> dentry_key (?es ! i) = (p, n)" for i
    by (auto simp: entry_position_Inr [OF typed(4)] dentry_key_def)
  have found: "\<exists>i < length ?es. dentry_key (?es ! i) = (p, n)" if "is_ok (rename_spec sb p n p' n' fs)"
    using that by (auto simp: rename_spec_def rename_plan_def is_ok_iff bindR_Inr_iff pos)
  have one: "is_ok (rename_spec sb p n p' n' fs) \<longleftrightarrow>
      has_directory ?xs p \<and> has_directory ?xs p' \<and> pd_target (?es ! i) \<noteq> 1 \<and>
      ((p, n) = (p', n') \<or> (p', n') \<notin> dentry_key ` set ?es \<and> directory_fits sb (?es[i := ?cand i]) \<and>
         (has_directory ?xs (pd_target (?es ! i)) \<longrightarrow>
            (pd_target (?es ! i), p') \<notin> (edges (set ?es - {?es ! i}))\<^sup>*))"
    if i: "i < length ?es" "dentry_key (?es ! i) = (p, n)" for i
  proof -
    have "has_inode ?xs (pd_target (?es ! i))" using assms(3) i(1) by (simp add: consistent_def namespace_ok_def)
    moreover have "dentry_ok (?cand i)" if "directory_fits sb (?es[i := ?cand i])"
      using that i(1) by (metis directory_fits_def length_list_update list_all_length nth_list_update_eq)
    moreover have "(p, n) \<in> dentry_key ` set ?es" using i(1) by (simp add: i(2) [symmetric])
    ultimately show ?thesis
      unfolding rename_spec_def is_ok_iff bindR_Inr_iff rename_plan_iff [OF typed(2,4) i refl]
      by (cases "(p, n) = (p', n')")
        (auto simp: validate_directory_parent_iff [OF typed(2)] put_entries_Inr [OF assms(1)] simp del: prod.inject)
  qed
  show ?thesis using found one unfolding Let_def by blast
qed

theorem rename_exact_witness:
  "is_ok (rename_spec disk_superblock 1 name_a 3 name_c disk_fs) \<and> \<not> is_ok (rename_spec disk_superblock 1 name_b 3 name_c disk_fs)"
proof -
  have typed: "fs_typed disk_superblock disk_fs" using populated_mounted by (simp add: cd_mounted_def mounted_def)
  note exact = rename_exact [OF disk_superblock_ok typed disk_fs_consistent]
  have ex: "(\<exists>i < length disk_entries. P i) \<longleftrightarrow> P 0 \<or> P 1 \<or> P 2 \<or> P 3" for P
    by (auto simp: disk_entries_def numeral_eq_Suc less_Suc_eq)
  have "(3, 3) \<in> (edges (set disk_entries - {disk_entries ! 1}))\<^sup>*" by simp
  then have "\<not> is_ok (rename_spec disk_superblock 1 name_b 3 name_c disk_fs)"
    unfolding exact fs_with_simps ex Let_def
    by (simp add: disk_entries_def disk_inodes_def dentry_key_def has_directory_def)
  moreover have "is_ok (rename_spec disk_superblock 1 name_a 3 name_c disk_fs)"
    unfolding exact fs_with_simps ex Let_def
    by (simp add: disk_entries_def disk_inodes_def dentry_key_def has_directory_def directory_fits_def dentry_ok_def
        name_ok_def length_dentry_record disk_superblock_def)
  ultimately show ?thesis by simp
qed

text \<open>C12. The unlink validator is exact. Before an unlink is journaled the caller's tables are compared
  with those on the device. The comparison changes nothing, and it accepts exactly the legal
  transitions: one inode other than the root is gone together with the only entry that led to it,
  no entry is left inside it, and the blocks released are exactly those it owned.\<close>

theorem unlink_validation_exact:
  assumes "sb_ok sb" and "cd_mounted sb dev fs" and "alloc_inv a"
  shows "case validate_unlink_transition crash_ops sb a xs es dev of (r, dev') \<Rightarrow>
    cd_view dev' = cd_view dev \<and> cd_durable dev' = cd_durable dev \<and> (is_ok r \<longleftrightarrow> unlink_legal fs a xs es)"
proof -
  have typed: "fs_typed sb fs" using assms(2) by (simp add: cd_mounted_def mounted_def)
  have "unlink_plan (fs_alloc fs) (fs_inodes fs) (fs_entries fs) a xs es = Inr () \<longleftrightarrow> unlink_legal fs a xs es"
    using unlink_plan_iff [OF typed_tables(1,2,5) [OF typed] assms(3), where f = "fs_data fs"]
    by (cases fs) simp
  then show ?thesis
    using crash_reads [where P = "\<lambda>_. True", OF assms(2) TrueI crash_dev.reads_validate_unlink [OF assms(1)], of a xs es]
    by (auto simp: is_ok_iff)
qed

theorem unlink_validation_exact_witness:
  "is_ok (fst (validate_unlink_transition crash_ops disk_superblock (allocator_with 2)
     (take 3 disk_inodes) (remove_at 2 disk_entries) populated))"
proof -
  have "owned (allocator_with 2) = owned disk_allocator - {24}"
    by (auto simp: allocator_with_owned word_unat_eq_iff)
  moreover have "24 \<in> owned disk_allocator" by (simp add: allocator_with_owned)
  moreover have "distinct (map pi_id (take 3 disk_inodes))" "distinct (remove_at 2 disk_entries)"
    by (simp_all add: disk_inodes_def disk_entries_def remove_at_def)
  moreover have "set (take 3 disk_inodes) = set disk_inodes - {disk_inodes ! 3}"
    "set (remove_at 2 disk_entries) = set disk_entries - {disk_entries ! 2}"
    "disk_inodes ! 3 \<in> set disk_inodes" "disk_entries ! 2 \<in> set disk_entries"
    by (auto simp: disk_inodes_def disk_entries_def remove_at_def)
  moreover have "pi_id (disk_inodes ! 3) \<noteq> 1" "pi_kind (disk_inodes ! 3) = File" "pi_blocks (disk_inodes ! 3) = [24]"
    "{f \<in> set disk_entries. pd_target f = pi_id (disk_inodes ! 3)} = {disk_entries ! 2}"
    "\<forall>f \<in> set disk_entries. pd_parent f \<noteq> pi_id (disk_inodes ! 3)"
    by (auto simp: disk_inodes_def disk_entries_def)
  ultimately have "unlink_legal disk_fs (allocator_with 2) (take 3 disk_inodes) (remove_at 2 disk_entries)"
    unfolding unlink_legal_def fs_with_simps
    by (intro conjI bexI [of _ "disk_inodes ! 3"] bexI [of _ "disk_entries ! 2"]) simp_all
  then show ?thesis
    using unlink_validation_exact [OF disk_superblock_ok populated_mounted allocator_with_inv [of 2],
        of "take 3 disk_inodes" "remove_at 2 disk_entries"]
    by (auto split: prod.splits)
qed

end
