(* ===== verification/FS_File_Laws.thy ===== *)
theory FS_File_Laws
  imports FS_File_Spec FS_Namespace_Laws
begin

text \<open>
  What the file operations do to the contents of files. Seen from the outside a regular file is
  a sequence of blocks, and the byte operations see the concatenation of these blocks. The lemmas
  say that on a consistent state every operation acts on the one file it names as the
  corresponding list operation, leaves all other files and the namespace alone, fails exactly
  when its arguments do not fit the file, and leads to a consistent state.
\<close>

section \<open>Byte ranges over equal blocks\<close>

lemma concat_split:
  assumes "q < length bs"
  shows "concat bs = concat (take q bs) @ bs ! q @ concat (drop (Suc q) bs)"
  using arg_cong [OF id_take_nth_drop [OF assms], of concat] by simp

lemma length_concat_blocks: "\<forall>b \<in> set bs. length b = n \<Longrightarrow> length (concat bs) = n * length bs"
  by (induction bs) auto

lemma subslice_concat:
  assumes "\<forall>b \<in> set bs. length b = n" and "q < length bs" and "a \<le> b" and "b \<le> n"
  shows "subslice (concat bs) (n * q + a) (n * q + b) = subslice (bs ! q) a b"
proof -
  have "length (concat (take q bs)) = n * q"
    using length_concat_blocks [of "take q bs" n] assms(1,2) by (auto dest: in_set_takeD)
  moreover have "length (bs ! q) = n" using assms(1,2) by simp
  ultimately show ?thesis using assms(3,4) by (simp add: concat_split [OF assms(2)] subslice_def)
qed

lemma copy_slice_concat:
  assumes "\<forall>b \<in> set bs. length b = n" and "q < length bs" and "a + length d \<le> n"
  shows "concat (bs[q := copy_slice (bs ! q) a d]) = copy_slice (concat bs) (n * q + a) d"
proof -
  have len: "length (concat (take q bs)) = n * q"
    using length_concat_blocks [of "take q bs" n] assms(1,2) by (auto dest: in_set_takeD)
  have n: "length (bs ! q) = n" using assms(1,2) by simp
  have "concat (bs[q := copy_slice (bs ! q) a d]) =
      concat (take q bs) @ copy_slice (bs ! q) a d @ concat (drop (Suc q) bs)"
    using assms(2) by (simp add: upd_conv_take_nth_drop)
  also have "\<dots> = copy_slice (concat bs) (n * q + a) d"
    using len n assms(3) by (simp add: concat_split [OF assms(2)] copy_slice_def)
  finally show ?thesis .
qed

lemma copy_slice_append:
  "off + length xs + length ys \<le> length zs \<Longrightarrow>
   copy_slice zs off (xs @ ys) = copy_slice (copy_slice zs off xs) (off + length xs) ys"
  by (simp add: copy_slice_def ac_simps)

lemma div_ceil_bounds:
  assumes "0 < a"
  shows "a \<le> div_ceil a 4096 * 4096" "div_ceil a 4096 * 4096 < a + 4096" "0 < div_ceil a 4096"
proof -
  define q r where "q = a div 4096" and "r = a mod 4096"
  have a: "a = q * 4096 + r" "r < 4096" unfolding q_def r_def by simp_all
  have "div_ceil a 4096 = q + (if r > 0 then 1 else 0)" unfolding div_ceil_def q_def r_def by simp
  then show "a \<le> div_ceil a 4096 * 4096" "div_ceil a 4096 * 4096 < a + 4096" "0 < div_ceil a 4096"
    using a assms by (auto split: if_splits)
qed

section \<open>Files\<close>

definition files :: "fs_state \<Rightarrow> u64 \<rightharpoonup> bytes list" where
  "files fs i =
     (case find_file (fs_inodes fs) i of
        Inl _ \<Rightarrow> None
      | Inr k \<Rightarrow> Some (map (fs_data fs) (pi_blocks (fs_inodes fs ! k))))"

definition contents :: "fs_state \<Rightarrow> u64 \<rightharpoonup> bytes" where
  "contents fs i = map_option concat (files fs i)"

lemma files_Some:
  "files fs i = Some bs \<longleftrightarrow>
   (\<exists>k. find_file (fs_inodes fs) i = Inr k \<and> bs = map (fs_data fs) (pi_blocks (fs_inodes fs ! k)))"
  by (auto simp: files_def split: sum.splits)

lemma find_file_Inl: "find_file xs i = Inl e \<Longrightarrow> e = InvalidInput"
  by (auto simp: find_file_def bindR_Inl_iff ok_or_def split: if_splits option.splits)

lemma files_None: "files fs i = None \<longleftrightarrow> find_file (fs_inodes fs) i = Inl InvalidInput"
  using find_file_Inl by (auto simp: files_def split: sum.splits)

lemma files_blocks:
  assumes "consistent fs" and "fs_typed sb fs" and "files fs i = Some bs"
  shows "\<forall>b \<in> set bs. length b = 4096" "length bs < 2 ^ 32"
proof -
  obtain k where k: "find_file (fs_inodes fs) i = Inr k" "bs = map (fs_data fs) (pi_blocks (fs_inodes fs ! k))"
    using assms(3) by (auto simp: files_Some)
  note own = batch_owned [OF assms(1,2) k(1)]
  have "length (fs_data fs b) = 4096" if "b \<in> set (data_region sb)" for b
    using assms(2) that unfolding fs_typed_def by blast
  then show "\<forall>b \<in> set bs. length b = 4096" using own(2) k(2) by auto
  have "inode_ok (fs_inodes fs ! k)"
    using assms(2) find_file_Inr(2) [OF k(1)] by (auto simp: fs_typed_def inode_fits_def list_all_iff)
  then show "length bs < 2 ^ 32" using k(2) by (simp add: inode_ok_def)
qed

lemma resolve_files:
  assumes "consistent fs" and "fs_typed sb fs"
  shows "file_block fs i j =
    (case files fs i of None \<Rightarrow> Inl InvalidInput | Some bs \<Rightarrow> if j < length bs then Inr (bs ! j) else Inl InvalidInput)"
proof (cases "find_file (fs_inodes fs) i")
  case (Inl e)
  then have "files fs i = None" by (simp add: files_def)
  then show ?thesis using Inl find_file_Inl [OF Inl] by (simp add: file_block_def resolve_block_def)
next
  case (Inr k)
  then have f: "files fs i = Some (map (fs_data fs) (pi_blocks (fs_inodes fs ! k)))" by (simp add: files_def)
  show ?thesis
    using batch_owned(1) [OF assms Inr] by (simp add: f file_block_def resolve_block_def Inr block_at_def)
qed

text \<open>Overwriting blocks of one file.\<close>

definition updates :: "'a list \<Rightarrow> (nat \<times> 'a) list \<Rightarrow> 'a list" where
  "updates bs ws = foldl (\<lambda>bs (j, x). bs[j := x]) bs ws"

lemma updates_simps [simp]:
  "updates bs [] = bs" "updates bs ((j, x) # ws) = updates (bs[j := x]) ws"
  "updates bs (ws @ [(j, x)]) = (updates bs ws)[j := x]"
  by (simp_all add: updates_def)

lemma length_updates [simp]: "length (updates bs ws) = length bs"
  by (induction ws arbitrary: bs) auto

lemma updates_other: "j \<notin> fst ` set ws \<Longrightarrow> updates bs ws ! j = bs ! j"
  by (induction ws arbitrary: bs) auto

lemma concat_position:
  assumes "distinct (concat (map f xs))" and "k < length xs" and "l < length xs"
    and "b \<in> set (f (xs ! k))" and "b \<in> set (f (xs ! l))"
  shows "k = l"
  using assms
proof (induction xs arbitrary: k l)
  case (Cons x xs)
  have "b \<in> set (concat (map f xs))" if "b \<in> set (f (xs ! m))" "m < length xs" for m using that by auto
  then show ?case using Cons by (cases k; cases l) auto
qed simp

lemma find_file_unique:
  assumes "find_file xs i = Inr k" and "find_file xs j = Inr k"
  shows "i = j"
  using find_file_Inr(3) [OF assms(1)] find_file_Inr(3) [OF assms(2)] by simp

text \<open>The files of a state, for given contents of the data blocks.\<close>

definition files_on :: "fs_state \<Rightarrow> (u64 \<Rightarrow> bytes) \<Rightarrow> u64 \<rightharpoonup> bytes list" where
  "files_on fs v i =
     (case find_file (fs_inodes fs) i of Inl _ \<Rightarrow> None | Inr k \<Rightarrow> Some (map v (pi_blocks (fs_inodes fs ! k))))"

lemma files_on: "files fs = files_on fs (fs_data fs)" "files (fs\<lparr>fs_data := v\<rparr>) = files_on fs v"
  by (auto simp: files_def files_on_def fun_eq_iff split: sum.splits)

lemma files_overwrite:
  assumes "consistent fs" and "find_file (fs_inodes fs) i = Inr k" and "j < length (pi_blocks (fs_inodes fs ! k))"
  shows "files_on fs (v(pi_blocks (fs_inodes fs ! k) ! j := img)) =
    (files_on fs v)(i \<mapsto> (map v (pi_blocks (fs_inodes fs ! k)))[j := img])"
proof
  fix l
  let ?x = "fs_inodes fs ! k" and ?v = "v(pi_blocks (fs_inodes fs ! k) ! j := img)"
  have dist: "distinct (concat (map pi_blocks (fs_inodes fs)))"
    using assms(1) by (simp add: consistent_def ownership_ok_def file_blocks_def)
  have "distinct (pi_blocks ?x)"
    using dist find_file_Inr(2) [OF assms(2)] by (auto simp: distinct_concat_iff)
  then have same: "map ?v (pi_blocks ?x) = (map v (pi_blocks ?x))[j := img]"
    using assms(3) by (auto intro!: nth_equalityI simp: nth_list_update nth_eq_iff_index_eq)
  have other: "map ?v (pi_blocks (fs_inodes fs ! m)) = map v (pi_blocks (fs_inodes fs ! m))"
    if "m < length (fs_inodes fs)" "m \<noteq> k" for m
    using concat_position [OF dist find_file_Inr(1) [OF assms(2)] that(1)] assms(3) that(2) by fastforce
  show "files_on fs ?v l = ((files_on fs v)(i \<mapsto> (map v (pi_blocks ?x))[j := img])) l"
  proof (cases "find_file (fs_inodes fs) l")
    case (Inl e)
    then show ?thesis using assms(2) by (auto simp: files_on_def)
  next
    case (Inr m)
    then have l: "files_on fs w l = Some (map w (pi_blocks (fs_inodes fs ! m)))" for w by (simp add: files_on_def)
    show ?thesis
    proof (cases "m = k")
      case True
      then have "l = i" using find_file_unique [OF assms(2)] Inr by simp
      then show ?thesis unfolding l True same by simp
    next
      case False
      then have "l \<noteq> i" using assms(2) Inr by auto
      then show ?thesis unfolding l other [OF find_file_Inr(1) [OF Inr] False] by (simp add: l)
    qed
  qed
qed

lemma files_updates:
  assumes "consistent fs" and "find_file (fs_inodes fs) i = Inr k"
    and "\<forall>(j, _) \<in> set ws. j < length (pi_blocks (fs_inodes fs ! k))"
  shows "files_on fs (apply_writes (batch_writes (fs_inodes fs ! k) ws) v id) =
    (files_on fs v)(i \<mapsto> updates (map v (pi_blocks (fs_inodes fs ! k))) ws)"
  using assms(3)
proof (induction ws arbitrary: v)
  case Nil
  have "files_on fs v i = Some (map v (pi_blocks (fs_inodes fs ! k)))" using assms(2) by (simp add: files_on_def)
  then show ?case by (simp add: batch_writes_def fun_upd_idem)
next
  case (Cons w ws)
  obtain j img where w: "w = (j, img)" by (cases w)
  let ?x = "fs_inodes fs ! k"
  have j: "j < length (pi_blocks ?x)" using Cons.prems by (simp add: w)
  obtain v1 where v1: "v1 = v(pi_blocks ?x ! j := img)" by blast
  have one: "files_on fs v1 = (files_on fs v)(i \<mapsto> (map v (pi_blocks ?x))[j := img])"
    unfolding v1 by (rule files_overwrite [OF assms(1,2) j])
  have "map v1 (pi_blocks ?x) = (map v (pi_blocks ?x))[j := img]"
    using fun_cong [OF one, of i] assms(2) by (simp add: files_on_def)
  moreover have "apply_writes (batch_writes ?x (w # ws)) v id = apply_writes (batch_writes ?x ws) v1 id"
    by (simp add: v1 w batch_writes_def)
  moreover have "files_on fs (apply_writes (batch_writes ?x ws) v1 id) = (files_on fs v1)(i \<mapsto> updates (map v1 (pi_blocks ?x)) ws)"
    by (rule Cons.IH) (use Cons.prems in simp)
  ultimately show ?case by (simp only: one w updates_simps fun_upd_upd)
qed

lemma apply_writes_changed:
  assumes "distinct (map fst ws)"
  shows "apply_writes (filter (\<lambda>(b, x). v b \<noteq> x) ws) v id = apply_writes ws v id"
proof
  fix b
  show "apply_writes (filter (\<lambda>(b, x). v b \<noteq> x) ws) v id b = apply_writes ws v id b"
  proof (cases "b \<in> fst ` set ws")
    case False
    then have "b \<notin> fst ` set (filter (\<lambda>(b, x). v b \<noteq> x) ws)" by auto
    then show ?thesis using False by (simp add: apply_writes_other)
  next
    case True
    then obtain x where x: "(b, x) \<in> set ws" by auto
    have new: "apply_writes ws v id b = x" using apply_writes_distinct [OF assms x, of v id] by simp
    show ?thesis
    proof (cases "v b = x")
      case True
      have "b \<notin> fst ` set (filter (\<lambda>(b, x). v b \<noteq> x) ws)"
        using eq_key_imp_eq_value [OF assms _ x] True by fastforce
      then show ?thesis using new True by (simp add: apply_writes_other)
    next
      case False
      then have "(b, x) \<in> set (filter (\<lambda>(b, x). v b \<noteq> x) ws)" using x by simp
      then have "apply_writes (filter (\<lambda>(b, x). v b \<noteq> x) ws) v id b = id x"
        by (rule apply_writes_distinct [OF distinct_map_filter [OF assms]])
      then show ?thesis unfolding new by simp
    qed
  qed
qed

section \<open>Overwriting\<close>

text \<open>The operation changes data blocks of one file and nothing else.\<close>

definition overwrites :: "fs_state \<Rightarrow> u64 \<Rightarrow> bytes list \<Rightarrow> (unit \<times> fs_state) res \<Rightarrow> bool" where
  "overwrites fs i bs r \<longleftrightarrow>
     (\<exists>v. r = Inr ((), fs\<lparr>fs_data := v\<rparr>) \<and> files (fs\<lparr>fs_data := v\<rparr>) = (files fs)(i \<mapsto> bs) \<and>
        (\<forall>b. v b \<noteq> fs_data fs b \<longrightarrow>
           (\<exists>k. find_file (fs_inodes fs) i = Inr k \<and> b \<in> set (pi_blocks (fs_inodes fs ! k)))))"

lemma write_blocks_law:
  assumes "consistent fs" and "fs_typed sb fs" and "ws \<noteq> []"
  shows "case files fs i of
      None \<Rightarrow> write_blocks_spec i ws fs = Inl InvalidInput
    | Some bs \<Rightarrow>
        if distinct (map fst ws) \<and> (\<forall>(j, _) \<in> set ws. j < length bs)
        then overwrites fs i (updates bs ws) (write_blocks_spec i ws fs)
        else write_blocks_spec i ws fs = Inl InvalidInput"
proof (cases "find_file (fs_inodes fs) i")
  case (Inl e)
  then have "files fs i = None" "find_file (fs_inodes fs) i = Inl InvalidInput"
    using find_file_Inl [OF Inl] by (simp_all add: files_def)
  then show ?thesis using assms(3) by (simp add: write_blocks_spec_def)
next
  case (Inr k)
  let ?x = "fs_inodes fs ! k" and ?ok = "distinct (map fst ws) \<and> (\<forall>(j, _) \<in> set ws. j < length (pi_blocks (fs_inodes fs ! k)))"
  note own = batch_owned [OF assms(1,2) Inr]
  have bs: "files fs i = Some (map (fs_data fs) (pi_blocks ?x))" using Inr by (simp add: files_def)
  have spec: "write_blocks_spec i ws fs = (if ?ok
      then put_data (filter (\<lambda>(b, img). fs_data fs b \<noteq> img) (batch_writes ?x ws)) fs else Inl InvalidInput)"
    using assms(3) by (simp add: write_blocks_spec_def Inr batch_steps [OF own(1)])
  show ?thesis
  proof (cases ?ok)
    case True
    let ?v = "apply_writes (batch_writes ?x ws) (fs_data fs) id"
    have "files (fs\<lparr>fs_data := ?v\<rparr>) = (files fs)(i \<mapsto> updates (map (fs_data fs) (pi_blocks ?x)) ws)"
      unfolding files_on(2) unfolding files_on(1) using files_updates [OF assms(1) Inr] True by blast
    moreover have "write_blocks_spec i ws fs = Inr ((), fs\<lparr>fs_data := ?v\<rparr>)"
      unfolding spec if_P [OF True] put_data_def
      by (subst apply_writes_changed [OF batch_distinct [OF own(3)]]) (use True in blast)+
    moreover have "b \<in> set (pi_blocks ?x)" if "?v b \<noteq> fs_data fs b" for b
    proof -
      have "b \<in> fst ` set (batch_writes ?x ws)" using that apply_writes_other by metis
      then show ?thesis using True by (auto simp: batch_writes_def)
    qed
    ultimately have "overwrites fs i (updates (map (fs_data fs) (pi_blocks ?x)) ws) (write_blocks_spec i ws fs)"
      unfolding overwrites_def using Inr by blast
    then show ?thesis using True by (simp add: bs)
  qed (auto simp: bs spec)
qed

lemma write_block_law:
  assumes "consistent fs" and "fs_typed sb fs"
  shows "case files fs i of
      None \<Rightarrow> write_block_spec i j img fs = Inl InvalidInput
    | Some bs \<Rightarrow> if j < length bs then overwrites fs i (bs[j := img]) (write_block_spec i j img fs)
        else write_block_spec i j img fs = Inl InvalidInput"
proof (cases "find_file (fs_inodes fs) i")
  case (Inl e)
  then show ?thesis using find_file_Inl [OF Inl] by (simp add: files_def write_block_spec_def resolve_block_def)
next
  case (Inr k)
  let ?x = "fs_inodes fs ! k"
  have bs: "files fs i = Some (map (fs_data fs) (pi_blocks ?x))" using Inr by (simp add: files_def)
  show ?thesis
  proof (cases "j < length (pi_blocks ?x)")
    case True
    let ?v = "(fs_data fs)(pi_blocks ?x ! j := img)"
    have "files (fs\<lparr>fs_data := ?v\<rparr>) = (files fs)(i \<mapsto> (map (fs_data fs) (pi_blocks ?x))[j := img])"
      unfolding files_on(2) unfolding files_on(1) by (rule files_overwrite [OF assms(1) Inr True])
    moreover have "write_block_spec i j img fs = Inr ((), fs\<lparr>fs_data := ?v\<rparr>)"
      using batch_owned(1) [OF assms Inr] True
      by (simp add: write_block_spec_def resolve_block_def Inr block_at_def put_data_def)
    moreover have "b \<in> set (pi_blocks ?x)" if "?v b \<noteq> fs_data fs b" for b
      using that True by (auto split: if_splits)
    ultimately have "overwrites fs i ((map (fs_data fs) (pi_blocks ?x))[j := img]) (write_block_spec i j img fs)"
      unfolding overwrites_def using Inr by blast
    then show ?thesis using True by (simp add: bs)
  qed (simp add: bs Inr write_block_spec_def resolve_block_def block_at_def)
qed

lemma write_block_range_law:
  assumes "consistent fs" and "fs_typed sb fs" and "data \<noteq> []" and "off + length data \<le> 4096"
  shows "case files fs i of
      None \<Rightarrow> write_block_range_spec i j off data fs = Inl InvalidInput
    | Some bs \<Rightarrow> if j < length bs
        then overwrites fs i (bs[j := copy_slice (bs ! j) off data]) (write_block_range_spec i j off data fs)
        else write_block_range_spec i j off data fs = Inl InvalidInput"
proof -
  have off: "\<not> (data = [] \<or> off \<ge> BLOCK_SIZE \<or> length data > BLOCK_SIZE - off)"
    using assms(3,4) by (cases data) (auto simp: BLOCK_SIZE_def)
  have eq: "write_block_range_spec i j off data fs = write_block_spec i j (copy_slice img off data) fs"
    if "file_block fs i j = Inr img \<or> is_ok (file_block fs i j) = False" for img
    using that off by (cases "resolve_block fs i j") (auto simp: write_block_range_spec_def write_block_spec_def file_block_def)
  show ?thesis
  proof (cases "files fs i")
    case None
    then have "file_block fs i j = Inl InvalidInput" using resolve_files [OF assms(1,2), of i j] by simp
    then show ?thesis using None eq [of "[]"] write_block_law [OF assms(1,2), of i j "copy_slice [] off data"]
      by simp
  next
    case (Some bs)
    let ?w = "copy_slice (bs ! j) off data"
    have "write_block_range_spec i j off data fs = write_block_spec i j ?w fs"
      by (rule eq) (use resolve_files [OF assms(1,2), of i j] Some in simp)
    then show ?thesis using Some write_block_law [OF assms(1,2), of i j ?w] by simp
  qed
qed

section \<open>Byte ranges\<close>

text \<open>
  A range that starts at byte \<open>off\<close> of block \<open>first\<close>: after \<open>k\<close> rounds \<open>range_done off len k\<close> of
  its bytes are done.
\<close>

definition range_done :: "nat \<Rightarrow> nat \<Rightarrow> nat \<Rightarrow> nat" where
  "range_done off len k = min len (k * 4096 - off)"

lemma range_done_step:
  assumes "a = (if k = 0 then off else 0)" and "off < 4096" and "k * 4096 < off + len"
  shows "range_done off len (Suc k) = range_done off len k + min (4096 - a) (len - range_done off len k)"
    and "4096 * (first + k) + a = 4096 * first + off + range_done off len k"
    and "range_done off len k \<le> len"
  using assms unfolding range_done_def by (auto simp: min_def)

lemma range_done_bounds:
  assumes "0 < len" and "off < 4096" and "n = div_ceil (off + len) 4096"
  shows "range_done off len n = len" and "k < n \<Longrightarrow> k * 4096 < off + len"
    and "first + n \<le> m \<longleftrightarrow> 4096 * first + off + len \<le> 4096 * m" and "0 < n"
proof -
  note b = div_ceil_bounds [of "off + len"]
  show "range_done off len n = len" "k < n \<Longrightarrow> k * 4096 < off + len" "0 < n"
    using b assms by (auto simp: range_done_def)
  show "first + n \<le> m \<longleftrightarrow> 4096 * first + off + len \<le> 4096 * m"
  proof
    assume "first + n \<le> m"
    then have "(first + n) * 4096 \<le> m * 4096" by (rule mult_le_mono1)
    then show "4096 * first + off + len \<le> 4096 * m" using b(1) assms by (simp add: algebra_simps)
  next
    assume le: "4096 * first + off + len \<le> 4096 * m"
    show "first + n \<le> m"
    proof (rule ccontr)
      assume "\<not> first + n \<le> m"
      then have "(m + 1) * 4096 \<le> (first + n) * 4096" by (intro mult_le_mono1) simp
      then show False using b(2) assms le by (simp add: algebra_simps)
    qed
  qed
qed

lemma usize_add_file: "first + k < n \<Longrightarrow> n < 2 ^ 32 \<Longrightarrow> usize_add first k = Some (first + k)"
  by (simp add: usize_add_def)

lemma read_range_fold:
  assumes "consistent fs" and "fs_typed sb fs" and "files fs i = Some bs" and "off < 4096"
    and "first + n \<le> length bs" and "\<forall>k < n. k * 4096 < off + len" and "k \<le> n"
  shows "iterR (read_range_step fs i first off) [0..<k] ([], len) =
    Inr (subslice (concat bs) (4096 * first + off) (4096 * first + off + range_done off len k), len - range_done off len k)"
  using assms(7)
proof (induction k)
  case 0
  then show ?case by (simp add: range_done_def subslice_def)
next
  case (Suc k)
  note bs = files_blocks [OF assms(1-3)]
  let ?s = "4096 * first + off" and ?d = "range_done off len k" and ?d' = "range_done off len (Suc k)"
  obtain a t where a: "a = (if k = 0 then off else 0)" and t: "t = min (4096 - a) (len - ?d)" by blast
  have k: "k < n" using Suc.prems by simp
  then have lt: "k * 4096 < off + len" using assms(6) by blast
  note st = range_done_step [OF a assms(4) lt, folded t]
  have q: "first + k < length bs" using assms(5) k by simp
  have blk: "file_block fs i (first + k) = Inr (bs ! (first + k))"
    using resolve_files [OF assms(1,2), of i] assms(3) q by simp
  have "subslice (concat bs) (4096 * (first + k) + a) (4096 * (first + k) + (a + t)) = subslice (bs ! (first + k)) a (a + t)"
    by (rule subslice_concat [OF bs(1) q]) (use a t assms(4) in \<open>auto simp: min_def\<close>)
  moreover have "4096 * (first + k) + (a + t) = ?s + ?d'" using st(1) st(2) [of first] by simp
  ultimately have sub: "subslice (bs ! (first + k)) a (a + t) = subslice (concat bs) (?s + ?d) (?s + ?d')"
    by (simp only: st(2) [of first])
  have "read_range_step fs i first off k (out, len - ?d) =
      Inr (out @ subslice (bs ! (first + k)) a (a + t), len - ?d - t)" for out
    using usize_add_file [OF q bs(2)] by (simp add: read_range_step_def blk Let_def BLOCK_SIZE_def a t)
  then show ?case
    using Suc st(1) slice_split [of ?s "?s + ?d" "?s + ?d'" "concat bs"] unfolding sub by (simp add: iterR_append)
qed

lemma iterR_fails:
  assumes "iterR f [0..<m] s = Inr s'" and "f m s' = Inl e" and "m < n"
  shows "iterR f [0..<n] s = Inl e"
proof -
  have "[0..<n] = [0..<m] @ m # [Suc m..<n]" using assms(3) upt_add_eq_append [of 0 m "n - m"] upt_conv_Cons [of m n] by simp
  then show ?thesis using assms(1,2) by (simp add: iterR_append)
qed

lemma past_end:
  assumes "consistent fs" and "fs_typed sb fs" and "files fs i = Some bs" and "length bs \<le> first + k"
  shows "bindR (ok_or InvalidInput (usize_add first k)) (\<lambda>j. bindR (file_block fs i j) (g j)) = Inl InvalidInput"
  using assms resolve_files [OF assms(1,2), of i "first + k"] by (simp add: usize_add_def)

lemma read_range_law:
  assumes "consistent fs" and "fs_typed sb fs" and "0 < len" and "off < 4096" and "off + len < 2 ^ 64"
  shows "read_range_spec i first off len fs =
    (case contents fs i of
       None \<Rightarrow> Inl InvalidInput
     | Some c \<Rightarrow>
         if 4096 * first + off + len \<le> length c
         then Inr (subslice c (4096 * first + off) (4096 * first + off + len)) else Inl InvalidInput)"
proof -
  obtain n where n: "n = div_ceil (off + len) 4096" by blast
  note b = range_done_bounds [OF assms(3,4) n]
  have "off + len < 18446744073709551616" using assms(5) by simp
  then have spec: "read_range_spec i first off len fs =
      bindR (iterR (read_range_step fs i first off) [0..<n] ([], len)) (\<lambda>(out, _). Inr out)"
    using assms(3,4) by (simp add: read_range_spec_def usize_add_def BLOCK_SIZE_def n)
  show ?thesis
  proof (cases "files fs i")
    case None
    have "file_block fs i j = Inl InvalidInput" for j using resolve_files [OF assms(1,2)] None by simp
    then have "read_range_step fs i first off 0 s = Inl InvalidInput" for s
      by (cases s) (simp add: read_range_step_def usize_add_def)
    then show ?thesis
      using iterR_fails [of "read_range_step fs i first off" 0 "([], len)" _ _ n] b(4) None
      by (simp add: spec contents_def)
  next
    case (Some bs)
    have len: "length (concat bs) = 4096 * length bs"
      using length_concat_blocks files_blocks(1) [OF assms(1,2) Some] by blast
    show ?thesis
    proof (cases "first + n \<le> length bs")
      case True
      then show ?thesis
        using read_range_fold [OF assms(1,2) Some assms(4) True, of len n] b Some len
        by (simp add: spec contents_def)
    next
      case False
      let ?m = "length bs - first"
      have m: "first + ?m \<le> length bs \<or> ?m = 0" "?m < n" "length bs \<le> first + ?m"
        using False b(4) by auto
      obtain s where "iterR (read_range_step fs i first off) [0..<?m] ([], len) = Inr s"
        using read_range_fold [OF assms(1,2) Some assms(4), of first ?m len ?m] b(2) m by (cases "?m = 0") auto
      moreover have "read_range_step fs i first off ?m s = Inl InvalidInput"
        unfolding read_range_step_def case_prod_beta by (rule past_end [OF assms(1,2) Some m(3)])
      ultimately have "iterR (read_range_step fs i first off) [0..<n] ([], len) = Inl InvalidInput"
        by (rule iterR_fails [OF _ _ m(2)])
      then show ?thesis
        using False b(3) [of first "length bs"] Some len by (simp add: spec contents_def)
    qed
  qed
qed

lemma write_range_fold:
  assumes "consistent fs" and "fs_typed sb fs" and "files fs i = Some bs" and "off < 4096"
    and "first + n \<le> length bs" and "\<forall>k < n. k * 4096 < off + length data" and "k \<le> n"
  shows "\<exists>ws. iterR (write_range_step fs i first off data) [0..<k] (0, []) = Inr (range_done off (length data) k, ws) \<and>
    map fst ws = [first..<first + k] \<and>
    concat (updates bs ws) = copy_slice (concat bs) (4096 * first + off) (take (range_done off (length data) k) data) \<and>
    (\<forall>b \<in> set (updates bs ws). length b = 4096)"
  using assms(7)
proof (induction k)
  case 0
  then show ?case using files_blocks(1) [OF assms(1-3)] by (simp add: range_done_def copy_slice_def)
next
  case (Suc k)
  note bs = files_blocks [OF assms(1-3)]
  let ?s = "4096 * first + off" and ?d = "range_done off (length data) k"
    and ?d' = "range_done off (length data) (Suc k)"
  obtain ws where ws: "iterR (write_range_step fs i first off data) [0..<k] (0, []) = Inr (?d, ws)"
    "map fst ws = [first..<first + k]" "concat (updates bs ws) = copy_slice (concat bs) ?s (take ?d data)"
    "\<forall>b \<in> set (updates bs ws). length b = 4096"
    using Suc by auto
  obtain a t where a: "a = (if k = 0 then off else 0)" and t: "t = min (4096 - a) (length data - ?d)" by blast
  have k: "k < n" using Suc.prems by simp
  then have lt: "k * 4096 < off + length data" using assms(6) by blast
  note st = range_done_step [OF a assms(4) lt, folded t]
  have q: "first + k < length bs" using assms(5) k by simp
  have blk: "file_block fs i (first + k) = Inr (bs ! (first + k))"
    using resolve_files [OF assms(1,2), of i] assms(3) q by simp
  let ?p = "subslice data ?d ?d'"
  have p: "length ?p = t" "a + t \<le> 4096" "take ?d' data = take ?d data @ ?p"
    using st(1,3) a assms(4) unfolding t by (auto simp: subslice_def take_add min_def)
  have "fst ` set ws = {first..<first + k}" using arg_cong [OF ws(2), of set] by simp
  then have old: "updates bs ws ! (first + k) = bs ! (first + k)" by (intro updates_other) simp
  let ?img = "copy_slice (bs ! (first + k)) a ?p"
  have "concat (updates bs (ws @ [(first + k, ?img)])) = copy_slice (concat (updates bs ws)) (4096 * (first + k) + a) ?p"
    using copy_slice_concat [OF ws(4), of "first + k" a ?p] q p by (simp add: old)
  also have "\<dots> = copy_slice (copy_slice (concat bs) ?s (take ?d data)) (?s + length (take ?d data)) ?p"
    using st(3) unfolding ws(3) st(2) [of first] by simp
  also have "\<dots> = copy_slice (concat bs) ?s (take ?d' data)"
  proof -
    have "4096 * (first + k + 1) \<le> 4096 * length bs" using q by (intro mult_le_mono2) simp
    then have "?s + length (take ?d data) + length ?p \<le> length (concat bs)"
      using p(1,2) st(2) [of first] st(3) length_concat_blocks [OF bs(1)] by simp
    then show ?thesis unfolding p(3) by (rule copy_slice_append [symmetric])
  qed
  finally have "concat (updates bs (ws @ [(first + k, ?img)])) = copy_slice (concat bs) ?s (take ?d' data)" .
  moreover have "write_range_step fs i first off data k (?d, ws) = Inr (?d', ws @ [(first + k, ?img)])"
    using usize_add_file [OF q bs(2)] st(1) by (simp add: write_range_step_def blk Let_def BLOCK_SIZE_def a t)
  then have "iterR (write_range_step fs i first off data) [0..<Suc k] (0, []) = Inr (?d', ws @ [(first + k, ?img)])"
    using ws(1) by (simp add: iterR_append)
  moreover have "length ?img = 4096" using bs(1) q p by (simp add: copy_slice_def)
  then have "\<forall>b \<in> set (updates bs (ws @ [(first + k, ?img)])). length b = 4096"
    unfolding updates_simps using ws(4) set_update_subset_insert [of "updates bs ws" "first + k" ?img] by blast
  moreover have "map fst (ws @ [(first + k, ?img)]) = [first..<first + Suc k]" using ws(2) by simp
  ultimately show ?case by blast
qed

lemma write_range_law:
  assumes "consistent fs" and "fs_typed sb fs" and "data \<noteq> []" and "off < 4096" and "off + length data < 2 ^ 64"
  shows "case files fs i of
      None \<Rightarrow> write_range_spec i first off data fs = Inl InvalidInput
    | Some bs \<Rightarrow>
        if 4096 * first + off + length data \<le> 4096 * length bs
        then \<exists>bs'. overwrites fs i bs' (write_range_spec i first off data fs) \<and> length bs' = length bs \<and>
          (\<forall>b \<in> set bs'. length b = 4096) \<and> concat bs' = copy_slice (concat bs) (4096 * first + off) data
        else write_range_spec i first off data fs = Inl InvalidInput"
proof -
  obtain n where n: "n = div_ceil (off + length data) 4096" by blast
  have "0 < length data" using assms(3) by simp
  note b = range_done_bounds [OF this assms(4) n]
  have "off + length data < 18446744073709551616" using assms(5) by simp
  then have spec: "write_range_spec i first off data fs =
      bindR (iterR (write_range_step fs i first off data) [0..<n] (0, [])) (\<lambda>(_, ws). write_blocks_spec i ws fs)"
    using assms(3,4) by (simp add: write_range_spec_def usize_add_def BLOCK_SIZE_def n)
  show ?thesis
  proof (cases "files fs i")
    case None
    have "file_block fs i j = Inl InvalidInput" for j using resolve_files [OF assms(1,2)] None by simp
    then have "write_range_step fs i first off data 0 s = Inl InvalidInput" for s
      by (cases s) (simp add: write_range_step_def usize_add_def)
    then show ?thesis
      using iterR_fails [of "write_range_step fs i first off data" 0 "(0, [])" _ _ n] b(4) None by (simp add: spec)
  next
    case (Some bs)
    note fold = write_range_fold [OF assms(1,2) Some assms(4)]
    show ?thesis
    proof (cases "first + n \<le> length bs")
      case True
      obtain ws where ws: "iterR (write_range_step fs i first off data) [0..<n] (0, []) = Inr (length data, ws)"
        "map fst ws = [first..<first + n]" "concat (updates bs ws) = copy_slice (concat bs) (4096 * first + off) data"
        "\<forall>b \<in> set (updates bs ws). length b = 4096"
        using fold [OF True, of data n] b(1,2) by auto
      have j: "fst ` set ws = {first..<first + n}" using arg_cong [OF ws(2), of set] by simp
      then have "ws \<noteq> []" "distinct (map fst ws)" using ws(2) b(4) by auto
      moreover have "j < length bs" if "(j, x) \<in> set ws" for j x
        using imageI [OF that, of fst] True unfolding j by simp
      ultimately have "overwrites fs i (updates bs ws) (write_range_spec i first off data fs)"
        using write_blocks_law [OF assms(1,2), of ws i] Some by (auto simp: spec ws(1) split: if_splits)
      then have "\<exists>bs'. overwrites fs i bs' (write_range_spec i first off data fs) \<and> length bs' = length bs \<and>
          (\<forall>b \<in> set bs'. length b = 4096) \<and> concat bs' = copy_slice (concat bs) (4096 * first + off) data"
        using ws(3,4) length_updates by blast
      then show ?thesis using True b(3) Some by simp
    next
      case False
      let ?m = "length bs - first"
      have m: "first + ?m \<le> length bs \<or> ?m = 0" "?m < n" "length bs \<le> first + ?m"
        using False b(4) by auto
      obtain s where "iterR (write_range_step fs i first off data) [0..<?m] (0, []) = Inr s"
        using fold [of first ?m data ?m] b(2) m by (cases "?m = 0") auto
      moreover have "write_range_step fs i first off data ?m s = Inl InvalidInput"
        unfolding write_range_step_def case_prod_beta by (rule past_end [OF assms(1,2) Some m(3)])
      ultimately have "iterR (write_range_step fs i first off data) [0..<n] (0, []) = Inl InvalidInput"
        by (rule iterR_fails [OF _ _ m(2)])
      then show ?thesis using False b(3) [of first "length bs"] Some by (simp add: spec)
    qed
  qed
qed

section \<open>Growing and shrinking\<close>

text \<open>
  One file gets a new list of blocks, which may keep blocks of its own and take blocks nobody
  owns. Blocks of other files keep their owner and their contents.
\<close>

lemma set_blocks_simps:
  "map pi_id (set_blocks xs k bs) = map pi_id xs" "map pi_kind (set_blocks xs k bs) = map pi_kind xs"
  "length (set_blocks xs k bs) = length xs"
  by (simp_all add: set_blocks_def map_update list_update_same_conv)
    (metis list_update_beyond list_update_id list_update_same_conv map_update nth_map not_le)+

lemma set_blocks_other: "j \<noteq> k \<Longrightarrow> set_blocks xs k bs ! j = xs ! j"
  by (simp add: set_blocks_def)

lemma set_blocks_same: "k < length xs \<Longrightarrow> pi_blocks (set_blocks xs k bs ! k) = bs"
  by (simp add: set_blocks_def)

lemma find_file_cong:
  assumes "map pi_id ys = map pi_id xs" and "map pi_kind ys = map pi_kind xs"
  shows "find_file ys i = find_file xs i"
proof -
  have pos: "position (\<lambda>x. pi_id x = i) zs = position (\<lambda>x. x = i) (map pi_id zs)" for zs by (induction zs) auto
  have "position (\<lambda>x. pi_id x = i) ys = position (\<lambda>x. pi_id x = i) xs" unfolding pos assms(1) ..
  moreover have "pi_kind (ys ! k) = pi_kind (xs ! k)" if "k < length xs" for k
    using that assms(2) map_eq_imp_length_eq [OF assms(2)] by (metis nth_map)
  ultimately show ?thesis
    by (auto simp: find_file_def ok_or_def position_Some_iff split: option.splits)
qed

lemma namespace_ok_cong:
  assumes "map pi_id ys = map pi_id xs" and "map pi_kind ys = map pi_kind xs"
  shows "namespace_ok ys es = namespace_ok xs es"
proof -
  have "(\<exists>y \<in> set ys. pi_id y = i \<and> pi_kind y = c) = (\<exists>x \<in> set xs. pi_id x = i \<and> pi_kind x = c)" for i c
    unfolding in_set_conv_nth Bex_def using assms map_eq_imp_length_eq [OF assms(1)]
    by (metis nth_map)
  moreover have "pi_id ` set ys = pi_id ` set xs" using arg_cong [OF assms(1), of set] by simp
  moreover have "(\<exists>z \<in> set zs. pi_id z = i) = (i \<in> pi_id ` set zs)" for i and zs :: "persisted_inode list" by auto
  moreover have "ys = [] \<longleftrightarrow> xs = []" using assms(1) by auto
  ultimately show ?thesis by (simp add: namespace_ok_sets resolve_def has_directory_def)
qed

lemma resized:
  assumes "consistent fs" and "fs_typed sb fs" and "find_file (fs_inodes fs) i = Inr k" and "distinct bs"
    and "set bs \<inter> owned (fs_alloc fs) \<subseteq> set (pi_blocks (fs_inodes fs ! k))"
    and "owned (fs_alloc fs) - set (pi_blocks (fs_inodes fs ! k)) \<union> set bs \<subseteq> owned a"
    and "\<forall>b \<in> owned (fs_alloc fs) - set bs. v b = fs_data fs b"
    and "fs' = fs\<lparr>fs_alloc := a, fs_inodes := set_blocks (fs_inodes fs) k bs, fs_data := v\<rparr>"
  shows "consistent fs'" and "files fs' = (files fs)(i \<mapsto> map v bs)" and "names fs' = names fs"
proof -
  let ?xs = "fs_inodes fs" and ?ys = "set_blocks (fs_inodes fs) k bs"
  let ?x = "?xs ! k" and ?y = "(?xs ! k)\<lparr>pi_blocks := bs\<rparr>"
  note k = find_file_Inr [OF assms(3)] and typed = typed_tables [OF assms(2)]
  have own: "set (pi_blocks z) \<subseteq> owned (fs_alloc fs)" if "z \<in> set ?xs" for z
    using consistent_blocks [OF assms(1) that] .
  have sep: "set (pi_blocks z) \<inter> set (pi_blocks ?x) = {}" if "z \<in> set ?xs" "z \<noteq> ?x" for z
    using assms(1) that k(2) unfolding consistent_def ownership_ok_sets [OF typed(3)] unshared_def by blast
  have ys: "set ?ys = insert ?y (set ?xs - {?x})"
    unfolding set_blocks_def using typed(3) k(1) by (rule set_update_distinct)
  have dist: "distinct ?ys" using typed(2) by (metis distinct_map set_blocks_simps(1))
  have "distinct (pi_blocks z) \<and> set (pi_blocks z) \<subseteq> owned a" if "z \<in> set ?xs - {?x}" for z
    using that own [of z] sep [of z] assms(1,6) unfolding consistent_def ownership_ok_sets [OF typed(3)] by blast
  moreover have "unshared (insert ?y (set ?xs - {?x}))"
  proof -
    have "unshared (set ?xs)" using assms(1) unfolding consistent_def ownership_ok_sets [OF typed(3)] by blast
    moreover have "b \<notin> set bs" if "z \<in> set ?xs" "z \<noteq> ?x" "b \<in> set (pi_blocks z)" for z b
      using that own [of z] sep [of z] assms(5) by blast
    ultimately show ?thesis unfolding unshared_def by auto
  qed
  ultimately have "ownership_ok a ?ys" unfolding ownership_ok_sets [OF dist] ys using assms(4,6) by auto
  then show "consistent fs'"
    using assms(1) namespace_ok_cong [OF set_blocks_simps(1,2)] unfolding assms(8) consistent_def by simp
  show "files fs' = (files fs)(i \<mapsto> map v bs)"
  proof
    fix l
    note same = find_file_cong [OF set_blocks_simps(1,2)]
    show "files fs' l = ((files fs)(i \<mapsto> map v bs)) l"
    proof (cases "find_file ?xs l")
      case (Inl e)
      then show ?thesis using assms(3) by (auto simp: files_def assms(8) same)
    next
      case (Inr m)
      note m = find_file_Inr [OF Inr]
      show ?thesis
      proof (cases "m = k")
        case True
        then have "l = i" using m(3) k(3) by simp
        then show ?thesis using Inr k(1) True by (simp add: files_def assms(8) same set_blocks_same)
      next
        case False
        then have "l \<noteq> i" "?xs ! m \<noteq> ?x" using Inr assms(3) typed(3) m(1) k(1) by (auto simp: nth_eq_iff_index_eq)
        then have "\<forall>b \<in> set (pi_blocks (?xs ! m)). v b = fs_data fs b"
          using own [OF m(2)] sep [OF m(2)] assms(5,7) by blast
        then show ?thesis using Inr \<open>l \<noteq> i\<close> False by (simp add: files_def assms(8) same set_blocks_other)
      qed
    qed
  qed
  show "names fs' = names fs" by (simp add: names_def assms(8))
qed

lemma put_grown_iff:
  assumes "sb_ok sb" and "alloc_inv a"
  shows "put_grown sb a xs new fs = Inr (u, fs') \<longleftrightarrow>
    alloc_fits sb a \<and> inode_fits sb xs \<and>
    fs' = fs\<lparr>fs_alloc := a, fs_inodes := xs, fs_data := apply_writes new (fs_data fs) id\<rparr>"
  unfolding encode_allocator_fits [OF assms, symmetric] inode_encode_fits [OF assms(1), symmetric]
  by (auto simp: put_grown_def bindR_Inr_iff is_ok_iff)

text \<open>Fresh blocks with their data come into a file after its first \<open>at\<close> blocks.\<close>

lemma grown:
  assumes "sb_ok sb" and "consistent fs" and "fs_typed sb fs" and "find_file (fs_inodes fs) i = Inr k"
    and "alloc_inv a" and "owned a = owned (fs_alloc fs) \<union> set new" and "set new \<inter> owned (fs_alloc fs) = {}"
    and "distinct new" and "length new = length datas"
    and "put_grown sb a (set_blocks (fs_inodes fs) k
      (take at (pi_blocks (fs_inodes fs ! k)) @ new @ drop at (pi_blocks (fs_inodes fs ! k)))) (zip new datas) fs = Inr (u, fs')"
  shows "consistent fs' \<and> names fs' = names fs \<and>
    (\<exists>bs. files fs i = Some bs \<and> files fs' = (files fs)(i \<mapsto> take at bs @ datas @ drop at bs))"
proof -
  let ?old = "pi_blocks (fs_inodes fs ! k)" and ?v = "apply_writes (zip new datas) (fs_data fs) id"
  let ?bs = "take at ?old @ new @ drop at ?old"
  have fs': "fs' = fs\<lparr>fs_alloc := a, fs_inodes := set_blocks (fs_inodes fs) k ?bs, fs_data := ?v\<rparr>"
    using assms(10) by (simp add: put_grown_iff [OF assms(1,5)])
  have old: "set ?old \<subseteq> owned (fs_alloc fs)" "distinct ?old"
    using consistent_blocks [OF assms(2) find_file_Inr(2) [OF assms(4)]] batch_owned(3) [OF assms(2-4)] by auto
  have td: "set (take at ?old) \<union> set (drop at ?old) = set ?old" "set (take at ?old) \<inter> set (drop at ?old) = {}"
    using old(2) set_take_disj_set_drop_if_distinct [of ?old at at] by (metis append_take_drop_id set_append, simp)
  then have set: "set ?bs = set ?old \<union> set new" by auto
  have dist: "distinct ?bs" using old assms(7,8) td by auto
  have keep: "?v b = fs_data fs b" if "b \<notin> set new" for b
    using that by (intro apply_writes_other) (auto dest: set_zip_leftD)
  have "map ?v new = datas"
  proof (rule nth_equalityI)
    fix j assume "j < length (map ?v new)"
    then have "(new ! j, datas ! j) \<in> set (zip new datas)" using assms(9) by (auto simp: set_zip)
    then show "map ?v new ! j = datas ! j"
      using apply_writes_distinct [of "zip new datas" "new ! j" "datas ! j" "fs_data fs" id] assms(8,9) \<open>j < _\<close> by simp
  qed (simp add: assms(9))
  moreover have "map ?v (take at ?old) = map (fs_data fs) (take at ?old)" "map ?v (drop at ?old) = map (fs_data fs) (drop at ?old)"
    using td old(1) assms(7) by (auto intro!: keep)
  ultimately have v: "map ?v ?bs = take at (map (fs_data fs) ?old) @ datas @ drop at (map (fs_data fs) ?old)"
    by (simp add: take_map drop_map)
  have "set ?bs \<inter> owned (fs_alloc fs) \<subseteq> set ?old" "owned (fs_alloc fs) - set ?old \<union> set ?bs \<subseteq> owned a"
    "\<forall>b \<in> owned (fs_alloc fs) - set ?bs. ?v b = fs_data fs b"
    using set assms(6,7) old(1) keep by blast+
  note resized [OF assms(2-4) dist this fs']
  then show ?thesis using assms(4) unfolding v by (auto simp: files_def)
qed

lemma append_law:
  assumes "sb_ok sb" and "consistent fs" and "fs_typed sb fs" and "append_spec sb i data fs = Inr (b, fs')"
  shows "consistent fs' \<and> names fs' = names fs \<and>
    (\<exists>bs. files fs i = Some bs \<and> files fs' = (files fs)(i \<mapsto> bs @ [data]))"
proof -
  obtain k a where k: "find_file (fs_inodes fs) i = Inr k" "allocate_block (fs_alloc fs) = Inr (b, a)"
    "put_grown sb a (set_blocks (fs_inodes fs) k (pi_blocks (fs_inodes fs ! k) @ [b])) [(b, data)] fs = Inr ((), fs')"
    using assms(4) by (auto simp: append_spec_def bindR_Inr_iff)
  note a = allocate_block_Inr [OF typed_tables(1) [OF assms(3)] k(2)]
  show ?thesis
    using grown [OF assms(1-3) k(1) a(3), of "[b]" "[data]" "length (pi_blocks (fs_inodes fs ! k))"] a k
    by (auto simp: files_def)
qed

lemma append_blocks_law:
  assumes "sb_ok sb" and "consistent fs" and "fs_typed sb fs" and "append_blocks_spec sb i datas fs = Inr (new, fs')"
  shows "consistent fs' \<and> names fs' = names fs \<and>
    (\<exists>bs. files fs i = Some bs \<and> files fs' = (files fs)(i \<mapsto> bs @ datas))"
proof -
  obtain k a where k: "find_file (fs_inodes fs) i = Inr k" "iterR allocate_round datas (fs_alloc fs, []) = Inr (a, new)"
    "put_grown sb a (set_blocks (fs_inodes fs) k (pi_blocks (fs_inodes fs ! k) @ new)) (zip new datas) fs = Inr ((), fs')"
    using assms(4) by (auto simp: append_blocks_spec_def bindR_Inr_iff split: if_splits)
  have a: "length new = length datas" "distinct new" "set new \<inter> owned (fs_alloc fs) = {}"
    "owned a = owned (fs_alloc fs) \<union> set new" "alloc_inv a"
    using allocate_rounds [OF typed_tables(1) [OF assms(3)] k(2)] by auto
  show ?thesis
    using grown [OF assms(1-3) k(1) a(5,4,3,2,1), of "length (pi_blocks (fs_inodes fs ! k))"] k
    by (auto simp: files_def)
qed

lemma insert_law:
  assumes "sb_ok sb" and "consistent fs" and "fs_typed sb fs" and "insert_spec sb i at data fs = Inr (b, fs')"
  shows "consistent fs' \<and> names fs' = names fs \<and>
    (\<exists>bs. files fs i = Some bs \<and> at \<le> length bs \<and> files fs' = (files fs)(i \<mapsto> insert_at at data bs))"
proof -
  obtain k a where k: "find_file (fs_inodes fs) i = Inr k" "\<not> length (pi_blocks (fs_inodes fs ! k)) < at"
    "allocate_block (fs_alloc fs) = Inr (b, a)"
    "put_grown sb a (set_blocks (fs_inodes fs) k (insert_at at b (pi_blocks (fs_inodes fs ! k)))) [(b, data)] fs = Inr ((), fs')"
    using assms(4) by (auto simp: insert_spec_def bindR_Inr_iff split: if_splits)
  note a = allocate_block_Inr [OF typed_tables(1) [OF assms(3)] k(3)]
  show ?thesis
    using grown [OF assms(1-3) k(1) a(3), of "[b]" "[data]" at] a k by (auto simp: files_def insert_at_def)
qed

lemma inode_fits_shrink:
  assumes "inode_fits sb xs" and "k < length xs" and "distinct bs" and "length bs \<le> length (pi_blocks (xs ! k))"
  shows "inode_fits sb (set_blocks xs k bs)"
proof -
  let ?x = "xs ! k" and ?y = "(xs ! k)\<lparr>pi_blocks := bs\<rparr>"
  have len: "length (concat (map inode_record ys)) = sum_list (map (\<lambda>x. 32 + 8 * length (pi_blocks x)) ys)" for ys
    by (induction ys) (simp_all add: length_inode_record)
  have "length (concat (map inode_record (set_blocks xs k bs))) \<le> length (concat (map inode_record xs))"
    unfolding len unfolding set_blocks_def map_update
    using assms(2,4) elem_le_sum_list [of k "map (\<lambda>x. 32 + 8 * length (pi_blocks x)) xs"]
    by (simp add: sum_list_update)
  moreover have "list_all inode_ok (set_blocks xs k bs)"
  proof -
    have "inode_ok ?x" "list_all inode_ok xs" using assms(1,2) by (auto simp: inode_fits_def list_all_length)
    then show ?thesis using assms(2-4) by (auto simp: set_blocks_def list_all_length nth_list_update inode_ok_def)
  qed
  ultimately show ?thesis using assms(1) by (simp add: inode_fits_def set_blocks_simps)
qed

lemma shrink_law:
  assumes "sb_ok sb" and "consistent fs" and "fs_typed sb fs" and "find_file (fs_inodes fs) i = Inr k"
  shows "\<exists>fs' bs. shrink_spec sb k n fs = Inr ((), fs') \<and> consistent fs' \<and> names fs' = names fs \<and>
    files fs i = Some bs \<and> files fs' = (files fs)(i \<mapsto> take n bs) \<and>
    owned (fs_alloc fs') = owned (fs_alloc fs) - set (drop n (pi_blocks (fs_inodes fs ! k)))"
proof -
  let ?old = "pi_blocks (fs_inodes fs ! k)"
  have old: "set ?old \<subseteq> owned (fs_alloc fs)" "distinct ?old"
    using consistent_blocks [OF assms(2) find_file_Inr(2) [OF assms(4)]] batch_owned(3) [OF assms(2-4)] by auto
  have dist: "distinct (take n ?old)" "distinct (drop n ?old)" using old(2) by simp_all
  have "set (drop n ?old) \<subseteq> owned (fs_alloc fs)" using old(1) set_drop_subset by fastforce
  then obtain a where a: "release_blocks InvalidData (fs_alloc fs) (drop n ?old) = Inr a"
    using release_blocks_ok [OF typed_tables(1) [OF assms(3)] _ dist(2)] by blast
  then have ai: "alloc_inv a" "same_geometry (fs_alloc fs) a" "owned a = owned (fs_alloc fs) - set (drop n ?old)"
    using release_blocks_Inr [OF typed_tables(1) [OF assms(3)] a] by auto
  let ?fs = "fs\<lparr>fs_alloc := a, fs_inodes := set_blocks (fs_inodes fs) k (take n ?old), fs_entries := fs_entries fs\<rparr>"
  have "alloc_fits sb a" "inode_fits sb (set_blocks (fs_inodes fs) k (take n ?old))" "directory_fits sb (fs_entries fs)"
    using assms(3) ai(2) inode_fits_shrink [OF _ find_file_Inr(1) [OF assms(4)] dist(1)]
    by (auto simp: fs_typed_def alloc_fits_def)
  then have "shrink_spec sb k n fs = Inr ((), ?fs)"
    by (simp add: shrink_spec_def a put_tables_iff [OF assms(1) ai(1)])
  moreover have "set (take n ?old) \<union> set (drop n ?old) = set ?old" "set (take n ?old) \<inter> set (drop n ?old) = {}"
    using old(2) set_take_disj_set_drop_if_distinct [of ?old n n] by (metis append_take_drop_id set_append, simp)
  then have own: "set (take n ?old) \<inter> owned (fs_alloc fs) \<subseteq> set ?old"
    "owned (fs_alloc fs) - set ?old \<union> set (take n ?old) \<subseteq> owned a"
    unfolding ai(3) using old(1) by blast+
  have "?fs = fs\<lparr>fs_alloc := a, fs_inodes := set_blocks (fs_inodes fs) k (take n ?old), fs_data := fs_data fs\<rparr>" by simp
  note resized [OF assms(2-4) dist(1) own _ this]
  ultimately show ?thesis using assms(4) ai(3) by (auto simp: files_def take_map)
qed

lemma truncate_blocks_law:
  assumes "sb_ok sb" and "consistent fs" and "fs_typed sb fs"
  shows "case files fs i of
      None \<Rightarrow> truncate_blocks_spec sb i n fs = Inl InvalidInput
    | Some bs \<Rightarrow>
        if n \<le> length bs
        then \<exists>released fs'. truncate_blocks_spec sb i n fs = Inr (released, fs') \<and> length released = length bs - n \<and>
          owned (fs_alloc fs') = owned (fs_alloc fs) - set released \<and> set released \<subseteq> owned (fs_alloc fs) \<and>
          consistent fs' \<and> names fs' = names fs \<and> files fs' = (files fs)(i \<mapsto> take n bs)
        else truncate_blocks_spec sb i n fs = Inl InvalidInput"
proof (cases "find_file (fs_inodes fs) i")
  case (Inl e)
  then show ?thesis using find_file_Inl [OF Inl] by (simp add: files_def truncate_blocks_spec_def)
next
  case (Inr k)
  let ?old = "pi_blocks (fs_inodes fs ! k)"
  have bs: "files fs i = Some (map (fs_data fs) ?old)" using Inr by (simp add: files_def)
  have "set (drop n ?old) \<subseteq> owned (fs_alloc fs)"
    using consistent_blocks [OF assms(2) find_file_Inr(2) [OF Inr]] set_drop_subset by fastforce
  then show ?thesis
    using shrink_law [OF assms Inr, of n] bs assms(2)
    by (cases "length ?old" n rule: linorder_cases) (auto simp: truncate_blocks_spec_def Inr Let_def fun_upd_idem)
qed

lemma bindR_unit: "bindR r (\<lambda>x. Inr ((), snd x)) = r"
  by (cases r) auto

lemma truncate_zero_law:
  "truncate_zero_spec sb i fs = bindR (truncate_blocks_spec sb i 0 fs) (\<lambda>(_, fs'). Inr ((), fs'))"
  by (cases "find_file (fs_inodes fs) i")
    (auto simp: truncate_zero_spec_def truncate_blocks_spec_def Let_def bindR_assoc bindR_unit case_prod_beta)

lemma truncate_last_law:
  "truncate_last_spec sb i fs =
     (case files fs i of
        None \<Rightarrow> Inl InvalidInput
      | Some bs \<Rightarrow>
          if bs = [] then Inl InvalidInput
          else bindR (truncate_blocks_spec sb i (length bs - 1) fs) (\<lambda>(released, fs'). Inr (last released, fs')))"
proof (cases "find_file (fs_inodes fs) i")
  case (Inl e)
  then show ?thesis using find_file_Inl [OF Inl] by (simp add: files_def truncate_last_spec_def)
next
  case (Inr k)
  let ?bs = "pi_blocks (fs_inodes fs ! k)"
  have bs: "files fs i = Some (map (fs_data fs) ?bs)" using Inr by (simp add: files_def)
  show ?thesis
  proof (cases "?bs = []")
    case False
    then obtain m where m: "length ?bs = Suc m" by (cases ?bs) auto
    then have "last (drop m ?bs) = last ?bs" using False drop_length_minus_one [of ?bs] by simp
    then show ?thesis
      using False m
      by (cases "shrink_spec sb k m fs") (auto simp: truncate_last_spec_def truncate_blocks_spec_def bs Inr Let_def)
  qed (simp add: truncate_last_spec_def Inr bs)
qed

text \<open>The range operations that combine others.\<close>

lemma copy_range_law:
  assumes "consistent fs" and "fs_typed sb fs" and "0 < len" and "fre_offset src < 4096" and "fre_offset dst < 4096"
    and "fre_offset src + len < 2 ^ 64" and "fre_offset dst + len < 2 ^ 64"
    and "contents fs (fre_inode src) = Some c" and "files fs (fre_inode dst) = Some bs"
    and "4096 * fre_first_block src + fre_offset src + len \<le> length c"
    and "4096 * fre_first_block dst + fre_offset dst + len \<le> 4096 * length bs"
  shows "\<exists>bs'. overwrites fs (fre_inode dst) bs' (copy_range_spec src dst len fs) \<and> length bs' = length bs \<and>
    concat bs' = copy_slice (concat bs) (4096 * fre_first_block dst + fre_offset dst)
      (subslice c (4096 * fre_first_block src + fre_offset src) (4096 * fre_first_block src + fre_offset src + len))"
proof -
  let ?s = "4096 * fre_first_block src + fre_offset src"
  have "read_range_spec (fre_inode src) (fre_first_block src) (fre_offset src) len fs = Inr (subslice c ?s (?s + len))"
    using read_range_law [OF assms(1-4,6)] assms(8,10) by simp
  moreover have len: "length (subslice c ?s (?s + len)) = len" using assms(10) by (simp add: subslice_def)
  then have "subslice c ?s (?s + len) \<noteq> []" using assms(3) by (metis length_0_conv less_numeral_extra(3))
  note write_range_law [OF assms(1,2) this assms(5), of "fre_inode dst" "fre_first_block dst"]
  ultimately show ?thesis using assms(7,9,11) unfolding len by (auto simp: copy_range_spec_def)
qed

lemma overwrites_consistent:
  assumes "consistent fs" and "overwrites fs i bs r"
  shows "\<exists>fs'. r = Inr ((), fs') \<and> consistent fs' \<and> names fs' = names fs \<and> files fs' = (files fs)(i \<mapsto> bs)"
  using assms by (auto simp: overwrites_def consistent_def names_def)

section \<open>Properties\<close>

text \<open>C5. File operations are atomic under crashes. On a crash-prone device that holds a consistent file
  system \<open>fs\<close>, every journaled file operation (overwriting a block, part of a block, a batch of
  blocks or a byte range; copying and zeroing a range; appending one block or several; inserting a
  block; the three truncations) that a crash may interrupt before any of its device mutations
  leaves, after recovery, either \<open>fs\<close> or the state its specification names, and returns the
  specified value when it reports success. Uninterrupted, it fails exactly as specified or because
  the journal is too small.\<close>

theorem file_update_crash_atomic:
  assumes "sb_ok sb" and "cd_mounted sb dev fs" and "consistent fs" and "length img = 4096"
    and "list_all (\<lambda>(_, x). length x = 4096) ws" and "list_all (\<lambda>x. length x = 4096) imgs"
  shows "crash_outcome sb (\<lambda>_. ()) (write_block_spec i j img) fs k
      (crash_and_recover sb k (write_file_block_journaled crash_ops sb i j img) dev) \<and>
    crash_outcome sb (\<lambda>_. ()) (write_block_range_spec i j off data) fs k
      (crash_and_recover sb k (write_file_block_range_journaled crash_ops sb i j off data) dev) \<and>
    crash_outcome sb (\<lambda>_. ()) (write_blocks_spec i ws) fs k
      (crash_and_recover sb k (write_file_blocks_journaled crash_ops sb i ws) dev) \<and>
    crash_outcome sb (\<lambda>_. ()) (write_range_spec i j off data) fs k
      (crash_and_recover sb k (write_file_range_journaled crash_ops sb i j off data) dev) \<and>
    crash_outcome sb (\<lambda>_. ()) (copy_range_spec src dst len) fs k
      (crash_and_recover sb k (copy_file_range_journaled crash_ops sb src dst len) dev) \<and>
    crash_outcome sb (\<lambda>_. ()) (zero_range_spec i j off len) fs k
      (crash_and_recover sb k (zero_file_range_journaled crash_ops sb i j off len) dev) \<and>
    crash_outcome sb fst (append_spec sb i img) fs k
      (crash_and_recover sb k (append_file_block_journaled crash_ops sb i img) dev) \<and>
    crash_outcome sb fst (append_blocks_spec sb i imgs) fs k
      (crash_and_recover sb k (append_file_blocks_journaled crash_ops sb i imgs) dev) \<and>
    crash_outcome sb fst (insert_spec sb i j img) fs k
      (crash_and_recover sb k (insert_file_block_journaled crash_ops sb i j img) dev) \<and>
    crash_outcome sb (\<lambda>_. ()) (truncate_zero_spec sb i) fs k
      (crash_and_recover sb k (truncate_file_to_zero_journaled crash_ops sb i) dev) \<and>
    crash_outcome sb fst (truncate_blocks_spec sb i j) fs k
      (crash_and_recover sb k (truncate_file_to_blocks_journaled crash_ops sb i j) dev) \<and>
    crash_outcome sb fst (truncate_last_spec sb i) fs k
      (crash_and_recover sb k (truncate_file_last_block_journaled crash_ops sb i) dev)"
  by (intro conjI crash_safe_outcome [where P = consistent, OF assms(1-3)] crash_safe_files assms)

theorem file_update_crash_atomic_witness:
  "crash_outcome disk_superblock fst (append_spec disk_superblock 2 (replicate 4096 7)) disk_fs (Some 4)
     (crash_and_recover disk_superblock (Some 4)
        (append_file_block_journaled crash_ops disk_superblock 2 (replicate 4096 7)) populated)"
  using file_update_crash_atomic [OF disk_superblock_ok populated_mounted disk_fs_consistent, of "replicate 4096 7" "[]" "[]"]
  by simp

text \<open>C10. Reads are exact. On a device that holds a consistent file system, reading a block returns that
  block of the file, and reading a byte range returns exactly those bytes of the concatenation of
  its blocks, across block boundaries. A missing file, a directory, a block or a range beyond the
  end, an empty range or an offset outside the first block is refused. Nothing is written.\<close>

theorem file_read_exact:
  assumes "sb_ok sb" and "cd_mounted sb dev fs" and "consistent fs"
  shows "(case read_file_block crash_ops sb i j dev of (r, dev') \<Rightarrow>
      cd_view dev' = cd_view dev \<and> cd_durable dev' = cd_durable dev \<and>
      r = (case files fs i of
             None \<Rightarrow> Inl InvalidInput
           | Some bs \<Rightarrow> if j < length bs then Inr (bs ! j) else Inl InvalidInput)) \<and>
    (case read_file_range crash_ops sb i j off len dev of (r, dev') \<Rightarrow>
      cd_view dev' = cd_view dev \<and> cd_durable dev' = cd_durable dev \<and>
      r = (if len = 0 \<or> off \<ge> 4096 \<or> off + len \<ge> 2 ^ 64 then Inl InvalidInput
           else case contents fs i of
             None \<Rightarrow> Inl InvalidInput
           | Some c \<Rightarrow>
               if 4096 * j + off + len \<le> length c
               then Inr (subslice c (4096 * j + off) (4096 * j + off + len)) else Inl InvalidInput))"
proof -
  have typed: "fs_typed sb fs" using assms(2) by (simp add: cd_mounted_def mounted_def)
  have "read_range_spec i j off len fs = (if len = 0 \<or> off \<ge> 4096 \<or> off + len \<ge> 2 ^ 64 then Inl InvalidInput
      else case contents fs i of None \<Rightarrow> Inl InvalidInput | Some c \<Rightarrow>
        if 4096 * j + off + len \<le> length c
        then Inr (subslice c (4096 * j + off) (4096 * j + off + len)) else Inl InvalidInput)"
  proof (cases "len = 0 \<or> off \<ge> 4096 \<or> off + len \<ge> 2 ^ 64")
    case True
    then show ?thesis by (auto simp: read_range_spec_def BLOCK_SIZE_def usize_add_def)
  next
    case False
    then show ?thesis using read_range_law [OF assms(3) typed, of len off i j] by simp
  qed
  then show ?thesis
    using crash_reads [where P = consistent, OF assms(2,3) crash_dev.reads_file_block [OF assms(1)], of i j]
      crash_reads [where P = consistent, OF assms(2,3) crash_dev.reads_file_range [OF assms(1)], of i j off len]
      resolve_files [OF assms(3) typed, of i j]
    by auto
qed

lemma disk_files: "files disk_fs 2 = Some [zero_block, zero_block]" "files disk_fs 4 = Some [zero_block]"
proof -
  have "{22, 23, 24} \<subseteq> set (data_region disk_superblock)"
    by (simp add: u64_range_eq_iff disk_superblock_def reserved_blocks_def)
  then have "fs_data disk_fs 22 = zero_block" "fs_data disk_fs 23 = zero_block" "fs_data disk_fs 24 = zero_block"
    by (auto simp: fs_with_def empty_fs_def)
  then show "files disk_fs 2 = Some [zero_block, zero_block]" "files disk_fs 4 = Some [zero_block]"
    by (simp_all add: files_def find_file_def disk_inodes_def)
qed

theorem file_read_exact_witness:
  "fst (read_file_range crash_ops disk_superblock 2 0 4095 2 populated) = Inr [0, 0] \<and>
   fst (read_file_range crash_ops disk_superblock 2 1 4095 2 populated) = Inl InvalidInput"
proof -
  have "contents disk_fs 2 = Some (replicate 8192 0)"
    by (simp add: contents_def disk_files replicate_add [symmetric])
  moreover have "subslice (replicate 8192 0) 4095 4097 = [0, 0 :: u8]"
    by (simp add: subslice_def) (simp add: numeral_2_eq_2)
  ultimately show ?thesis
    using file_read_exact [OF disk_superblock_ok populated_mounted disk_fs_consistent, where i = 2 and j = 0 and off = 4095 and len = 2]
      file_read_exact [OF disk_superblock_ok populated_mounted disk_fs_consistent, where i = 2 and j = 1 and off = 4095 and len = 2]
    by (auto split: prod.splits)
qed

text \<open>C9. What was written is read back. When a byte-range write reports success, whatever crash was
  armed, reading the same range from the recovered device returns exactly the bytes written.\<close>

theorem write_range_read_back:
  assumes "sb_ok sb" and "cd_mounted sb dev fs" and "consistent fs"
    and "crash_and_recover sb k (write_file_range_journaled crash_ops sb i j off data) dev = (Inr report, rep, dev')"
  shows "fst (read_file_range crash_ops sb i j off (length data) dev') = Inr data"
proof -
  have typed: "fs_typed sb fs" using assms(2) by (simp add: cd_mounted_def mounted_def)
  have "crash_outcome sb (\<lambda>_. ()) (write_range_spec i j off data) fs k (Inr report, rep, dev')"
    unfolding assms(4) [symmetric]
    by (intro crash_safe_outcome [where P = consistent, OF assms(1-3)] crash_safe_files assms(1))
  then obtain fs' where fs': "cd_mounted sb dev' fs'" "write_range_spec i j off data fs = Inr ((), fs')"
    by (auto simp: crash_outcome_def)
  have d: "data \<noteq> []" "off < 4096" "off + length data < 2 ^ 64"
    using fs'(2) by (auto simp: write_range_spec_def BLOCK_SIZE_def usize_add_def bindR_Inr_iff ok_or_Inr_iff split: if_splits)
  obtain bs bs' where bs: "files fs i = Some bs" "4096 * j + off + length data \<le> 4096 * length bs"
    "overwrites fs i bs' (Inr ((), fs'))" "concat bs' = copy_slice (concat bs) (4096 * j + off) data"
    using write_range_law [OF assms(3) typed d, of i j] fs'(2) by (auto split: option.splits if_splits)
  obtain c where c: "consistent fs'" "contents fs' i = Some c" "c = copy_slice (concat bs) (4096 * j + off) data"
    using overwrites_consistent [OF assms(3) bs(3)] bs(4) by (auto simp: contents_def)
  have len: "length (concat bs) = 4096 * length bs" by (rule length_concat_blocks [OF files_blocks(1) [OF assms(3) typed bs(1)]])
  have typed': "fs_typed sb fs'" using fs'(1) by (simp add: cd_mounted_def mounted_def)
  have "read_range_spec i j off (length data) fs' = Inr data"
    using read_range_law [OF c(1) typed' _ d(2,3), of i j] d(1) c(2,3) bs(2) len
    by (simp add: copy_slice_def subslice_def)
  then show ?thesis
    using crash_reads [where P = consistent, OF fs'(1) c(1) crash_dev.reads_file_range [OF assms(1)], of i j off "length data"]
    by (auto split: prod.splits)
qed

theorem write_range_read_back_witness:
  "\<exists>report rep dev'. crash_and_recover disk_superblock None
       (write_file_range_journaled crash_ops disk_superblock 2 0 4095 [1, 2]) populated = (Inr report, rep, dev') \<and>
     fst (read_file_range crash_ops disk_superblock 2 0 4095 2 dev') = Inr [1, 2]"
proof -
  let ?sb = disk_superblock and ?spec = "write_range_spec 2 0 4095 [1, 2]"
  let ?op = "write_file_range_journaled crash_ops ?sb 2 0 4095 [1, 2]"
  have typed: "fs_typed ?sb disk_fs" using populated_mounted by (simp add: cd_mounted_def mounted_def)
  obtain bs where "overwrites disk_fs 2 bs (?spec disk_fs)"
    using write_range_law [OF disk_fs_consistent typed, of "[1, 2]" 4095 2 0] by (auto simp: disk_files)
  then obtain v where v: "?spec disk_fs = Inr ((), disk_fs\<lparr>fs_data := v\<rparr>)"
    "{b. v b \<noteq> fs_data disk_fs b} \<subseteq> {22, 23}"
    by (auto simp: overwrites_def find_file_def disk_inodes_def)
  have "card {b \<in> set (data_region ?sb). fs_data disk_fs b \<noteq> v b} \<le> card {22 :: u64, 23}"
    by (rule card_mono) (use v(2) in \<open>auto simp: subset_iff eq_commute\<close>)
  then have "\<not> journal_full ?sb disk_fs (disk_fs\<lparr>fs_data := v\<rparr>)" by (intro disk_journal) simp
  moreover have "crash_outcome ?sb (\<lambda>_. ()) ?spec disk_fs None (crash_and_recover ?sb None ?op populated)"
    by (intro crash_safe_outcome [where P = consistent, OF disk_superblock_ok populated_mounted disk_fs_consistent]
        crash_safe_files disk_superblock_ok)
  ultimately obtain report rep dev' where run: "crash_and_recover ?sb None ?op populated = (Inr report, rep, dev')"
    using v(1) by (auto simp: crash_outcome_def is_ok_iff)
  from write_range_read_back [OF disk_superblock_ok populated_mounted disk_fs_consistent this]
  show ?thesis using run by (simp add: numeral_2_eq_2)
qed

text \<open>C19. A reserved block passes the ownership check. The check of a file's block reference asks the
  allocator whether the block is unavailable, which holds for every reserved block. So when an
  inode refers to a block of the superblock, the journal or a metadata table, which makes the file
  system inconsistent, reading that block of the file is not refused: it returns the metadata.\<close>

theorem reserved_block_passes_check:
  assumes "sb_ok sb" and "cd_mounted sb dev fs" and "find_file (fs_inodes fs) i = Inr k"
    and "j < length (pi_blocks (fs_inodes fs ! k))" and "pi_blocks (fs_inodes fs ! k) ! j < reserved_blocks sb"
  shows "fst (read_file_block crash_ops sb i j dev) = Inr (cd_view dev (pi_blocks (fs_inodes fs ! k) ! j)) \<and>
    \<not> consistent fs"
proof -
  let ?x = "fs_inodes fs ! k"
  let ?b = "pi_blocks ?x ! j"
  have typed: "fs_typed sb fs" using assms(2) by (simp add: cd_mounted_def mounted_def)
  then have fits: "alloc_inv (fs_alloc fs)" "alloc_fits sb (fs_alloc fs)" by (simp_all add: fs_typed_def)
  then have res: "?b < al_reserved_blocks (fs_alloc fs)" using assms(5) by (simp add: alloc_fits_def)
  then have "resolve_block fs i j = Inr ?b"
    using assms(3,4) check_owned_reserved [OF fits(1) res] by (simp add: resolve_block_def block_at_def)
  moreover have at: "crash_dev.at (total_blocks sb) (cd_view dev) (cd_durable dev) dev"
    and st: "stands sb (cd_durable dev) (cd_view dev)" and m: "mounted sb (cd_view dev) fs"
    using assms(2) by (simp_all add: cd_mounted_def dev_at_def)
  moreover have "?b < total_blocks sb" using res fits by (auto simp: alloc_inv_def alloc_fits_def)
  ultimately have "wp (read_file_block crash_ops sb i j) (\<lambda>x _. x = cd_view dev ?b) (\<lambda>_ _. False) dev"
    unfolding read_file_block_def wp_bind
    by (intro wp_mono [OF crash_dev.reads_resolve [OF assms(1), of "\<lambda>_. True" i j, unfolded reads_def, rule_format, OF at st m TrueI]])
      (auto intro: wp_mono [OF crash_dev.read_law])
  moreover have "?b \<notin> owned (fs_alloc fs)" using res by (simp add: owned_def data_blocks_def not_le [symmetric])
  then have "\<not> consistent fs"
    using consistent_blocks [OF _ find_file_Inr(2) [OF assms(3)]] assms(4) nth_mem by blast
  ultimately show ?thesis by (auto simp: wp_def split: prod.splits sum.splits)
qed

theorem reserved_block_passes_check_witness:
  "let dev = disk_with (allocator_with 0) [\<lparr>pi_id = 1, pi_kind = File, pi_blocks = [17]\<rparr>] [] in
   fst (read_file_block crash_ops disk_superblock 1 0 dev) = Inr (cd_view dev 17)"
proof -
  let ?xs = "[\<lparr>pi_id = 1, pi_kind = File, pi_blocks = [17]\<rparr>]"
  have "inode_fits disk_superblock ?xs" "directory_fits disk_superblock []"
    by (simp_all add: inode_fits_def directory_fits_def disk_superblock_def length_inode_record inode_ok_def)
  from reserved_block_passes_check [OF disk_superblock_ok disk_with_mounted [OF _ this, of 0], of 1 0 0]
  show ?thesis by (simp add: find_file_def disk_superblock_def reserved_blocks_def)
qed

end

