(* ===== verification/FS_Session.thy ===== *)
theory FS_Session
  imports FS_File_Laws
begin

text \<open>
  Sessions with the whole file system. A client issues any sequence of the crate's journaled
  operations; every one of them may be cut off by a crash before any device mutation, after
  which the device reboots and recovers. The operations are collected in one datatype with one
  function that runs them on a device and one that gives their specification, and the lemmas of
  the namespace and file theories are put together for them.
\<close>

section \<open>The operations of the crate\<close>

datatype fs_op =
    Create block_allocator "persisted_inode list" "persisted_directory_entry list"
  | Unlink block_allocator "persisted_inode list" "persisted_directory_entry list"
  | Rename u64 rust_string u64 rust_string
  | Hard_Link u64 rust_string u64
  | Hard_Unlink u64 rust_string
  | Rename_Overwrite u64 rust_string u64 rust_string
  | Rename_Overwrite_Linked u64 rust_string u64 rust_string
  | Rename_Exchange u64 rust_string u64 rust_string
  | Write_Block u64 nat bytes
  | Write_Block_Range u64 nat nat bytes
  | Write_Blocks u64 "(nat \<times> bytes) list"
  | Write_Range u64 nat nat bytes
  | Copy_Range file_range_endpoint file_range_endpoint nat
  | Zero_Range u64 nat nat nat
  | Append u64 bytes
  | Append_Blocks u64 "bytes list"
  | Insert u64 nat bytes
  | Truncate_Zero u64
  | Truncate_Blocks u64 nat
  | Truncate_Last u64

text \<open>What an operation returns beside its recovery report: block numbers, for some.\<close>

datatype fs_value = Done | Block u64 | Blocks "u64 list"

definition yield_with :: "('a \<Rightarrow> fs_value) \<Rightarrow> ('d, 'a) io \<Rightarrow> ('d, fs_value) io" where
  "yield_with f m = io_bind m (\<lambda>x. io_return (f x))"

primrec run_op :: "'d block_device \<Rightarrow> superblock \<Rightarrow> fs_op \<Rightarrow> ('d, fs_value) io" where
  "run_op D sb (Create a xs es) = yield_with (\<lambda>_. Done) (store_create_metadata_journaled D sb a xs es)"
| "run_op D sb (Unlink a xs es) = yield_with (\<lambda>_. Done) (store_unlink_metadata_journaled D sb a xs es)"
| "run_op D sb (Rename p n p' n') = yield_with (\<lambda>_. Done) (rename_entry_journaled D sb p n p' n')"
| "run_op D sb (Hard_Link p n i) = yield_with (\<lambda>_. Done) (hard_link_file_journaled D sb p n i)"
| "run_op D sb (Hard_Unlink p n) = yield_with (\<lambda>_. Done) (unlink_nonfinal_file_link_journaled D sb p n)"
| "run_op D sb (Rename_Overwrite p n p' n') = yield_with (\<lambda>_. Done) (rename_overwrite_file_journaled D sb p n p' n')"
| "run_op D sb (Rename_Overwrite_Linked p n p' n') =
     yield_with (\<lambda>_. Done) (rename_overwrite_linked_file_journaled D sb p n p' n')"
| "run_op D sb (Rename_Exchange p n p' n') = yield_with (\<lambda>_. Done) (rename_exchange_files_journaled D sb p n p' n')"
| "run_op D sb (Write_Block i j data) = yield_with (\<lambda>_. Done) (write_file_block_journaled D sb i j data)"
| "run_op D sb (Write_Block_Range i j off data) =
     yield_with (\<lambda>_. Done) (write_file_block_range_journaled D sb i j off data)"
| "run_op D sb (Write_Blocks i ws) = yield_with (\<lambda>_. Done) (write_file_blocks_journaled D sb i ws)"
| "run_op D sb (Write_Range i j off data) = yield_with (\<lambda>_. Done) (write_file_range_journaled D sb i j off data)"
| "run_op D sb (Copy_Range src dst len) = yield_with (\<lambda>_. Done) (copy_file_range_journaled D sb src dst len)"
| "run_op D sb (Zero_Range i j off len) = yield_with (\<lambda>_. Done) (zero_file_range_journaled D sb i j off len)"
| "run_op D sb (Append i data) = yield_with (\<lambda>(b, _). Block b) (append_file_block_journaled D sb i data)"
| "run_op D sb (Append_Blocks i datas) = yield_with (\<lambda>(bs, _). Blocks bs) (append_file_blocks_journaled D sb i datas)"
| "run_op D sb (Insert i j data) = yield_with (\<lambda>(b, _). Block b) (insert_file_block_journaled D sb i j data)"
| "run_op D sb (Truncate_Zero i) = yield_with (\<lambda>_. Done) (truncate_file_to_zero_journaled D sb i)"
| "run_op D sb (Truncate_Blocks i n) = yield_with (\<lambda>(bs, _). Blocks bs) (truncate_file_to_blocks_journaled D sb i n)"
| "run_op D sb (Truncate_Last i) = yield_with (\<lambda>(b, _). Block b) (truncate_file_last_block_journaled D sb i)"

definition result_with :: "('a \<Rightarrow> fs_value) \<Rightarrow> ('a \<times> fs_state) res \<Rightarrow> (fs_value \<times> fs_state) res" where
  "result_with f r = bindR r (\<lambda>(y, fs'). Inr (f y, fs'))"

primrec op_spec :: "superblock \<Rightarrow> fs_op \<Rightarrow> fs_state \<Rightarrow> (fs_value \<times> fs_state) res" where
  "op_spec sb (Create a xs es) = (\<lambda>fs. result_with (\<lambda>_. Done) (put_tables sb a xs es fs))"
| "op_spec sb (Unlink a xs es) = (\<lambda>fs. result_with (\<lambda>_. Done) (unlink_spec sb a xs es fs))"
| "op_spec sb (Rename p n p' n') = (\<lambda>fs. result_with (\<lambda>_. Done) (rename_spec sb p n p' n' fs))"
| "op_spec sb (Hard_Link p n i) = (\<lambda>fs. result_with (\<lambda>_. Done) (hard_link_spec sb p n i fs))"
| "op_spec sb (Hard_Unlink p n) = (\<lambda>fs. result_with (\<lambda>_. Done) (hard_unlink_spec sb p n fs))"
| "op_spec sb (Rename_Overwrite p n p' n') = (\<lambda>fs. result_with (\<lambda>_. Done) (overwrite_spec sb p n p' n' False fs))"
| "op_spec sb (Rename_Overwrite_Linked p n p' n') = (\<lambda>fs. result_with (\<lambda>_. Done) (overwrite_spec sb p n p' n' True fs))"
| "op_spec sb (Rename_Exchange p n p' n') = (\<lambda>fs. result_with (\<lambda>_. Done) (exchange_spec sb p n p' n' fs))"
| "op_spec sb (Write_Block i j data) = (\<lambda>fs. result_with (\<lambda>_. Done) (write_block_spec i j data fs))"
| "op_spec sb (Write_Block_Range i j off data) = (\<lambda>fs. result_with (\<lambda>_. Done) (write_block_range_spec i j off data fs))"
| "op_spec sb (Write_Blocks i ws) = (\<lambda>fs. result_with (\<lambda>_. Done) (write_blocks_spec i ws fs))"
| "op_spec sb (Write_Range i j off data) = (\<lambda>fs. result_with (\<lambda>_. Done) (write_range_spec i j off data fs))"
| "op_spec sb (Copy_Range src dst len) = (\<lambda>fs. result_with (\<lambda>_. Done) (copy_range_spec src dst len fs))"
| "op_spec sb (Zero_Range i j off len) = (\<lambda>fs. result_with (\<lambda>_. Done) (zero_range_spec i j off len fs))"
| "op_spec sb (Append i data) = (\<lambda>fs. result_with Block (append_spec sb i data fs))"
| "op_spec sb (Append_Blocks i datas) = (\<lambda>fs. result_with Blocks (append_blocks_spec sb i datas fs))"
| "op_spec sb (Insert i j data) = (\<lambda>fs. result_with Block (insert_spec sb i j data fs))"
| "op_spec sb (Truncate_Zero i) = (\<lambda>fs. result_with (\<lambda>_. Done) (truncate_zero_spec sb i fs))"
| "op_spec sb (Truncate_Blocks i n) = (\<lambda>fs. result_with Blocks (truncate_blocks_spec sb i n fs))"
| "op_spec sb (Truncate_Last i) = (\<lambda>fs. result_with Block (truncate_last_spec sb i fs))"

text \<open>
  The arguments a client may pass: blocks have the size of the array type, allocators satisfy
  the invariant of their type, and the tables published by a creation describe a consistent
  state. All other operations check their arguments against the device.
\<close>

fun op_legal :: "fs_op \<Rightarrow> bool" where
  "op_legal (Create a xs es) \<longleftrightarrow> alloc_inv a \<and> ownership_ok a xs \<and> namespace_ok xs es"
| "op_legal (Unlink a xs es) \<longleftrightarrow> alloc_inv a"
| "op_legal (Write_Block i j data) \<longleftrightarrow> length data = 4096"
| "op_legal (Write_Blocks i ws) \<longleftrightarrow> list_all (\<lambda>(_, data). length data = 4096) ws"
| "op_legal (Append i data) \<longleftrightarrow> length data = 4096"
| "op_legal (Append_Blocks i datas) \<longleftrightarrow> list_all (\<lambda>data. length data = 4096) datas"
| "op_legal (Insert i j data) \<longleftrightarrow> length data = 4096"
| "op_legal _ \<longleftrightarrow> True"

section \<open>Every operation is crash safe and keeps the state consistent\<close>

lemma crash_safe_weaken: "crash_safe sb P ret m s \<Longrightarrow> (\<And>fs. Q fs \<Longrightarrow> P fs) \<Longrightarrow> crash_safe sb Q ret m s"
  unfolding crash_safe_def using implements_weaken by blast

lemma crash_safe_yield:
  assumes "crash_safe sb P ret m s" and "\<And>x. g x = h (ret x)"
  shows "crash_safe sb P id (yield_with g m) (\<lambda>fs. result_with h (s fs))"
  using assms unfolding crash_safe_def yield_with_def result_with_def by (auto intro!: implements_map)

lemma op_crash_safe:
  assumes "sb_ok sb" and "op_legal op"
  shows "crash_safe sb consistent id (run_op crash_ops sb op) (op_spec sb op)"
proof -
  note safe = crash_safe_metadata(5) [OF assms(1)] crash_safe_namespace [OF assms(1)] crash_safe_files [OF assms(1)]
  show ?thesis
    using assms(2) by (cases op) (auto simp: case_prod_beta intro!: crash_safe_yield safe)
qed

lemma data_only:
  "put_data ws fs = Inr (u, fs') \<Longrightarrow> \<exists>v. fs' = fs\<lparr>fs_data := v\<rparr>"
  "write_block_spec i j img fs = Inr (u, fs') \<Longrightarrow> \<exists>v. fs' = fs\<lparr>fs_data := v\<rparr>"
  "write_block_range_spec i j off data fs = Inr (u, fs') \<Longrightarrow> \<exists>v. fs' = fs\<lparr>fs_data := v\<rparr>"
  "write_blocks_spec i imgs fs = Inr (u, fs') \<Longrightarrow> \<exists>v. fs' = fs\<lparr>fs_data := v\<rparr>"
  by (auto simp: put_data_def write_block_spec_def write_block_range_spec_def write_blocks_spec_def bindR_Inr_iff
      split: if_splits)

lemma range_data_only:
  "write_range_spec i j off data fs = Inr (u, fs') \<Longrightarrow> \<exists>v. fs' = fs\<lparr>fs_data := v\<rparr>"
  "copy_range_spec src dst len fs = Inr (u, fs') \<Longrightarrow> \<exists>v. fs' = fs\<lparr>fs_data := v\<rparr>"
  "zero_range_spec i j off len fs = Inr (u, fs') \<Longrightarrow> \<exists>v. fs' = fs\<lparr>fs_data := v\<rparr>"
  by (auto simp: write_range_spec_def copy_range_spec_def zero_range_spec_def bindR_Inr_iff dest: data_only(4)
      split: if_splits)

lemma consistent_data [simp]: "consistent (fs\<lparr>fs_data := v\<rparr>) = consistent fs"
  by (simp add: consistent_def)

section \<open>What the user sees\<close>

text \<open>The names, and the blocks of the regular files.\<close>

type_synonym user_view = "(u64 \<times> rust_string \<rightharpoonup> u64) \<times> (u64 \<rightharpoonup> bytes list)"

definition user_view :: "fs_state \<Rightarrow> user_view" where
  "user_view fs = (names fs, files fs)"

text \<open>One file is replaced by blocks with the given concatenation.\<close>

definition patched :: "(u64 \<rightharpoonup> bytes list) \<Rightarrow> u64 \<Rightarrow> nat \<Rightarrow> bytes \<Rightarrow> (u64 \<rightharpoonup> bytes list) \<Rightarrow> bool" where
  "patched F i start data G \<longleftrightarrow>
     (\<exists>bs bs'. F i = Some bs \<and> start + length data \<le> length (concat bs) \<and> G = F(i \<mapsto> bs') \<and>
        length bs' = length bs \<and> (\<forall>b \<in> set bs'. length b = 4096) \<and> concat bs' = copy_slice (concat bs) start data)"

inductive user_step :: "fs_op \<Rightarrow> fs_value \<Rightarrow> user_view \<Rightarrow> user_view \<Rightarrow> bool" where
  create: "dom G = {i. has_file xs i} \<Longrightarrow>
    user_step (Create a xs es) Done (N, F) (map_of (map (\<lambda>e. (dentry_key e, pd_target e)) es), G)"
| unlink: "N k = Some t \<Longrightarrow> \<forall>k'. N k' = Some t \<longrightarrow> k' = k \<Longrightarrow>
    user_step (Unlink a xs es) Done (N, F) (N(k := None), F(t := None))"
| rename: "N (p, n) = Some t \<Longrightarrow>
    user_step (Rename p n p' n') Done (N, F) (N((p, n) := None, (p', n') \<mapsto> t), F)"
| hard_link: "N (p, n) = None \<Longrightarrow> i \<in> dom F \<Longrightarrow>
    user_step (Hard_Link p n i) Done (N, F) (N((p, n) \<mapsto> i), F)"
| hard_unlink: "N (p, n) = Some t \<Longrightarrow> N k = Some t \<Longrightarrow> k \<noteq> (p, n) \<Longrightarrow>
    user_step (Hard_Unlink p n) Done (N, F) (N((p, n) := None), F)"
| overwrite: "N (p, n) = Some t \<Longrightarrow> N (p', n') = Some t' \<Longrightarrow>
    user_step (Rename_Overwrite p n p' n') Done (N, F)
      (N((p, n) := None, (p', n') \<mapsto> t), if (p, n) = (p', n') then F else F(t' := None))"
| overwrite_linked: "N (p, n) = Some t \<Longrightarrow> N (p', n') = Some t' \<Longrightarrow>
    user_step (Rename_Overwrite_Linked p n p' n') Done (N, F) (N((p, n) := None, (p', n') \<mapsto> t), F)"
| exchange: "N (p, n) = Some t \<Longrightarrow> N (p', n') = Some t' \<Longrightarrow>
    user_step (Rename_Exchange p n p' n') Done (N, F) (N((p, n) \<mapsto> t', (p', n') \<mapsto> t), F)"
| exchange_same: "user_step (Rename_Exchange p n p n) Done (N, F) (N, F)"
| write_block: "F i = Some bs \<Longrightarrow> j < length bs \<Longrightarrow>
    user_step (Write_Block i j img) Done (N, F) (N, F(i \<mapsto> bs[j := img]))"
| write_block_range: "F i = Some bs \<Longrightarrow> j < length bs \<Longrightarrow> off + length data \<le> 4096 \<Longrightarrow>
    user_step (Write_Block_Range i j off data) Done (N, F) (N, F(i \<mapsto> bs[j := copy_slice (bs ! j) off data]))"
| write_blocks: "F i = Some bs \<Longrightarrow> distinct (map fst ws) \<Longrightarrow> \<forall>(j, _) \<in> set ws. j < length bs \<Longrightarrow>
    user_step (Write_Blocks i ws) Done (N, F) (N, F(i \<mapsto> updates bs ws))"
| write_range: "patched F i (4096 * j + off) data G \<Longrightarrow>
    user_step (Write_Range i j off data) Done (N, F) (N, G)"
| copy_range: "F (fre_inode src) = Some bs \<Longrightarrow> s = 4096 * fre_first_block src + fre_offset src \<Longrightarrow>
    s + len \<le> length (concat bs) \<Longrightarrow>
    patched F (fre_inode dst) (4096 * fre_first_block dst + fre_offset dst) (subslice (concat bs) s (s + len)) G \<Longrightarrow>
    user_step (Copy_Range src dst len) Done (N, F) (N, G)"
| zero_range: "patched F i (4096 * j + off) (replicate len 0) G \<Longrightarrow>
    user_step (Zero_Range i j off len) Done (N, F) (N, G)"
| append: "F i = Some bs \<Longrightarrow> user_step (Append i img) (Block b) (N, F) (N, F(i \<mapsto> bs @ [img]))"
| append_blocks: "F i = Some bs \<Longrightarrow> user_step (Append_Blocks i imgs) (Blocks new) (N, F) (N, F(i \<mapsto> bs @ imgs))"
| insert: "F i = Some bs \<Longrightarrow> j \<le> length bs \<Longrightarrow>
    user_step (Insert i j img) (Block b) (N, F) (N, F(i \<mapsto> take j bs @ img # drop j bs))"
| truncate_zero: "F i = Some bs \<Longrightarrow> user_step (Truncate_Zero i) Done (N, F) (N, F(i \<mapsto> []))"
| truncate_blocks: "F i = Some bs \<Longrightarrow> n \<le> length bs \<Longrightarrow> length old = length bs - n \<Longrightarrow>
    user_step (Truncate_Blocks i n) (Blocks old) (N, F) (N, F(i \<mapsto> take n bs))"
| truncate_last: "F i = Some bs \<Longrightarrow> bs \<noteq> [] \<Longrightarrow>
    user_step (Truncate_Last i) (Block b) (N, F) (N, F(i \<mapsto> butlast bs))"

text \<open>A completed operation is such a step and keeps the state consistent.\<close>

definition refines :: "fs_op \<Rightarrow> fs_value \<Rightarrow> fs_state \<Rightarrow> fs_state \<Rightarrow> bool" where
  "refines op y fs fs' \<longleftrightarrow> user_step op y (user_view fs) (user_view fs') \<and> consistent fs'"

lemma names_same: "names (fs\<lparr>fs_data := v\<rparr>) = names fs"
  by (simp add: names_def)

lemma files_same: "files (fs\<lparr>fs_entries := es\<rparr>) = files fs"
  by (auto simp: files_def fun_eq_iff split: sum.splits)

lemma files_sets:
  assumes "distinct (map pi_id (fs_inodes fs))"
  shows "files fs i = Some bs \<longleftrightarrow>
    (\<exists>x \<in> set (fs_inodes fs). pi_id x = i \<and> pi_kind x = File \<and> bs = map (fs_data fs) (pi_blocks x))"
proof
  assume "files fs i = Some bs"
  then show "\<exists>x \<in> set (fs_inodes fs). pi_id x = i \<and> pi_kind x = File \<and> bs = map (fs_data fs) (pi_blocks x)"
    using find_file_Inr by (metis files_Some)
next
  assume "\<exists>x \<in> set (fs_inodes fs). pi_id x = i \<and> pi_kind x = File \<and> bs = map (fs_data fs) (pi_blocks x)"
  then obtain x where x: "x \<in> set (fs_inodes fs)" "pi_id x = i" "pi_kind x = File" "bs = map (fs_data fs) (pi_blocks x)"
    by blast
  obtain k where k: "position (\<lambda>x. pi_id x = i) (fs_inodes fs) = Some k"
    using x(1,2) position_None_iff [of "\<lambda>x. pi_id x = i"] by (cases "position (\<lambda>x. pi_id x = i) (fs_inodes fs)") auto
  then have "fs_inodes fs ! k = x"
    using same_id [OF assms _ x(1)] x(2) by (auto simp: position_Some_iff)
  then have "find_file (fs_inodes fs) i = Inr k" using k x(3) by (simp add: find_file_def)
  then show "files fs i = Some bs" using \<open>fs_inodes fs ! k = x\<close> x(4) by (auto simp: files_Some)
qed

lemma files_dom: "distinct (map pi_id (fs_inodes fs)) \<Longrightarrow> dom (files fs) = {i. has_file (fs_inodes fs) i}"
  by (auto simp: dom_def files_sets has_file_def)

lemma option_restrict: "(\<And>y. a = Some y \<longleftrightarrow> b = Some y \<and> c) \<Longrightarrow> a = (if c then b else None)"
  by (cases a; cases b) auto

lemma files_removed:
  assumes "distinct (map pi_id (fs_inodes fs))" and "distinct (map pi_id (fs_inodes fs'))" and "fs_data fs' = fs_data fs"
    and "d \<in> set (fs_inodes fs)" and "set (fs_inodes fs') = set (fs_inodes fs) - {d}"
  shows "files fs' = (files fs)(pi_id d := None)"
proof
  fix i
  have "files fs' i = Some bs \<longleftrightarrow> files fs i = Some bs \<and> i \<noteq> pi_id d" for bs
    unfolding files_sets [OF assms(1)] files_sets [OF assms(2)] assms(3,5)
    using same_id [OF assms(1) _ assms(4)] by auto
  from option_restrict [OF this] show "files fs' i = ((files fs)(pi_id d := None)) i" by simp
qed

lemma result_with_Inr: "result_with f r = Inr (y, fs') \<longleftrightarrow> (\<exists>x. r = Inr (x, fs') \<and> y = f x)"
  by (auto simp: result_with_def bindR_Inr_iff)

lemma refines_create:
  assumes "sb_ok sb" and "fs_typed sb fs" and "op_legal (Create a xs es)" and "put_tables sb a xs es fs = Inr (u, fs')"
  shows "refines (Create a xs es) Done fs fs'"
proof -
  have legal: "alloc_inv a" "ownership_ok a xs" "namespace_ok xs es" using assms(3) by simp_all
  have fs': "fs' = fs\<lparr>fs_alloc := a, fs_inodes := xs, fs_entries := es\<rparr>" "inode_fits sb xs"
    using assms(4) by (simp_all add: put_tables_iff [OF assms(1) legal(1)])
  then have "dom (files fs') = {i. has_file xs i}" using files_dom [of fs'] by (simp add: inode_fits_def)
  from user_step.create [OF this] show ?thesis
    using legal(2,3) fs'(1) by (simp add: refines_def user_view_def names_def consistent_def)
qed

lemma refines_entries:
  assumes "sb_ok sb" and "fs_typed sb fs" and "consistent fs"
  shows "rename_spec sb p n p' n' fs = Inr (u, fs') \<Longrightarrow> refines (Rename p n p' n') Done fs fs'"
    and "hard_link_spec sb p n i fs = Inr (u, fs') \<Longrightarrow> refines (Hard_Link p n i) Done fs fs'"
    and "hard_unlink_spec sb p n fs = Inr (u, fs') \<Longrightarrow> refines (Hard_Unlink p n) Done fs fs'"
    and "overwrite_spec sb p n p' n' True fs = Inr (u, fs') \<Longrightarrow> refines (Rename_Overwrite_Linked p n p' n') Done fs fs'"
    and "exchange_spec sb p n p' n' fs = Inr (u, fs') \<Longrightarrow> refines (Rename_Exchange p n p' n') Done fs fs'"
proof -
  have view: "user_view fs' = (names fs', files fs)" if "fs' = fs\<lparr>fs_entries := fs_entries fs'\<rparr>"
    using files_same [of "fs_entries fs'" fs] that by (simp add: user_view_def)
  show "refines (Rename p n p' n') Done fs fs'" if "rename_spec sb p n p' n' fs = Inr (u, fs')"
    using rename_names [OF assms(1,2) that] rename_consistent [OF assms(1-3) that] view
    by (auto simp: refines_def user_view_def [of fs] intro: user_step.rename)
  show "refines (Hard_Unlink p n) Done fs fs'" if "hard_unlink_spec sb p n fs = Inr (u, fs')"
    using hard_unlink_names [OF assms(1,2) that] hard_unlink_consistent [OF assms(1-3) that] view
    by (auto simp: refines_def user_view_def [of fs] intro: user_step.hard_unlink)
  show "refines (Rename_Overwrite_Linked p n p' n') Done fs fs'" if "overwrite_spec sb p n p' n' True fs = Inr (u, fs')"
    using overwrite_names [OF assms(1,2) that] overwrite_consistent [OF assms(1,2) that assms(3)] view
    by (auto simp: refines_def user_view_def [of fs] intro: user_step.overwrite_linked)
  show "refines (Rename_Exchange p n p' n') Done fs fs'" if "exchange_spec sb p n p' n' fs = Inr (u, fs')"
    using exchange_names [OF assms(1,2) that] exchange_consistent [OF assms(1,2) that assms(3)] view
    by (auto simp: refines_def user_view_def [of fs] intro: user_step.exchange user_step.exchange_same)
  show "refines (Hard_Link p n i) Done fs fs'" if link: "hard_link_spec sb p n i fs = Inr (u, fs')"
  proof -
    from assms(1,2) link have "i \<in> dom (files fs)"
      unfolding files_dom [OF typed_tables(2) [OF assms(2)]] by (cases rule: hard_link_effect) simp
    then show ?thesis
      using hard_link_names [OF assms(1,2) link] hard_link_consistent [OF assms(1-3) link] view
      by (auto simp: refines_def user_view_def [of fs] intro: user_step.hard_link)
  qed
qed

lemma refines_removal:
  assumes "sb_ok sb" and "fs_typed sb fs" and "consistent fs"
  shows "alloc_inv a \<Longrightarrow> unlink_spec sb a xs es fs = Inr (u, fs') \<Longrightarrow> refines (Unlink a xs es) Done fs fs'"
    and "overwrite_spec sb p n p' n' False fs = Inr (u, fs') \<Longrightarrow> refines (Rename_Overwrite p n p' n') Done fs fs'"
proof -
  note typed = typed_tables(2) [OF assms(2)]
  show "refines (Unlink a xs es) Done fs fs'" if un: "alloc_inv a" "unlink_spec sb a xs es fs = Inr (u, fs')"
  proof -
    obtain r k where r: "r \<in> set (fs_inodes fs)" "set (fs_inodes fs') = set (fs_inodes fs) - {r}"
      "\<forall>k'. names fs k' = Some (pi_id r) \<longleftrightarrow> k' = k" "names fs' = (names fs)(k := None)" "fs_data fs' = fs_data fs"
      "fs_typed sb fs'"
      using unlink_names [OF assms(1,2) un] by blast
    have "files fs' = (files fs)(pi_id r := None)" by (rule files_removed [OF typed typed_tables(2) [OF r(6)] r(5,1,2)])
    moreover have "user_step (Unlink a xs es) Done (names fs, files fs) ((names fs)(k := None), (files fs)(pi_id r := None))"
      by (rule user_step.unlink) (use r(3) in blast)+
    ultimately show ?thesis
      using unlink_consistent [OF assms(1,2) un assms(3)] by (simp only: refines_def user_view_def r(4))
  qed
  show "refines (Rename_Overwrite p n p' n') Done fs fs'" if over: "overwrite_spec sb p n p' n' False fs = Inr (u, fs')"
  proof -
    obtain t t' where n: "names fs (p, n) = Some t" "names fs (p', n') = Some t'"
      "names fs' = (names fs)((p, n) := None, (p', n') \<mapsto> t)"
      and gone: "(p, n) \<noteq> (p', n') \<Longrightarrow> \<exists>d \<in> set (fs_inodes fs). pi_id d = t' \<and>
        set (fs_inodes fs') = set (fs_inodes fs) - {d}" and data: "fs_data fs' = fs_data fs"
      using overwrite_names [OF assms(1,2) over] by blast
    have "fs' = fs \<and> (p, n) = (p', n') \<or> (p, n) \<noteq> (p', n') \<and> fs_typed sb fs'"
      using assms(1,2) over by (cases rule: overwrite_effect) (auto dest: same_key [OF assms(2)])
    then have "files fs' = (if (p, n) = (p', n') then files fs else (files fs)(t' := None))"
      using files_removed [OF typed typed_tables(2) data] gone by fastforce
    then show ?thesis
      using user_step.overwrite [of "names fs" p n t p' n' t' "files fs"] n overwrite_consistent [OF assms(1,2) over assms(3)]
      by (simp add: refines_def user_view_def)
  qed
qed

lemma overwrites_view:
  assumes "consistent fs" and "overwrites fs i bs (Inr (u, fs'))"
  shows "user_view fs' = (names fs, (files fs)(i \<mapsto> bs))" and "consistent fs'"
  using overwrites_consistent [OF assms] by (auto simp: user_view_def)

lemma refines_blocks:
  assumes "fs_typed sb fs" and "consistent fs"
  shows "write_block_spec i j img fs = Inr (u, fs') \<Longrightarrow> refines (Write_Block i j img) Done fs fs'"
    and "write_block_range_spec i j off data fs = Inr (u, fs') \<Longrightarrow> refines (Write_Block_Range i j off data) Done fs fs'"
    and "write_blocks_spec i ws fs = Inr (u, fs') \<Longrightarrow> refines (Write_Blocks i ws) Done fs fs'"
proof -
  note view = overwrites_view [OF assms(2)]
  show "refines (Write_Block i j img) Done fs fs'" if "write_block_spec i j img fs = Inr (u, fs')"
    using write_block_law [OF assms(2,1), of i j img] that view
    by (auto simp: refines_def user_view_def [of fs] split: option.splits if_splits intro: user_step.write_block)
  show "refines (Write_Block_Range i j off data) Done fs fs'" if op: "write_block_range_spec i j off data fs = Inr (u, fs')"
  proof -
    have d: "data \<noteq> []" "off + length data \<le> 4096"
      using op by (auto simp: write_block_range_spec_def BLOCK_SIZE_def split: if_splits)
    show ?thesis
      using write_block_range_law [OF assms(2,1) d, of i j] op view d(2)
      by (auto simp: refines_def user_view_def [of fs] split: option.splits if_splits intro: user_step.write_block_range)
  qed
  show "refines (Write_Blocks i ws) Done fs fs'" if op: "write_blocks_spec i ws fs = Inr (u, fs')"
  proof -
    have "ws \<noteq> []" using op by (auto simp: write_blocks_spec_def)
    from write_blocks_law [OF assms(2,1) this, of i] show ?thesis
      using op view
      by (auto simp: refines_def user_view_def [of fs] split: option.splits if_splits intro: user_step.write_blocks)
  qed
qed

text \<open>A successful byte-range write patches one file.\<close>

lemma range_patched:
  assumes "fs_typed sb fs" and "consistent fs" and "write_range_spec i j off data fs = Inr (u, fs')"
  shows "patched (files fs) i (4096 * j + off) data (files fs')" and "names fs' = names fs" and "consistent fs'"
    and "data \<noteq> []" and "off < 4096"
proof -
  show d: "data \<noteq> []" "off < 4096" using assms(3) by (auto simp: write_range_spec_def BLOCK_SIZE_def split: if_splits)
  have "off + length data < 2 ^ 64"
    using assms(3) by (auto simp: write_range_spec_def usize_add_def bindR_Inr_iff ok_or_Inr_iff split: if_splits)
  note law = write_range_law [OF assms(2,1) d this, of i j]
  then obtain bs bs' where bs: "files fs i = Some bs" "4096 * j + off + length data \<le> 4096 * length bs"
    "overwrites fs i bs' (Inr (u, fs'))" "length bs' = length bs" "\<forall>b \<in> set bs'. length b = 4096"
    "concat bs' = copy_slice (concat bs) (4096 * j + off) data"
    using assms(3) by (auto split: option.splits if_splits)
  have "length (concat bs) = 4096 * length bs" by (rule length_concat_blocks [OF files_blocks(1) [OF assms(2,1) bs(1)]])
  then show "patched (files fs) i (4096 * j + off) data (files fs')" "names fs' = names fs" "consistent fs'"
    using bs overwrites_view [OF assms(2) bs(3)] by (auto simp: patched_def user_view_def)
qed

lemma refines_ranges:
  assumes "fs_typed sb fs" and "consistent fs"
  shows "write_range_spec i j off data fs = Inr (u, fs') \<Longrightarrow> refines (Write_Range i j off data) Done fs fs'"
    and "zero_range_spec i j off len fs = Inr (u, fs') \<Longrightarrow> refines (Zero_Range i j off len) Done fs fs'"
    and "copy_range_spec src dst len fs = Inr (u, fs') \<Longrightarrow> refines (Copy_Range src dst len) Done fs fs'"
proof -
  note patch = range_patched [OF assms]
  show "refines (Write_Range i j off data) Done fs fs'" if "write_range_spec i j off data fs = Inr (u, fs')"
    using patch [OF that] by (simp add: refines_def user_view_def user_step.write_range)
  show "refines (Zero_Range i j off len) Done fs fs'" if "zero_range_spec i j off len fs = Inr (u, fs')"
  proof -
    have "write_range_spec i j off (replicate len 0) fs = Inr (u, fs')"
      using that by (simp add: zero_range_spec_def split: if_splits)
    from patch [OF this] show ?thesis by (simp add: refines_def user_view_def user_step.zero_range)
  qed
  show "refines (Copy_Range src dst len) Done fs fs'" if cp: "copy_range_spec src dst len fs = Inr (u, fs')"
  proof -
    let ?s = "4096 * fre_first_block src + fre_offset src"
    obtain data where r: "read_range_spec (fre_inode src) (fre_first_block src) (fre_offset src) len fs = Inr data"
      and w: "write_range_spec (fre_inode dst) (fre_first_block dst) (fre_offset dst) data fs = Inr (u, fs')"
      using cp by (auto simp: copy_range_spec_def bindR_Inr_iff)
    have "0 < len" "fre_offset src < 4096" "fre_offset src + len < 2 ^ 64"
      using r by (auto simp: read_range_spec_def BLOCK_SIZE_def usize_add_def bindR_Inr_iff ok_or_Inr_iff split: if_splits)
    from read_range_law [OF assms(2,1) this, of "fre_inode src" "fre_first_block src"]
    obtain bs where "files fs (fre_inode src) = Some bs" "?s + len \<le> length (concat bs)"
      "data = subslice (concat bs) ?s (?s + len)"
      using r by (auto simp: contents_def split: option.splits if_splits)
    then show ?thesis
      using patch [OF w] user_step.copy_range [OF _ refl] by (simp add: refines_def user_view_def)
  qed
qed

lemma refines_resizing:
  assumes "sb_ok sb" and "fs_typed sb fs" and "consistent fs"
  shows "append_spec sb i img fs = Inr (b, fs') \<Longrightarrow> refines (Append i img) (Block b) fs fs'"
    and "append_blocks_spec sb i imgs fs = Inr (bs, fs') \<Longrightarrow> refines (Append_Blocks i imgs) (Blocks bs) fs fs'"
    and "insert_spec sb i j img fs = Inr (b, fs') \<Longrightarrow> refines (Insert i j img) (Block b) fs fs'"
  using append_law [OF assms(1,3,2), of i img b fs'] append_blocks_law [OF assms(1,3,2), of i imgs bs fs']
    insert_law [OF assms(1,3,2), of i j img b fs']
  by (auto simp: refines_def user_view_def insert_at_def intro: user_step.append user_step.append_blocks user_step.insert)

lemma truncated:
  assumes "sb_ok sb" and "fs_typed sb fs" and "consistent fs" and "truncate_blocks_spec sb i n fs = Inr (old, fs')"
  shows "consistent fs' \<and> names fs' = names fs \<and>
    (\<exists>bs. files fs i = Some bs \<and> n \<le> length bs \<and> length old = length bs - n \<and> files fs' = (files fs)(i \<mapsto> take n bs))"
  using truncate_blocks_law [OF assms(1,3,2), of i n] assms(4) by (auto split: option.splits if_splits)

lemma refines_truncation:
  assumes "sb_ok sb" and "fs_typed sb fs" and "consistent fs"
  shows "truncate_zero_spec sb i fs = Inr (u, fs') \<Longrightarrow> refines (Truncate_Zero i) Done fs fs'"
    and "truncate_blocks_spec sb i n fs = Inr (old, fs') \<Longrightarrow> refines (Truncate_Blocks i n) (Blocks old) fs fs'"
    and "truncate_last_spec sb i fs = Inr (b, fs') \<Longrightarrow> refines (Truncate_Last i) (Block b) fs fs'"
proof -
  note cut = truncated [OF assms]
  show "refines (Truncate_Zero i) Done fs fs'" if "truncate_zero_spec sb i fs = Inr (u, fs')"
    using that by (auto simp: truncate_zero_law bindR_Inr_iff refines_def user_view_def dest!: cut intro: user_step.truncate_zero)
  show "refines (Truncate_Blocks i n) (Blocks old) fs fs'" if "truncate_blocks_spec sb i n fs = Inr (old, fs')"
    using cut [OF that] by (auto simp: refines_def user_view_def intro: user_step.truncate_blocks)
  show "refines (Truncate_Last i) (Block b) fs fs'" if last: "truncate_last_spec sb i fs = Inr (b, fs')"
  proof -
    obtain bs old where bs: "files fs i = Some bs" "bs \<noteq> []" "truncate_blocks_spec sb i (length bs - 1) fs = Inr (old, fs')"
      using last by (auto simp: truncate_last_law bindR_Inr_iff split: option.splits if_splits)
    show ?thesis
      using cut [OF bs(3)] bs(1,2) user_step.truncate_last [of "files fs" i bs]
      by (simp add: refines_def user_view_def butlast_conv_take)
  qed
qed

lemma op_refines:
  assumes "sb_ok sb" and "fs_typed sb fs" and "consistent fs" and "op_legal op" and "op_spec sb op fs = Inr (y, fs')"
  shows "refines op y fs fs'"
  using assms(4,5)
  by (cases op)
    (auto simp: result_with_Inr intro: refines_create [OF assms(1,2)] refines_entries [OF assms(1-3)]
      refines_removal [OF assms(1-3)] refines_blocks [OF assms(2,3)] refines_ranges [OF assms(2,3)]
      refines_resizing [OF assms(1-3)] refines_truncation [OF assms(1-3)])

section \<open>Sessions\<close>

fun run_session ::
  "superblock \<Rightarrow> (fs_op \<times> nat option) list \<Rightarrow> crash_device \<Rightarrow> fs_value res list \<times> crash_device" where
  "run_session sb [] dev = ([], dev)"
| "run_session sb ((op, crash_at) # ops) dev =
     (case crash_and_recover sb crash_at (run_op crash_ops sb op) dev of (r, _, dev1) \<Rightarrow>
        case run_session sb ops dev1 of (rs, dev') \<Rightarrow> (r # rs, dev'))"

text \<open>
  The results of a session explained by steps of the user's view: a successful operation is its
  step, with the value it returned; a failed or interrupted one is its step or nothing.
\<close>

inductive explains :: "(fs_op \<times> fs_value res) list \<Rightarrow> user_view \<Rightarrow> user_view \<Rightarrow> bool" where
  finished: "explains [] V V"
| took_effect: "user_step op y V V1 \<Longrightarrow> \<forall>x. r = Inr x \<longrightarrow> x = y \<Longrightarrow> explains hist V1 V' \<Longrightarrow>
    explains ((op, r) # hist) V V'"
| no_effect: "\<not> is_ok r \<Longrightarrow> explains hist V V' \<Longrightarrow> explains ((op, r) # hist) V V'"

lemma session_step:
  assumes "sb_ok sb" and "cd_mounted sb dev fs" and "consistent fs" and "op_legal op"
    and "crash_and_recover sb crash_at (run_op crash_ops sb op) dev = (r, rep, dev')"
  shows "\<exists>fs'. cd_mounted sb dev' fs' \<and> consistent fs' \<and>
    (fs' = fs \<and> \<not> is_ok r \<or> (\<exists>y. user_step op y (user_view fs) (user_view fs') \<and> (\<forall>x. r = Inr x \<longrightarrow> x = y)))"
proof -
  have typed: "fs_typed sb fs" using assms(2) by (simp add: cd_mounted_def mounted_def)
  have "crash_outcome sb id (op_spec sb op) fs crash_at (r, rep, dev')"
    unfolding assms(5) [symmetric]
    by (rule crash_safe_outcome [where P = consistent, OF assms(1-3) op_crash_safe [OF assms(1,4)]])
  then obtain fs' where fs': "cd_mounted sb dev' fs'" "fs' = fs \<or> (\<exists>y. op_spec sb op fs = Inr (y, fs'))"
    "\<forall>x. r = Inr x \<longrightarrow> op_spec sb op fs = Inr (x, fs')"
    by (auto simp: crash_outcome_def)
  have eff: "user_step op y (user_view fs) (user_view fs')" "consistent fs'" if "op_spec sb op fs = Inr (y, fs')" for y
    using op_refines [OF assms(1) typed assms(3,4) that] by (simp_all add: refines_def)
  show ?thesis
  proof (cases "\<exists>y. op_spec sb op fs = Inr (y, fs')")
    case True
    then show ?thesis using fs' eff by fastforce
  next
    case False
    then show ?thesis using fs' assms(3) by (cases r) auto
  qed
qed

lemma session_explained:
  assumes "sb_ok sb" and "cd_mounted sb dev fs" and "consistent fs" and "list_all (\<lambda>(op, _). op_legal op) ops"
    and "run_session sb ops dev = (rs, dev')"
  shows "\<exists>fs'. cd_mounted sb dev' fs' \<and> consistent fs' \<and> length rs = length ops \<and>
    explains (zip (map fst ops) rs) (user_view fs) (user_view fs')"
  using assms(2-5)
proof (induction ops arbitrary: dev fs rs)
  case Nil
  then show ?case by (auto intro: explains.finished)
next
  case (Cons oc ops)
  obtain op crash_at where oc: "oc = (op, crash_at)" by (cases oc)
  obtain r rep dev1 where one: "crash_and_recover sb crash_at (run_op crash_ops sb op) dev = (r, rep, dev1)"
    using prod_cases3 by blast
  obtain rs1 where rest: "run_session sb ops dev1 = (rs1, dev')" and rs: "rs = r # rs1"
    using Cons.prems(4) by (auto simp: oc one split: prod.splits)
  have legal: "op_legal op" "list_all (\<lambda>(op, _). op_legal op) ops" using Cons.prems(3) by (simp_all add: oc)
  obtain fs1 where fs1: "cd_mounted sb dev1 fs1" "consistent fs1"
    "fs1 = fs \<and> \<not> is_ok r \<or> (\<exists>y. user_step op y (user_view fs) (user_view fs1) \<and> (\<forall>x. r = Inr x \<longrightarrow> x = y))"
    using session_step [OF assms(1) Cons.prems(1,2) legal(1) one] by blast
  obtain fs' where fs': "cd_mounted sb dev' fs'" "consistent fs'" "length rs1 = length ops"
    "explains (zip (map fst ops) rs1) (user_view fs1) (user_view fs')"
    using Cons.IH [OF fs1(1,2) legal(2) rest] by blast
  have "explains ((op, r) # zip (map fst ops) rs1) (user_view fs) (user_view fs')"
    using fs1(3) fs'(4) explains.took_effect explains.no_effect by blast
  then show ?case using fs' by (auto simp: oc rs)
qed

lemma fsck_accepts:
  assumes "sb_ok sb" and "cd_mounted sb dev fs" and "consistent fs"
  shows "is_ok (fst (check_device crash_ops dev))"
  using crash_reads [where P = "\<lambda>_. True", OF assms(2) TrueI crash_dev.reads_check_device [OF assms(1)]] assms(3)
  by (auto simp: io_bind_def io_return_def is_ok_iff split: prod.splits sum.splits)

text \<open>C2. Every operation acts on the user's view as its step. On a consistent file system, an accepted
  operation changes the map from names to inodes and the contents of the files as the step of that
  operation says: a rename moves one name, a link adds one, a write changes one file at the stated
  blocks or bytes, an append, an insertion or a truncation changes the length of one file, and all
  other names and files stay as they are. The new state is consistent again.\<close>

theorem operation_refines_user_view:
  assumes "sb_ok sb" and "fs_typed sb fs" and "consistent fs" and "op_legal op" and "op_spec sb op fs = Inr (y, fs')"
  shows "user_step op y (user_view fs) (user_view fs') \<and> consistent fs'"
  using op_refines [OF assms] by (simp add: refines_def)

theorem operation_refines_user_view_witness:
  "\<exists>fs'. op_spec disk_superblock (Truncate_Blocks 2 1) disk_fs = Inr (Blocks [23], fs') \<and>
     user_step (Truncate_Blocks 2 1) (Blocks [23]) (user_view disk_fs) (user_view fs') \<and> consistent fs'"
proof -
  have typed: "fs_typed disk_superblock disk_fs" using populated_mounted by (simp add: cd_mounted_def mounted_def)
  have find: "find_file (fs_inodes disk_fs) 2 = Inr 1" by (simp add: find_file_def disk_inodes_def)
  obtain fs' where "shrink_spec disk_superblock 1 1 disk_fs = Inr ((), fs')"
    using shrink_law [OF disk_superblock_ok disk_fs_consistent typed find] by blast
  then have "op_spec disk_superblock (Truncate_Blocks 2 1) disk_fs = Inr (Blocks [23], fs')"
    using find by (simp add: result_with_def truncate_blocks_spec_def Let_def disk_inodes_def)
  then show ?thesis
    using operation_refines_user_view [OF disk_superblock_ok typed disk_fs_consistent, of "Truncate_Blocks 2 1"] by auto
qed

end
