(* ===== verification/FS_Cache.thy ===== *)
theory FS_Cache
  imports FS_Crash_Device "HOL-Library.RBT"
begin

text \<open>
  The write-back buffer cache of \<^verbatim>\<open>cache.rs\<close> over any device of the contract. The
  \<^verbatim>\<open>BTreeMap\<close> of buffers is a search tree of the library, whose keys come in ascending order. The
  lemmas show that the cache is transparent: reads see the last write, whatever is written back,
  flushed or evicted in between and whichever device operations fail; and that data which is not
  known to be durable never leaves the cache.
\<close>

section \<open>BufferCache\<close>

datatype buffer_state = Clean | Dirty | Writeback

record cache_entry =
  ce_data :: bytes
  ce_state :: buffer_state

record 'd buffer_cache =
  bc_device :: 'd
  bc_entries :: "(u64, cache_entry) RBT.rbt"

definition cache_new :: "'d \<Rightarrow> 'd buffer_cache" where
  "cache_new device = \<lparr>bc_device = device, bc_entries = RBT.empty\<rparr>"

definition cached_blocks :: "'d buffer_cache \<Rightarrow> nat" where
  "cached_blocks cache = length (RBT.keys (bc_entries cache))"

definition cache_state :: "'d buffer_cache \<Rightarrow> u64 \<Rightarrow> buffer_state option" where
  "cache_state cache block = map_option ce_state (RBT.lookup (bc_entries cache) block)"

text \<open>Running a device operation, and updating the map.\<close>

definition on_device :: "('d, 'a) io \<Rightarrow> ('d buffer_cache, 'a) io" where
  "on_device m = (\<lambda>cache. case m (bc_device cache) of (r, d) \<Rightarrow> (r, cache\<lparr>bc_device := d\<rparr>))"

definition edit_entries ::
  "((u64, cache_entry) RBT.rbt \<Rightarrow> (u64, cache_entry) RBT.rbt) \<Rightarrow> ('d buffer_cache, unit) io" where
  "edit_entries f = (\<lambda>cache. (Inr (), cache\<lparr>bc_entries := f (bc_entries cache)\<rparr>))"

definition cache_validate_block :: "'d block_device \<Rightarrow> u64 \<Rightarrow> ('d buffer_cache, unit) io" where
  "cache_validate_block D block =
     io_look (\<lambda>cache. if block \<ge> block_count D (bc_device cache) then Inl UnexpectedEof else Inr ())"

definition cache_read_block :: "'d block_device \<Rightarrow> u64 \<Rightarrow> ('d buffer_cache, bytes) io" where
  "cache_read_block D block =
     io_bind (cache_validate_block D block) (\<lambda>_.
     io_bind (io_look (\<lambda>cache. Inr (RBT.lookup (bc_entries cache) block))) (\<lambda>entry.
     io_bind
       (case entry of
          None \<Rightarrow> io_bind (on_device (read_block D block)) (\<lambda>data.
            edit_entries (RBT.insert block \<lparr>ce_data = data, ce_state = Clean\<rparr>))
        | Some _ \<Rightarrow> io_return ()) (\<lambda>_.
       io_look (\<lambda>cache. ok_or OtherError (map_option ce_data (RBT.lookup (bc_entries cache) block))))))"

definition cache_write_block :: "'d block_device \<Rightarrow> u64 \<Rightarrow> bytes \<Rightarrow> ('d buffer_cache, unit) io" where
  "cache_write_block D block data =
     io_bind (cache_validate_block D block) (\<lambda>_.
       edit_entries (RBT.insert block \<lparr>ce_data = data, ce_state = Dirty\<rparr>))"

definition cache_write_back :: "'d block_device \<Rightarrow> u64 \<Rightarrow> ('d buffer_cache, unit) io" where
  "cache_write_back D block =
     io_bind (io_look (\<lambda>cache. ok_or NotFound (RBT.lookup (bc_entries cache) block))) (\<lambda>entry.
       if ce_state entry \<noteq> Dirty then io_return ()
       else
         io_bind (on_device (write_block D block (ce_data entry))) (\<lambda>_.
           edit_entries (RBT.map_entry block (\<lambda>entry. entry\<lparr>ce_state := Writeback\<rparr>))))"

definition dirty_blocks :: "'d buffer_cache \<Rightarrow> u64 list" where
  "dirty_blocks cache =
     map fst (filter (\<lambda>(_, entry). ce_state entry = Dirty) (RBT.entries (bc_entries cache)))"

definition cache_flush :: "'d block_device \<Rightarrow> ('d buffer_cache, unit) io" where
  "cache_flush D =
     io_bind (io_look (\<lambda>cache. Inr (dirty_blocks cache))) (\<lambda>blocks.
     io_bind (io_iter (cache_write_back D) blocks) (\<lambda>_.
     io_bind (io_look (\<lambda>cache. Inr (list_ex (\<lambda>(_, entry). ce_state entry = Writeback)
                                        (RBT.entries (bc_entries cache))))) (\<lambda>pending.
       if pending
       then
         io_bind (on_device (flush D)) (\<lambda>_.
           edit_entries (RBT.map (\<lambda>_ entry.
             if ce_state entry = Writeback then entry\<lparr>ce_state := Clean\<rparr> else entry)))
       else io_return ())))"

definition cache_evict :: "u64 \<Rightarrow> ('d buffer_cache, unit) io" where
  "cache_evict block =
     io_bind (io_look (\<lambda>cache. ok_or NotFound (RBT.lookup (bc_entries cache) block))) (\<lambda>entry.
       if ce_state entry \<noteq> Clean then io_fail WouldBlock else edit_entries (RBT.delete block))"

definition cache_validate_invariants :: "'d block_device \<Rightarrow> 'd buffer_cache \<Rightarrow> unit res" where
  "cache_validate_invariants D cache =
     (if list_ex (\<lambda>block. block \<ge> block_count D (bc_device cache)) (RBT.keys (bc_entries cache))
      then Inl InvalidData else Inr ())"

definition into_inner :: "'d buffer_cache \<Rightarrow> 'd" where
  "into_inner cache = bc_device cache"

section \<open>The contents behind the cache\<close>

definition through :: "'d buffer_cache \<Rightarrow> (u64 \<Rightarrow> bytes) \<Rightarrow> u64 \<Rightarrow> bytes" where
  "through c v b = (case RBT.lookup (bc_entries c) b of None \<Rightarrow> v b | Some e \<Rightarrow> ce_data e)"

lemma through_device [simp]: "through (c\<lparr>bc_device := d\<rparr>) = through c"
  by (simp add: through_def fun_eq_iff)

text \<open>
  The buffers agree with the device where they claim to: a buffer that is not dirty holds what the
  device reads, and a block whose visible contents are not yet durable has a buffer that is not
  clean.
\<close>

definition buffers_ok :: "u64 \<Rightarrow> (u64 \<Rightarrow> bytes) \<Rightarrow> (u64 \<Rightarrow> bytes) \<Rightarrow> (u64, cache_entry) RBT.rbt \<Rightarrow> bool" where
  "buffers_ok n v u es \<longleftrightarrow>
     (\<forall>b e. RBT.lookup es b = Some e \<longrightarrow>
        b < n \<and> length (ce_data e) = BLOCK_SIZE \<and> (ce_state e \<noteq> Dirty \<longrightarrow> ce_data e = v b)) \<and>
     (\<forall>b. u b \<noteq> v b \<longrightarrow> (\<exists>e. RBT.lookup es b = Some e \<and> ce_state e \<noteq> Clean))"

lemma wp_on_device [wp_simps]:
  "wp (on_device m) Q E = (\<lambda>c. wp m (\<lambda>x d. Q x (c\<lparr>bc_device := d\<rparr>)) (\<lambda>e d. E e (c\<lparr>bc_device := d\<rparr>)) (bc_device c))"
  by (auto simp: wp_def on_device_def fun_eq_iff split: prod.splits sum.splits)

lemma wp_edit_entries [wp_simps]:
  "wp (edit_entries f) Q E = (\<lambda>c. Q () (c\<lparr>bc_entries := f (bc_entries c)\<rparr>))"
  by (simp add: wp_def edit_entries_def fun_eq_iff)

text \<open>
  The cache over a device: reading through it gives \<open>m\<close>, and \<open>u\<close> would survive a power failure.
\<close>

definition cache_at ::
  "(u64 \<Rightarrow> (u64 \<Rightarrow> bytes) \<Rightarrow> (u64 \<Rightarrow> bytes) \<Rightarrow> 'd \<Rightarrow> bool) \<Rightarrow> u64 \<Rightarrow> (u64 \<Rightarrow> bytes) \<Rightarrow> (u64 \<Rightarrow> bytes) \<Rightarrow>
   'd buffer_cache \<Rightarrow> bool" where
  "cache_at at n m u c \<longleftrightarrow>
     (\<exists>v. at n v u (bc_device c) \<and> buffers_ok n v u (bc_entries c) \<and> through c v = m)"

lemma cache_settled:
  assumes "cache_at at n m u c" and "cache_state c b = None \<or> cache_state c b = Some Clean"
  shows "u b = m b"
proof -
  obtain v where v: "buffers_ok n v u (bc_entries c)" "through c v = m" using assms(1) by (auto simp: cache_at_def)
  show ?thesis
  proof (cases "RBT.lookup (bc_entries c) b")
    case None
    then show ?thesis using v by (auto simp: buffers_ok_def through_def)
  next
    case (Some e)
    then have "ce_state e = Clean" using assms(2) by (simp add: cache_state_def)
    then show ?thesis using v Some by (fastforce simp: buffers_ok_def through_def)
  qed
qed

context block_dev
begin

lemma cache_count: "cache_at at n m u c \<Longrightarrow> block_count D (bc_device c) = n"
  by (auto simp: cache_at_def dev_at_def)

lemma cache_read_law:
  assumes "cache_at at n m u c"
  shows "wp (cache_read_block D b) (\<lambda>x c'. cache_at at n m u c' \<and> b < n \<and> x = m b)
    (\<lambda>e c'. c' = c \<and> e = UnexpectedEof \<and> \<not> b < n) c"
proof -
  obtain v where v: "at n v u (bc_device c)" "buffers_ok n v u (bc_entries c)" "through c v = m"
    using assms by (auto simp: cache_at_def)
  show ?thesis
  proof (cases "b < n")
    case False
    then show ?thesis using cache_count [OF assms] by (simp add: cache_read_block_def cache_validate_block_def wp_simps not_less)
  next
    case True
    note in_range = True
    show ?thesis
    proof (cases "RBT.lookup (bc_entries c) b")
      case (Some e)
      then show ?thesis
        using True cache_count [OF assms] assms v(3)
        by (auto simp: cache_read_block_def cache_validate_block_def wp_simps ok_or_def through_def)
    next
      case None
      have vb: "v b = m b" using fun_cong [OF v(3), of b] None by (simp add: through_def)
      have fill: "cache_at at n m u (c\<lparr>bc_device := d, bc_entries := RBT.insert b \<lparr>ce_data = v b, ce_state = Clean\<rparr> (bc_entries c)\<rparr>)"
        if "at n v u d" for d
      proof -
        have "u b = v b" using v(2) None by (auto simp: buffers_ok_def)
        then have "buffers_ok n v u (RBT.insert b \<lparr>ce_data = v b, ce_state = Clean\<rparr> (bc_entries c))"
          using v(2) True view_length [OF v(1) True] by (auto simp: buffers_ok_def)
        moreover have "through (c\<lparr>bc_device := d, bc_entries := RBT.insert b \<lparr>ce_data = v b, ce_state = Clean\<rparr> (bc_entries c)\<rparr>) v = m"
          using v(3) vb by (auto simp: through_def fun_eq_iff)
        ultimately show ?thesis using that by (auto simp: cache_at_def)
      qed
      show ?thesis
        using True cache_count [OF assms] fill vb
        by (auto simp: cache_read_block_def cache_validate_block_def wp_simps None ok_or_def intro!: wp_mono [OF read_law [OF v(1)]])
    qed
  qed
qed

lemma cache_write_law:
  assumes "cache_at at n m u c" and "length data = BLOCK_SIZE"
  shows "wp (cache_write_block D b data) (\<lambda>_ c'. cache_at at n (m(b := data)) u c' \<and> b < n)
    (\<lambda>e c'. c' = c \<and> e = UnexpectedEof \<and> \<not> b < n) c"
proof -
  obtain v where v: "at n v u (bc_device c)" "buffers_ok n v u (bc_entries c)" "through c v = m"
    using assms by (auto simp: cache_at_def)
  let ?c = "c\<lparr>bc_entries := RBT.insert b \<lparr>ce_data = data, ce_state = Dirty\<rparr> (bc_entries c)\<rparr>"
  have "cache_at at n (m(b := data)) u ?c" if "b < n"
    unfolding cache_at_def
    by (rule exI [of _ v]) (use v that assms(2) in \<open>auto simp: buffers_ok_def through_def fun_eq_iff\<close>)
  then show ?thesis
    using cache_count [OF assms(1)] by (auto simp: cache_write_block_def cache_validate_block_def wp_simps not_less)
qed

lemma cache_evict_law:
  assumes "cache_at at n m u c"
  shows "wp (cache_evict b) (\<lambda>_ c'. cache_at at n m u c' \<and> cache_state c b = Some Clean \<and> cache_state c' b = None)
    (\<lambda>_ c'. c' = c \<and> cache_state c b \<noteq> Some Clean) c"
proof -
  obtain v where v: "at n v u (bc_device c)" "buffers_ok n v u (bc_entries c)" "through c v = m"
    using assms by (auto simp: cache_at_def)
  let ?c = "c\<lparr>bc_entries := RBT.delete b (bc_entries c)\<rparr>"
  have "cache_at at n m u ?c" if e: "RBT.lookup (bc_entries c) b = Some e" "ce_state e = Clean" for e
  proof -
    have "ce_data e = v b" "u b = v b" using v(2) e unfolding buffers_ok_def by (force, metis option.inject)
    moreover from this have "v b = m b" using fun_cong [OF v(3), of b] e(1) by (simp add: through_def)
    ultimately show ?thesis
      unfolding cache_at_def using v e(1)
      by (intro exI [of _ v]) (auto simp: buffers_ok_def through_def fun_eq_iff restrict_map_def split: if_splits)
  qed
  then show ?thesis
    by (cases "RBT.lookup (bc_entries c) b") (auto simp: cache_evict_def cache_state_def wp_simps ok_or_def)
qed

text \<open>Writing back keeps the contents and the other buffers; afterwards the buffer is not dirty.\<close>

lemma cache_write_back_law:
  assumes "cache_at at n m u c"
  shows "wp (cache_write_back D b)
    (\<lambda>_ c'. cache_at at n m u c' \<and> dom (cache_state c') = dom (cache_state c) \<and>
       (\<forall>a. cache_state c' a = Some Dirty \<longrightarrow> a \<noteq> b \<and> cache_state c a = Some Dirty))
    (\<lambda>_ c'. cache_at at n m u c' \<and> (cache_state c b \<noteq> None \<longrightarrow> faulty)) c"
proof -
  obtain v where v: "at n v u (bc_device c)" "buffers_ok n v u (bc_entries c)" "through c v = m"
    using assms by (auto simp: cache_at_def)
  show ?thesis
  proof (cases "RBT.lookup (bc_entries c) b")
    case None
    then show ?thesis using assms by (simp add: cache_write_back_def cache_state_def wp_simps ok_or_def)
  next
    case (Some e)
    have e: "b < n" "length (ce_data e) = BLOCK_SIZE" using v(2) Some by (auto simp: buffers_ok_def)
    show ?thesis
    proof (cases "ce_state e = Dirty")
      case False
      then show ?thesis
        using assms Some by (auto simp: cache_write_back_def cache_state_def wp_simps ok_or_def)
    next
      case True
      let ?es = "RBT.map_entry b (\<lambda>e. e\<lparr>ce_state := Writeback\<rparr>) (bc_entries c)" and ?v = "v(b := ce_data e)"
      have es: "RBT.lookup ?es = (RBT.lookup (bc_entries c))(b \<mapsto> e\<lparr>ce_state := Writeback\<rparr>)" by (simp add: Some)
      have "a < n \<and> length (ce_data x) = BLOCK_SIZE \<and> (ce_state x \<noteq> Dirty \<longrightarrow> ce_data x = ?v a)"
        if "RBT.lookup ?es a = Some x" for a x
        using that v(2) e unfolding es buffers_ok_def by (cases "a = b") auto
      moreover have "\<exists>x. RBT.lookup ?es a = Some x \<and> ce_state x \<noteq> Clean" if "u a \<noteq> ?v a" for a
        using that v(2) unfolding es buffers_ok_def by (cases "a = b") auto
      ultimately have ok: "buffers_ok n ?v u ?es" unfolding buffers_ok_def by blast
      have "through (c\<lparr>bc_device := d, bc_entries := ?es\<rparr>) ?v = m" for d
      proof
        fix a
        show "through (c\<lparr>bc_device := d, bc_entries := ?es\<rparr>) ?v a = m a"
          using fun_cong [OF v(3), of a] Some by (cases "a = b") (auto simp: through_def split: option.splits)
      qed
      then have "cache_at at n m u (c\<lparr>bc_device := d, bc_entries := ?es\<rparr>)" if "at n ?v u d" for d
        unfolding cache_at_def using that ok by (intro exI [of _ ?v]) simp
      moreover have "cache_at at n m u (c\<lparr>bc_device := d\<rparr>)" if "at n v u d" for d
        unfolding cache_at_def using v that by (intro exI [of _ v]) simp
      moreover have "dom (cache_state (c\<lparr>bc_device := d, bc_entries := ?es\<rparr>)) = dom (cache_state c)" for d
        by (auto simp: cache_state_def Some split: if_splits)
      moreover have "cache_state (c\<lparr>bc_device := d, bc_entries := ?es\<rparr>) a = Some Dirty \<longrightarrow>
          a \<noteq> b \<and> cache_state c a = Some Dirty" for d a
        by (auto simp: cache_state_def Some)
      ultimately show ?thesis
        using e(1) Some
        by (auto simp: cache_write_back_def wp_simps ok_or_def True intro!: wp_mono [OF write_law [OF v(1) e(2)]])
    qed
  qed
qed

lemma cache_flush_law:
  assumes "cache_at at n m u c" and syncs
  shows "wp (cache_flush D)
    (\<lambda>_ c'. cache_at at n m m c' \<and> (\<forall>b. cache_state c' b = None \<or> cache_state c' b = Some Clean))
    (\<lambda>_ c'. cache_at at n m u c' \<and> faulty) c"
proof -
  let ?Q = "\<lambda>_ c'. cache_at at n m m c' \<and> (\<forall>b. cache_state c' b = None \<or> cache_state c' b = Some Clean)"
  let ?E = "\<lambda>_ c'. cache_at at n m u c' \<and> faulty"
  let ?I = "\<lambda>done c'. cache_at at n m u c' \<and> dom (cache_state c') = dom (cache_state c) \<and>
    (\<forall>b. cache_state c' b = Some Dirty \<longrightarrow> b \<in> set (dirty_blocks c) - set done)"
  have loop: "wp (io_iter (cache_write_back D) (dirty_blocks c)) (\<lambda>_. ?I (dirty_blocks c)) ?E c"
  proof (rule wp_iter_inv [where I = ?I])
    have "b \<in> set (dirty_blocks c)" if "cache_state c b = Some Dirty" for b
      using that by (force simp: cache_state_def dirty_blocks_def lookup_in_tree [symmetric])
    then show "?I [] c" using assms(1) by auto
  next
    fix finished b todo c'
    assume split: "dirty_blocks c = finished @ b # todo" and I: "?I finished c'"
    have "b \<in> set (dirty_blocks c)" using split by simp
    then have "cache_state c b \<noteq> None" by (auto simp: cache_state_def dirty_blocks_def lookup_in_tree [symmetric])
    then have known: "cache_state c' b \<noteq> None" using I by blast
    show "wp (cache_write_back D b) (\<lambda>_. ?I (finished @ [b])) ?E c'"
      by (rule wp_mono [OF cache_write_back_law]) (use I known in auto)
  qed
  have rest: "wp (io_bind (io_look (\<lambda>cache. Inr (list_ex (\<lambda>(_, entry). ce_state entry = Writeback)
                                        (RBT.entries (bc_entries cache))))) (\<lambda>pending.
       if pending
       then
         io_bind (on_device (flush D)) (\<lambda>_.
           edit_entries (RBT.map (\<lambda>_ entry.
             if ce_state entry = Writeback then entry\<lparr>ce_state := Clean\<rparr> else entry)))
       else io_return ())) ?Q ?E c'" if c': "cache_at at n m u c'" "\<forall>b. cache_state c' b \<noteq> Some Dirty" for c'
  proof -
    let ?clean = "RBT.map (\<lambda>_ entry. if ce_state entry = Writeback then entry\<lparr>ce_state := Clean\<rparr> else entry)"
    obtain v where v: "at n v u (bc_device c')" "buffers_ok n v u (bc_entries c')" "through c' v = m"
      using c'(1) by (auto simp: cache_at_def)
    have e: "b < n" "length (ce_data e) = BLOCK_SIZE" "ce_data e = v b" "ce_state e \<noteq> Dirty"
      if "RBT.lookup (bc_entries c') b = Some e" for b e
    proof -
      show "ce_state e \<noteq> Dirty" using that c'(2) [rule_format, of b] by (auto simp: cache_state_def)
      then show "b < n" "length (ce_data e) = BLOCK_SIZE" "ce_data e = v b"
        using v(2) that unfolding buffers_ok_def by blast+
    qed
    have m: "v = m" using v(3) e(3) by (auto simp: through_def fun_eq_iff split: option.splits)
    show ?thesis
    proof (cases "list_ex (\<lambda>(_, entry). ce_state entry = Writeback) (RBT.entries (bc_entries c'))")
      case False
      then have clean: "ce_state e = Clean" if "RBT.lookup (bc_entries c') b = Some e" for b e
        using that e(4) [OF that] by (cases "ce_state e") (auto simp: list_ex_iff lookup_in_tree)
      then have "u b = v b" for b using v(2) by (auto simp: buffers_ok_def)
      then have "u = m" using m by auto
      then show ?thesis
        using False c'(1) clean by (auto simp: wp_simps cache_state_def split: option.splits)
    next
      case True
      have "buffers_ok n v v (?clean (bc_entries c'))" using e by (fastforce simp: buffers_ok_def)
      moreover have "through (c'\<lparr>bc_device := d, bc_entries := ?clean (bc_entries c')\<rparr>) v = m" for d
        using m e(3) by (auto simp: through_def fun_eq_iff split: option.splits)
      ultimately have "cache_at at n m m (c'\<lparr>bc_device := d, bc_entries := ?clean (bc_entries c')\<rparr>)" if "at n v v d" for d
        unfolding cache_at_def using that m by (intro exI [of _ v]) simp
      moreover have "cache_at at n m u (c'\<lparr>bc_device := d\<rparr>)" if "at n v u d" for d
        unfolding cache_at_def using v that by (intro exI [of _ v]) simp
      moreover have "cache_state (c'\<lparr>bc_device := d, bc_entries := ?clean (bc_entries c')\<rparr>) b \<in> {None, Some Clean}" for d b
        using e(4) [of b] by (cases "RBT.lookup (bc_entries c') b") (auto simp: cache_state_def intro: buffer_state.exhaust)
      ultimately show ?thesis
        using True assms(2) by (auto simp: wp_simps intro!: wp_mono [OF flush_law [OF v(1)]])
    qed
  qed
  show ?thesis
    unfolding cache_flush_def
    by (subst wp_bind, subst wp_look, simp only: sum.case, subst wp_bind)
      (rule wp_mono [OF loop], rule rest, auto)
qed

end

section \<open>Histories\<close>

datatype cache_op = Cache_Read u64 | Cache_Write u64 bytes | Cache_Write_Back u64 | Cache_Flush | Cache_Evict u64

primrec run_cache_op :: "'d block_device \<Rightarrow> cache_op \<Rightarrow> ('d buffer_cache, bytes option) io" where
  "run_cache_op D (Cache_Read b) = io_bind (cache_read_block D b) (\<lambda>x. io_return (Some x))"
| "run_cache_op D (Cache_Write b x) = io_bind (cache_write_block D b x) (\<lambda>_. io_return None)"
| "run_cache_op D (Cache_Write_Back b) = io_bind (cache_write_back D b) (\<lambda>_. io_return None)"
| "run_cache_op D Cache_Flush = io_bind (cache_flush D) (\<lambda>_. io_return None)"
| "run_cache_op D (Cache_Evict b) = io_bind (cache_evict b) (\<lambda>_. io_return None)"

fun run_cache :: "'d block_device \<Rightarrow> cache_op list \<Rightarrow> 'd buffer_cache \<Rightarrow> bytes option res list \<times> 'd buffer_cache" where
  "run_cache D [] c = ([], c)"
| "run_cache D (op # ops) c =
     (case run_cache_op D op c of (r, c1) \<Rightarrow> case run_cache D ops c1 of (rs, c') \<Rightarrow> (r # rs, c'))"

text \<open>
  The same history on a plain array of blocks, where writing back, flushing and evicting mean
  nothing: a read or write is answered by its block and range alone.
\<close>

primrec answer_ok :: "u64 \<Rightarrow> (u64 \<Rightarrow> bytes) \<Rightarrow> cache_op \<Rightarrow> bytes option res \<Rightarrow> bool" where
  "answer_ok n m (Cache_Read b) r \<longleftrightarrow> r = (if b < n then Inr (Some (m b)) else Inl UnexpectedEof)"
| "answer_ok n m (Cache_Write b x) r \<longleftrightarrow> r = (if b < n then Inr None else Inl UnexpectedEof)"
| "answer_ok n m (Cache_Write_Back b) r \<longleftrightarrow> True"
| "answer_ok n m Cache_Flush r \<longleftrightarrow> True"
| "answer_ok n m (Cache_Evict b) r \<longleftrightarrow> True"

fun array_after :: "cache_op \<Rightarrow> bytes option res \<Rightarrow> (u64 \<Rightarrow> bytes) \<Rightarrow> u64 \<Rightarrow> bytes" where
  "array_after (Cache_Write b x) (Inr _) m = m(b := x)"
| "array_after _ _ m = m"

fun array_history ::
  "u64 \<Rightarrow> (cache_op \<times> bytes option res) list \<Rightarrow> (u64 \<Rightarrow> bytes) \<Rightarrow> (u64 \<Rightarrow> bytes) \<Rightarrow> bool" where
  "array_history n [] m m' \<longleftrightarrow> m' = m"
| "array_history n ((op, r) # hist) m m' \<longleftrightarrow>
     answer_ok n m op r \<and> array_history n hist (array_after op r m) m'"

fun cache_op_ok :: "cache_op \<Rightarrow> bool" where
  "cache_op_ok (Cache_Write b x) \<longleftrightarrow> length x = BLOCK_SIZE"
| "cache_op_ok _ \<longleftrightarrow> True"

context block_dev
begin

lemma cache_op_law:
  assumes "cache_at at n m u c" and "cache_op_ok op" and syncs and "run_cache_op D op c = (r, c')"
  shows "answer_ok n m op r \<and> (\<exists>u'. cache_at at n (array_after op r m) u' c')"
proof (cases op)
  case (Cache_Read b)
  then show ?thesis
    using cache_read_law [OF assms(1), of b] assms(1,4)
    by (auto simp: wp_def io_bind_def io_return_def split: prod.splits sum.splits)
next
  case (Cache_Write b x)
  then show ?thesis
    using cache_write_law [OF assms(1), of x b] assms(1,2,4)
    by (auto simp: wp_def io_bind_def io_return_def split: prod.splits sum.splits)
next
  case (Cache_Write_Back b)
  then show ?thesis
    using cache_write_back_law [OF assms(1), of b] assms(4)
    by (auto simp: wp_def io_bind_def io_return_def split: prod.splits sum.splits)
next
  case Cache_Flush
  then show ?thesis
    using cache_flush_law [OF assms(1,3)] assms(4)
    by (auto simp: wp_def io_bind_def io_return_def split: prod.splits sum.splits)
next
  case (Cache_Evict b)
  then show ?thesis
    using cache_evict_law [OF assms(1), of b] assms(1,4)
    by (auto simp: wp_def io_bind_def io_return_def split: prod.splits sum.splits)
qed

lemma cache_history_law:
  assumes "cache_at at n m u c" and "list_all cache_op_ok ops" and syncs and "run_cache D ops c = (rs, c')"
  shows "\<exists>m' u'. length rs = length ops \<and> array_history n (zip ops rs) m m' \<and> cache_at at n m' u' c'"
  using assms(1,2,4)
proof (induction ops arbitrary: m u c rs)
  case Nil
  then show ?case by auto
next
  case (Cons op ops)
  obtain r c1 rs1 where run: "run_cache_op D op c = (r, c1)" "run_cache D ops c1 = (rs1, c')" "rs = r # rs1"
    using Cons.prems(3) by (auto split: prod.splits)
  have ok: "cache_op_ok op" "list_all cache_op_ok ops" using Cons.prems(2) by simp_all
  obtain u1 where one: "answer_ok n m op r" "cache_at at n (array_after op r m) u1 c1"
    using cache_op_law [OF Cons.prems(1) ok(1) assms(3) run(1)] by blast
  show ?case using Cons.IH [OF one(2) ok(2) run(2)] one(1) run(3) by auto
qed

lemma cache_new_at: "at n v v d \<Longrightarrow> cache_at at n v v (cache_new d)"
  unfolding cache_at_def by (intro exI [of _ v]) (simp add: cache_new_def buffers_ok_def through_def fun_eq_iff)

end

section \<open>Properties\<close>

text \<open>C26. The cache is transparent. Start with an empty cache on a device whose contents are durable, and
  run any sequence of cache operations on it, during which the device may begin to fail at any
  point. Reads and writes are answered as by a plain array of blocks, so a read sees the last write
  whatever was written back, flushed or evicted in between; the device together with the buffers
  still holds the array; every block that is not buffered or whose buffer is clean is durable with
  the array's contents; and the cache passes its own check.\<close>

theorem cache_transparent:
  assumes "cd_inv dev" and "cd_durable dev = cd_view dev" and "list_all cache_op_ok ops"
    and "run_cache crash_ops ops (cache_new dev) = (rs, c)"
  shows "\<exists>m. length rs = length ops \<and> array_history (block_count crash_ops dev) (zip ops rs) (cd_view dev) m \<and>
    through c (cd_view (bc_device c)) = m \<and>
    (\<forall>b. cache_state c b = None \<or> cache_state c b = Some Clean \<longrightarrow> cd_durable (bc_device c) b = m b) \<and>
    cache_validate_invariants crash_ops c = Inr ()"
proof -
  let ?n = "block_count crash_ops dev"
  have "crash_dev.at ?n (cd_view dev) (cd_view dev) dev"
    using crash_dev.at_current [OF assms(1)] assms(2) by simp
  then obtain m u where m: "length rs = length ops" "array_history ?n (zip ops rs) (cd_view dev) m"
    "cache_at crash_dev.at ?n m u c"
    using crash_dev.cache_history_law [OF crash_dev.cache_new_at assms(3) _ assms(4)] by blast
  then obtain v where v: "crash_dev.at ?n v u (bc_device c)" "buffers_ok ?n v u (bc_entries c)" "through c v = m"
    by (auto simp: cache_at_def)
  have "cd_durable (bc_device c) b = m b" if "cache_state c b = None \<or> cache_state c b = Some Clean" for b
    using cache_settled [OF m(3) that] v(1) by (simp add: dev_at_def)
  moreover have "cache_validate_invariants crash_ops c = Inr ()"
    using v(1,2) by (force simp: cache_validate_invariants_def list_ex_iff lookup_keys [symmetric] buffers_ok_def dev_at_def not_le)
  ultimately show ?thesis using m(1,2) v(1,3) by (auto simp: dev_at_def)
qed

theorem cache_transparent_witness:
  "fst (run_cache crash_ops [Cache_Write 3 (replicate 4096 5), Cache_Write_Back 3, Cache_Read 3] (cache_new (cd_new 16))) ! 2 =
     Inr (Some (replicate 4096 5))"
proof -
  let ?ops = "[Cache_Write 3 (replicate 4096 5), Cache_Write_Back 3, Cache_Read 3]"
  have at: "calm_dev.at 16 (cd_view (cd_new 16)) (cd_view (cd_new 16)) (cd_new 16)" using cd_new_at [of 16] by simp
  obtain rs c where run: "run_cache crash_ops ?ops (cache_new (cd_new 16)) = (rs, c)" by fastforce
  have "list_all cache_op_ok ?ops" by (simp add: BLOCK_SIZE_def)
  from cache_transparent [OF _ _ this run] at obtain m where
    m: "length rs = 3" "array_history 16 (zip ?ops rs) (cd_view (cd_new 16)) m"
    by (auto simp: dev_at_def)
  obtain r1 r2 r3 where "rs = [r1, r2, r3]" using m(1) by (auto simp: numeral_3_eq_3 length_Suc_conv)
  then have "rs ! 2 = Inr (Some (replicate 4096 5))" using m(2) by auto
  then show ?thesis using run by simp
qed

text \<open>C27. Flushing makes everything durable. After any such history, a flush that reports success leaves
  every buffer clean, and a power failure afterwards loses nothing: the rebooted device holds the
  array. On a device that does not fail, a flush succeeds.\<close>

theorem cache_flush_persists:
  assumes "cd_inv dev" and "cd_durable dev = cd_view dev" and "list_all cache_op_ok ops"
    and "run_cache crash_ops ops (cache_new dev) = (rs, c)" and "cache_flush crash_ops c = (r, c')"
  shows "\<exists>m. array_history (block_count crash_ops dev) (zip ops rs) (cd_view dev) m \<and>
    through c' (cd_view (bc_device c')) = m \<and>
    (is_ok r \<longrightarrow> (\<forall>b. cache_state c' b = None \<or> cache_state c' b = Some Clean) \<and> cd_view (cd_reboot (into_inner c')) = m) \<and>
    (cd_crash_at dev = None \<longrightarrow> is_ok r)"
proof -
  let ?n = "block_count crash_ops dev"
  have "crash_dev.at ?n (cd_view dev) (cd_view dev) dev"
    using crash_dev.at_current [OF assms(1)] assms(2) by simp
  then obtain m u where m: "array_history ?n (zip ops rs) (cd_view dev) m" "cache_at crash_dev.at ?n m u c"
    using crash_dev.cache_history_law [OF crash_dev.cache_new_at assms(3) _ assms(4)] by blast
  have "if is_ok r then cache_at crash_dev.at ?n m m c' \<and> (\<forall>b. cache_state c' b = None \<or> cache_state c' b = Some Clean)
      else cache_at crash_dev.at ?n m u c'"
    using crash_dev.cache_flush_law [OF m(2)] assms(5) by (cases r) (auto simp: wp_def)
  moreover have "through c' (cd_view (bc_device c')) = m" if "cache_at crash_dev.at ?n m u' c'" for u'
    using that by (auto simp: cache_at_def dev_at_def)
  moreover have "cd_view (cd_reboot (into_inner c')) = m" if "cache_at crash_dev.at ?n m m c'"
    using that cd_reboot_at by (auto simp: cache_at_def into_inner_def) (auto simp: dev_at_def)
  moreover have "is_ok r" if calm: "cd_crash_at dev = None"
  proof -
    have "calm_dev.at ?n (cd_view dev) (cd_view dev) dev" using assms(1,2) calm by (simp add: dev_at_def)
    then obtain m' u' where "cache_at calm_dev.at ?n m' u' c"
      using calm_dev.cache_history_law [OF calm_dev.cache_new_at assms(3) _ assms(4)] by blast
    from calm_dev.cache_flush_law [OF this] show ?thesis using assms(5) by (cases r) (auto simp: wp_def)
  qed
  ultimately show ?thesis using m(1) by (auto split: if_splits)
qed

theorem cache_flush_persists_witness:
  "case run_cache crash_ops [Cache_Write 3 (replicate 4096 5)] (cache_new (cd_new 16)) of (rs, c) \<Rightarrow>
     case cache_flush crash_ops c of (r, c') \<Rightarrow> is_ok r \<and> cd_view (cd_reboot (into_inner c')) 3 = replicate 4096 5"
proof -
  let ?ops = "[Cache_Write 3 (replicate 4096 5)]"
  have at: "calm_dev.at 16 (cd_view (cd_new 16)) (cd_view (cd_new 16)) (cd_new 16)" using cd_new_at [of 16] by simp
  obtain rs c where run: "run_cache crash_ops ?ops (cache_new (cd_new 16)) = (rs, c)" by fastforce
  obtain r c' where fl: "cache_flush crash_ops c = (r, c')" by fastforce
  have "length rs = 1" using run by (auto split: prod.splits)
  then obtain r1 where rs: "rs = [r1]" by (auto simp: length_Suc_conv)
  have "list_all cache_op_ok ?ops" by (simp add: BLOCK_SIZE_def)
  from cache_flush_persists [OF _ _ this run fl] at
  have "is_ok r \<and> cd_view (cd_reboot (into_inner c')) 3 = replicate 4096 5"
    by (auto simp: dev_at_def rs cd_new_def)
  then show ?thesis unfolding run fl prod.case .
qed

end
