(* ===== verification/FS_Inode_Memory.thy ===== *)
theory FS_Inode_Memory
  imports FS_Allocation FS_Inode_Codec "HOL-Library.RBT"
begin

text \<open>
  The in-memory inode table of \<^verbatim>\<open>inode.rs\<close>: inodes with their lists of blocks, and a reverse index
  from blocks to owners. The maps are ordered trees, so the check visits them in the order of the
  code. The check is shown to accept exactly the tables in which both directions agree and every
  block is an allocated data block, and every table a client can build passes it.
\<close>

section \<open>InodeTable\<close>

datatype inode_error =
  IdExhausted
| InodeNotFound u64
| BlockNotAllocated u64
| InodeReservedBlock u64
| BlockAlreadyOwned u64 u64
| BlockNotOwnedByInode u64 u64
| InodeStillOwnsBlocks u64
| InodeAllocation allocation_error

datatype inode_invariant_error =
  BlockOwnerMissingInode u64 u64
| ReverseOwnershipMismatch u64 u64
| DuplicateBlockReference u64 u64 u64
| ReservedBlockReferenced u64 u64
| UnallocatedBlockReferenced u64 u64
| InvariantAllocation allocation_error

record inode =
  in_id :: u64
  in_kind :: inode_kind
  in_blocks :: "u64 list"

record inode_table =
  it_next_id :: u64
  it_inodes :: "(u64, inode) RBT.rbt"
  it_block_owners :: "(u64, u64) RBT.rbt"

definition inode_table_new :: inode_table where
  "inode_table_new = \<lparr>it_next_id = 1, it_inodes = RBT.empty, it_block_owners = RBT.empty\<rparr>"

definition inode_create :: "inode_kind \<Rightarrow> inode_table \<Rightarrow> (inode_error + u64) \<times> inode_table" where
  "inode_create kind t =
     (let ino = it_next_id t in
      case checked_add (it_next_id t) 1 of
        None \<Rightarrow> (Inl IdExhausted, t)
      | Some next_id \<Rightarrow>
          (Inr ino, t\<lparr>it_next_id := next_id,
                     it_inodes := RBT.insert ino \<lparr>in_id = ino, in_kind = kind, in_blocks = []\<rparr> (it_inodes t)\<rparr>))"

definition inode_get :: "inode_table \<Rightarrow> u64 \<Rightarrow> inode option" where
  "inode_get t ino = RBT.lookup (it_inodes t) ino"

definition inode_len :: "inode_table \<Rightarrow> nat" where
  "inode_len t = length (RBT.keys (it_inodes t))"

definition attach_block :: "u64 \<Rightarrow> u64 \<Rightarrow> block_allocator \<Rightarrow> inode_table \<Rightarrow> (inode_error + unit) \<times> inode_table" where
  "attach_block ino block allocator t =
     (case RBT.lookup (it_inodes t) ino of
        None \<Rightarrow> (Inl (InodeNotFound ino), t)
      | Some node \<Rightarrow>
          if block < al_reserved_blocks allocator then (Inl (InodeReservedBlock block), t)
          else
            case is_owned allocator block of
              Inl e \<Rightarrow> (Inl (InodeAllocation e), t)
            | Inr is_allocated \<Rightarrow>
                if \<not> is_allocated then (Inl (BlockNotAllocated block), t)
                else
                  case RBT.lookup (it_block_owners t) block of
                    Some owner \<Rightarrow> (Inl (BlockAlreadyOwned block owner), t)
                  | None \<Rightarrow>
                      (Inr (), t\<lparr>it_inodes := RBT.insert ino (node\<lparr>in_blocks := in_blocks node @ [block]\<rparr>) (it_inodes t),
                                 it_block_owners := RBT.insert block ino (it_block_owners t)\<rparr>))"

definition detach_block :: "u64 \<Rightarrow> u64 \<Rightarrow> inode_table \<Rightarrow> (inode_error + unit) \<times> inode_table" where
  "detach_block ino block t =
     (case RBT.lookup (it_inodes t) ino of
        None \<Rightarrow> (Inl (InodeNotFound ino), t)
      | Some node \<Rightarrow>
          case position (\<lambda>candidate. candidate = block) (in_blocks node) of
            None \<Rightarrow> (Inl (BlockNotOwnedByInode ino block), t)
          | Some i \<Rightarrow>
              (Inr (), t\<lparr>it_inodes := RBT.insert ino
                           (node\<lparr>in_blocks := take i (in_blocks node) @ drop (Suc i) (in_blocks node)\<rparr>) (it_inodes t),
                         it_block_owners := RBT.delete block (it_block_owners t)\<rparr>))"

definition inode_remove :: "u64 \<Rightarrow> inode_table \<Rightarrow> (inode_error + inode) \<times> inode_table" where
  "inode_remove ino t =
     (case RBT.lookup (it_inodes t) ino of
        None \<Rightarrow> (Inl (InodeNotFound ino), t)
      | Some node \<Rightarrow>
          if in_blocks node \<noteq> [] then (Inl (InodeStillOwnsBlocks ino), t)
          else (Inr node, t\<lparr>it_inodes := RBT.delete ino (it_inodes t)\<rparr>))"

text \<open>The two loops of \<^verbatim>\<open>validate\<close>: over the blocks of every inode, and over the reverse index.\<close>

definition validate_reference ::
  "inode_table \<Rightarrow> block_allocator \<Rightarrow> u64 \<Rightarrow> u64 \<Rightarrow> (u64 \<rightharpoonup> u64) \<Rightarrow> inode_invariant_error + (u64 \<rightharpoonup> u64)" where
  "validate_reference t allocator inode_id block observed =
     (if block < al_reserved_blocks allocator then Inl (ReservedBlockReferenced inode_id block)
      else
        case is_owned allocator block of
          Inl e \<Rightarrow> Inl (InvariantAllocation e)
        | Inr False \<Rightarrow> Inl (UnallocatedBlockReferenced inode_id block)
        | Inr True \<Rightarrow>
            case observed block of
              Some first_owner \<Rightarrow> Inl (DuplicateBlockReference block first_owner inode_id)
            | None \<Rightarrow>
                if RBT.lookup (it_block_owners t) block \<noteq> Some inode_id
                then Inl (ReverseOwnershipMismatch block inode_id)
                else Inr (observed(block \<mapsto> inode_id)))"

definition validate_owner :: "inode_table \<Rightarrow> u64 \<times> u64 \<Rightarrow> unit \<Rightarrow> inode_invariant_error + unit" where
  "validate_owner t pair _ =
     (case pair of (block, owner) \<Rightarrow>
        case RBT.lookup (it_inodes t) owner of
          None \<Rightarrow> Inl (BlockOwnerMissingInode block owner)
        | Some node \<Rightarrow>
            if block \<notin> set (in_blocks node) then Inl (ReverseOwnershipMismatch block owner) else Inr ())"

definition inode_table_validate :: "inode_table \<Rightarrow> block_allocator \<Rightarrow> inode_invariant_error + unit" where
  "inode_table_validate t allocator =
     bindR (iterR (\<lambda>(inode_id, node). iterR (validate_reference t allocator inode_id) (in_blocks node))
              (RBT.entries (it_inodes t)) Map.empty) (\<lambda>_.
       iterR (validate_owner t) (RBT.entries (it_block_owners t)) ())"

section \<open>The check is exact\<close>

definition table_agrees :: "block_allocator \<Rightarrow> inode_table \<Rightarrow> bool" where
  "table_agrees a t \<longleftrightarrow>
     (\<forall>i node. RBT.lookup (it_inodes t) i = Some node \<longrightarrow> distinct (in_blocks node) \<and>
        (\<forall>b \<in> set (in_blocks node). b \<in> owned a \<and> RBT.lookup (it_block_owners t) b = Some i)) \<and>
     (\<forall>b i. RBT.lookup (it_block_owners t) b = Some i \<longrightarrow>
        (\<exists>node. RBT.lookup (it_inodes t) i = Some node \<and> b \<in> set (in_blocks node)))"

lemma validate_references:
  assumes "alloc_inv a"
  shows "(\<exists>obs'. iterR (\<lambda>(x, b). validate_reference t a (fst x) b) refs obs = Inr obs') \<longleftrightarrow>
    (\<forall>(x, b) \<in> set refs. b \<in> owned a \<and> RBT.lookup (it_block_owners t) b = Some (fst x)) \<and>
    distinct (map snd refs) \<and> set (map snd refs) \<inter> dom obs = {}"
proof (induction refs arbitrary: obs)
  case (Cons ref refs)
  obtain x b where ref: "ref = (x, b)" by (cases ref)
  let ?ok = "b \<in> owned a \<and> RBT.lookup (it_block_owners t) b = Some (fst x) \<and> b \<notin> dom obs"
  have own: "b \<in> owned a \<longleftrightarrow> \<not> b < al_reserved_blocks a \<and> is_owned a b = Inr True"
    by (auto simp: is_owned_spec [OF assms] owned_def data_blocks_def)
  then have fails: "\<exists>e. validate_reference t a (fst x) b obs = Inl e" if "\<not> ?ok"
    using that by (auto simp: validate_reference_def split: sum.splits bool.splits option.splits)
  show ?case
  proof (cases ?ok)
    case True
    obtain obs1 where obs1: "obs1 = obs(b \<mapsto> fst x)" by blast
    then have d: "dom obs1 = insert b (dom obs)" by simp
    have "validate_reference t a (fst x) b obs = Inr obs1"
      using True own by (auto simp: validate_reference_def obs1 split: option.splits)
    then show ?thesis using True Cons.IH [of obs1] unfolding d by (auto simp: ref)
  next
    case False
    then show ?thesis using fails by (auto simp: ref)
  qed
qed simp

lemma owners_distinct:
  assumes "distinct (map fst es)" and "\<forall>(i, node) \<in> set es. distinct (in_blocks node) \<and> (\<forall>b \<in> set (in_blocks node). f b = Some i)"
  shows "distinct (concat (map (\<lambda>x. in_blocks (snd x)) es))"
  using assms
proof (induction es)
  case (Cons x es)
  have "set (in_blocks (snd x)) \<inter> set (in_blocks (snd y)) = {}" if "y \<in> set es" for y
  proof -
    have "fst x \<noteq> fst y" using Cons.prems(1) that by auto
    then show ?thesis using Cons.prems(2) that by (cases x; cases y) fastforce
  qed
  then show ?case using Cons by (cases x) auto
qed simp

lemma validate_owners:
  "iterR (validate_owner t) ps () = Inr () \<longleftrightarrow>
   (\<forall>(b, i) \<in> set ps. \<exists>node. RBT.lookup (it_inodes t) i = Some node \<and> b \<in> set (in_blocks node))"
  by (induction ps) (auto simp: bindR_Inr_iff validate_owner_def split: option.splits if_splits)

lemma inode_validate_ok:
  assumes "alloc_inv a"
  shows "is_ok (inode_table_validate t a) \<longleftrightarrow> table_agrees a t"
proof -
  let ?es = "RBT.entries (it_inodes t)"
  let ?refs = "concat (map (\<lambda>x. map (Pair x) (in_blocks (snd x))) ?es)"
  have nest: "iterR (\<lambda>(inode_id, node). iterR (validate_reference t a inode_id) (in_blocks node)) ?es Map.empty =
      iterR (\<lambda>(x, b). validate_reference t a (fst x) b) ?refs Map.empty"
    using iterR_nested [of "\<lambda>x. validate_reference t a (fst x)" "\<lambda>x. in_blocks (snd x)" ?es Map.empty]
    by (simp add: case_prod_unfold)
  have blocks: "map snd ?refs = concat (map (\<lambda>x. in_blocks (snd x)) ?es)" by (simp add: map_concat comp_def)
  have "is_ok (inode_table_validate t a) \<longleftrightarrow>
      (\<forall>(x, b) \<in> set ?refs. b \<in> owned a \<and> RBT.lookup (it_block_owners t) b = Some (fst x)) \<and>
      distinct (concat (map (\<lambda>x. in_blocks (snd x)) ?es)) \<and>
      (\<forall>(b, i) \<in> set (RBT.entries (it_block_owners t)). \<exists>node. RBT.lookup (it_inodes t) i = Some node \<and> b \<in> set (in_blocks node))"
    using validate_references [OF assms, of t ?refs Map.empty] validate_owners [of t "RBT.entries (it_block_owners t)"]
    unfolding inode_table_validate_def nest blocks by (auto simp: is_ok_iff bindR_Inr_iff)
  also have "\<dots> \<longleftrightarrow> table_agrees a t" (is "?L \<longleftrightarrow> _")
  proof
    assume L: ?L
    have "distinct (in_blocks node)" if "RBT.lookup (it_inodes t) i = Some node" for i node
      using L that by (auto simp: lookup_in_tree distinct_concat_iff)
    then show "table_agrees a t" using L by (fastforce simp: table_agrees_def lookup_in_tree)
  next
    assume R: "table_agrees a t"
    then have "distinct (concat (map (\<lambda>x. in_blocks (snd x)) ?es))"
      by (intro owners_distinct [where f = "RBT.lookup (it_block_owners t)"])
        (auto simp: table_agrees_def lookup_in_tree distinct_entries)
    then show ?L using R by (auto simp: table_agrees_def lookup_in_tree)
  qed
  finally show ?thesis .
qed

text \<open>C37. The inode table check is exact. It succeeds if and only if no inode lists a block twice, every
  listed block is an allocated data block whose owner in the reverse index is that inode, and every
  owner in the reverse index is an inode that lists the block.\<close>

theorem inode_validate_exact:
  assumes "alloc_inv a"
  shows "is_ok (inode_table_validate t a) \<longleftrightarrow> table_agrees a t"
  by (rule inode_validate_ok [OF assms])

text \<open>An allocator that has handed out block 1, and a table whose only file owns it.\<close>

abbreviation small_allocator :: block_allocator where
  "small_allocator \<equiv> projr (allocator_new 4 1)"

abbreviation sample_allocator :: block_allocator where
  "sample_allocator \<equiv> snd (allocate small_allocator)"

abbreviation sample_table :: inode_table where
  "sample_table \<equiv> snd (attach_block 1 1 sample_allocator (snd (inode_create File inode_table_new)))"

lemma sample_owned:
  "is_owned small_allocator 1 = Inr False" "is_owned sample_allocator 1 = Inr True"
  "al_reserved_blocks small_allocator = 1" "al_reserved_blocks sample_allocator = 1"
  by code_simp+

lemma sample_allocator_inv: "alloc_inv small_allocator" "alloc_inv sample_allocator"
proof -
  have "allocator_new 4 1 = Inr small_allocator" by code_simp
  then show inv: "alloc_inv small_allocator" using allocator_new_inv by blast
  show "alloc_inv sample_allocator" by (rule conjunct1 [OF allocate_inv [OF inv prod.collapse [symmetric]]])
qed

lemma sample_table_eq:
  "sample_table =
     \<lparr>it_next_id = 2,
      it_inodes = RBT.insert 1 \<lparr>in_id = 1, in_kind = File, in_blocks = [1]\<rparr>
        (RBT.insert 1 \<lparr>in_id = 1, in_kind = File, in_blocks = []\<rparr> RBT.empty),
      it_block_owners = RBT.insert 1 1 RBT.empty\<rparr>"
  using sample_owned by (simp add: attach_block_def inode_create_def inode_table_new_def checked_add_def)

theorem inode_validate_exact_witness:
  "is_ok (inode_table_validate sample_table sample_allocator) \<and>
   \<not> is_ok (inode_table_validate sample_table small_allocator)"
proof -
  have "1 \<in> owned sample_allocator" "1 \<notin> owned small_allocator"
    using sample_owned by (auto simp: is_owned_spec sample_allocator_inv split: if_splits)
  then have "table_agrees sample_allocator sample_table" "\<not> table_agrees small_allocator sample_table"
    unfolding sample_table_eq table_agrees_def by (auto split: if_splits)
  then show ?thesis using sample_allocator_inv inode_validate_exact by blast
qed

section \<open>Reachable tables\<close>

text \<open>
  A client works with an allocator and a table. It may free a block only when no inode owns it;
  nothing else is asked of it.
\<close>

inductive inode_step :: "block_allocator \<times> inode_table \<Rightarrow> block_allocator \<times> inode_table \<Rightarrow> bool" where
  create: "inode_create k t = (r, t') \<Longrightarrow> inode_step (a, t) (a, t')"
| attach: "attach_block i b a t = (r, t') \<Longrightarrow> inode_step (a, t) (a, t')"
| detach: "detach_block i b t = (r, t') \<Longrightarrow> inode_step (a, t) (a, t')"
| remove: "inode_remove i t = (r, t') \<Longrightarrow> inode_step (a, t) (a, t')"
| allocate: "allocate a = (r, a') \<Longrightarrow> inode_step (a, t) (a', t)"
| free: "RBT.lookup (it_block_owners t) b = None \<Longrightarrow> free a b = (r, a') \<Longrightarrow> inode_step (a, t) (a', t)"

definition table_inv :: "block_allocator \<times> inode_table \<Rightarrow> bool" where
  "table_inv s \<longleftrightarrow>
     (case s of (a, t) \<Rightarrow>
        alloc_inv a \<and> table_agrees a t \<and> 1 \<le> it_next_id t \<and>
        (\<forall>i node. RBT.lookup (it_inodes t) i = Some node \<longrightarrow> in_id node = i \<and> 1 \<le> i \<and> i < it_next_id t))"

lemma table_agrees_mono:
  assumes "table_agrees a t" and "\<And>b i. RBT.lookup (it_block_owners t) b = Some i \<Longrightarrow> b \<in> owned a \<Longrightarrow> b \<in> owned a'"
  shows "table_agrees a' t"
  using assms unfolding table_agrees_def by blast

lemma table_agrees_insert:
  assumes "table_agrees a t" and "RBT.lookup (it_inodes t) i = None" and "in_blocks node = []"
  shows "table_agrees a (t\<lparr>it_next_id := n, it_inodes := RBT.insert i node (it_inodes t)\<rparr>)"
proof -
  have "RBT.lookup (it_block_owners t) b \<noteq> Some i" for b using assms(1,2) unfolding table_agrees_def by (metis option.distinct(1))
  then show ?thesis using assms(1,3) by (simp add: table_agrees_def)
qed

lemma create_inv:
  assumes "table_inv (a, t)" and "inode_create k t = (r, t')"
  shows "table_inv (a, t')"
proof (cases "checked_add (it_next_id t) 1")
  case None
  then show ?thesis using assms by (simp add: inode_create_def Let_def)
next
  case (Some n)
  let ?i = "it_next_id t"
  have n: "unat n = unat ?i + 1" using Some by (auto dest!: checked_add_unat)
  have t': "t' = t\<lparr>it_next_id := n, it_inodes := RBT.insert ?i \<lparr>in_id = ?i, in_kind = k, in_blocks = []\<rparr> (it_inodes t)\<rparr>"
    using assms(2) Some by (auto simp: inode_create_def Let_def)
  have "RBT.lookup (it_inodes t) ?i = None"
    using assms(1) by (cases "RBT.lookup (it_inodes t) ?i") (auto simp: table_inv_def)
  then have "table_agrees a t'" using assms(1) table_agrees_insert by (simp add: table_inv_def t')
  moreover have "i < n \<longleftrightarrow> i \<le> ?i" for i using n by (simp add: word_less_nat_alt word_le_nat_alt less_Suc_eq_le)
  moreover have "1 \<le> n" using n by (simp add: word_le_nat_alt)
  ultimately show ?thesis
    using assms(1) by (auto simp: table_inv_def t' dest: less_imp_le split: if_splits)
qed

text \<open>Replacing the block list of one inode, together with the reverse index.\<close>

lemma replace_node_inv:
  assumes "table_inv (a, t)" and "RBT.lookup (it_inodes t) i = Some node" and "distinct bs"
    and "\<forall>b \<in> set bs. b \<in> owned a"
    and "\<And>b. RBT.lookup owners b = (if b \<in> set bs then Some i else if b \<in> set (in_blocks node) then None else RBT.lookup (it_block_owners t) b)"
    and "\<And>b j. b \<in> set bs \<Longrightarrow> RBT.lookup (it_block_owners t) b = Some j \<Longrightarrow> j = i"
  shows "table_inv (a, t\<lparr>it_inodes := RBT.insert i (node\<lparr>in_blocks := bs\<rparr>) (it_inodes t), it_block_owners := owners\<rparr>)"
    (is "table_inv (a, ?t)")
proof -
  have inv: "table_agrees a t" using assms(1) by (simp add: table_inv_def)
  have own: "RBT.lookup (it_block_owners t) b = Some j \<longleftrightarrow> (\<exists>n. RBT.lookup (it_inodes t) j = Some n \<and> b \<in> set (in_blocks n))" for b j
    using inv unfolding table_agrees_def by blast
  have "distinct (in_blocks n) \<and> (\<forall>b \<in> set (in_blocks n). b \<in> owned a \<and> RBT.lookup owners b = Some j)"
    if n: "RBT.lookup (it_inodes ?t) j = Some n" for j n
  proof (cases "j = i")
    case True
    then show ?thesis using n assms(3-5) by auto
  next
    case False
    then have n': "RBT.lookup (it_inodes t) j = Some n" using n by simp
    have "RBT.lookup owners b = Some j" if b: "b \<in> set (in_blocks n)" for b
    proof -
      have j: "RBT.lookup (it_block_owners t) b = Some j" using n' b own by blast
      have "b \<notin> set bs" using assms(6) [OF _ j] False by blast
      moreover have "b \<notin> set (in_blocks node)"
      proof
        assume "b \<in> set (in_blocks node)"
        then have "RBT.lookup (it_block_owners t) b = Some i" using own assms(2) by blast
        then show False using j False by simp
      qed
      ultimately show ?thesis using assms(5) [of b] j by simp
    qed
    then show ?thesis using n' inv unfolding table_agrees_def by blast
  qed
  moreover have "\<exists>n. RBT.lookup (it_inodes ?t) j = Some n \<and> b \<in> set (in_blocks n)" if "RBT.lookup owners b = Some j" for b j
    using that assms(2,5) own [of b j] by (cases "j = i") (auto split: if_splits)
  ultimately have "table_agrees a ?t" unfolding table_agrees_def by simp
  then show ?thesis using assms(1,2) by (auto simp: table_inv_def)
qed

lemma attach_inv:
  assumes "table_inv (a, t)" and "attach_block i b a t = (r, t')"
  shows "table_inv (a, t')"
proof (cases "t' = t")
  case False
  then obtain node where node: "RBT.lookup (it_inodes t) i = Some node" "\<not> b < al_reserved_blocks a" "is_owned a b = Inr True"
    "RBT.lookup (it_block_owners t) b = None"
    and t': "t' = t\<lparr>it_inodes := RBT.insert i (node\<lparr>in_blocks := in_blocks node @ [b]\<rparr>) (it_inodes t),
      it_block_owners := RBT.insert b i (it_block_owners t)\<rparr>"
    using assms(2) by (auto simp: attach_block_def split: option.splits sum.splits if_splits)
  have inv: "alloc_inv a" "table_agrees a t" using assms(1) by (simp_all add: table_inv_def)
  have "b \<in> owned a" using node(2,3) by (auto simp: is_owned_spec [OF inv(1)] split: if_splits)
  moreover have blocks: "distinct (in_blocks node)" "\<forall>c \<in> set (in_blocks node). c \<in> owned a \<and> RBT.lookup (it_block_owners t) c = Some i"
    using inv(2) node(1) unfolding table_agrees_def by blast+
  moreover have "b \<notin> set (in_blocks node)" using blocks(2) node(4) by auto
  ultimately show ?thesis unfolding t' using node(4) by (intro replace_node_inv [OF assms(1) node(1)]) auto
qed (use assms in simp)

lemma distinct_without:
  assumes "distinct xs" and "k < length xs"
  shows "distinct (take k xs @ drop (Suc k) xs)" and "xs ! k \<notin> set (take k xs @ drop (Suc k) xs)"
    and "set xs = insert (xs ! k) (set (take k xs @ drop (Suc k) xs))"
proof -
  obtain us x vs where "xs = us @ x # vs" "length us = k"
    using id_take_nth_drop [OF assms(2)] assms(2) by (metis length_take less_imp_le min.absorb2)
  then show "distinct (take k xs @ drop (Suc k) xs)" "xs ! k \<notin> set (take k xs @ drop (Suc k) xs)"
    "set xs = insert (xs ! k) (set (take k xs @ drop (Suc k) xs))" using assms(1) by (auto simp: nth_append)
qed

lemma detach_inv:
  assumes "table_inv (a, t)" and "detach_block i b t = (r, t')"
  shows "table_inv (a, t')"
proof (cases "t' = t")
  case False
  then obtain node k where node: "RBT.lookup (it_inodes t) i = Some node"
    and k: "position (\<lambda>c. c = b) (in_blocks node) = Some k"
    and t': "t' = t\<lparr>it_inodes := RBT.insert i (node\<lparr>in_blocks := take k (in_blocks node) @ drop (Suc k) (in_blocks node)\<rparr>) (it_inodes t),
      it_block_owners := RBT.delete b (it_block_owners t)\<rparr>"
    using assms(2) by (auto simp: detach_block_def split: option.splits)
  let ?bs = "take k (in_blocks node) @ drop (Suc k) (in_blocks node)"
  have blocks: "distinct (in_blocks node)" "\<forall>c \<in> set (in_blocks node). c \<in> owned a \<and> RBT.lookup (it_block_owners t) c = Some i"
    using assms(1) node unfolding table_inv_def table_agrees_def by blast+
  have bs: "distinct ?bs" "b \<notin> set ?bs" "set (in_blocks node) = insert b (set ?bs)"
    using distinct_without [OF blocks(1)] k by (auto simp: position_Some_iff)
  show ?thesis unfolding t'
    by (rule replace_node_inv [OF assms(1) node bs(1)]) (use blocks(2) bs in \<open>auto simp: restrict_map_def\<close>)
qed (use assms in simp)

lemma remove_inv:
  assumes "table_inv (a, t)" and "inode_remove i t = (r, t')"
  shows "table_inv (a, t')"
proof (cases "t' = t")
  case False
  then obtain node where "RBT.lookup (it_inodes t) i = Some node" "in_blocks node = []"
    and t': "t' = t\<lparr>it_inodes := RBT.delete i (it_inodes t)\<rparr>"
    using assms(2) by (auto simp: inode_remove_def split: option.splits if_splits)
  moreover have "table_agrees a t" using assms(1) by (simp add: table_inv_def)
  moreover from calculation have "RBT.lookup (it_block_owners t) b \<noteq> Some i" for b
    unfolding table_agrees_def by (metis empty_iff list.set(1) option.inject)
  ultimately have "table_agrees a t'" unfolding table_agrees_def by (auto simp: restrict_map_def)
  then show ?thesis using assms(1) t' by (auto simp: table_inv_def restrict_map_def split: if_splits)
qed (use assms in simp)

lemma allocate_table_inv:
  assumes "table_inv (a, t)" and "allocate a = (r, a')"
  shows "table_inv (a', t)"
proof -
  have inv: "alloc_inv a" "table_agrees a t" using assms(1) by (simp_all add: table_inv_def)
  have "owned a \<subseteq> owned a'"
    using allocate_exhausted [OF inv(1)] allocate_found(3) [OF inv(1)] assms(2) by (cases r) blast+
  then have "table_agrees a' t" using table_agrees_mono [OF inv(2)] by blast
  then show ?thesis using assms(1) allocate_inv [OF inv(1) assms(2)] by (simp add: table_inv_def)
qed

lemma free_table_inv:
  assumes "table_inv (a, t)" and "RBT.lookup (it_block_owners t) b = None" and "free a b = (r, a')"
  shows "table_inv (a', t)"
proof -
  have inv: "alloc_inv a" "table_agrees a t" using assms(1) by (simp_all add: table_inv_def)
  have "owned a - {b} \<subseteq> owned a'"
    using free_found(2) [OF inv(1)] free_spec [OF inv(1), of b] assms(3) by (cases r) (auto split: if_splits)
  then have "table_agrees a' t" using assms(2) by (intro table_agrees_mono [OF inv(2)]) auto
  then show ?thesis using assms(1) free_inv [OF inv(1) assms(3)] by (simp add: table_inv_def)
qed

lemmas table_invs = create_inv attach_inv detach_inv remove_inv allocate_table_inv free_table_inv

lemma inode_step_inv: "inode_step s s' \<Longrightarrow> table_inv s \<Longrightarrow> table_inv s'"
  by (induction rule: inode_step.induct) (rule table_invs; assumption)+

lemma fresh_table_inv: "allocator_new tb rb = Inr a \<Longrightarrow> table_inv (a, inode_table_new)"
  using allocator_new_inv by (simp add: table_inv_def table_agrees_def inode_table_new_def)



end
