(* ===== verification/FS_Directory_Memory.thy ===== *)
theory FS_Directory_Memory
  imports FS_Inode_Memory FS_Directory_Codec "HOL-Library.List_Lexorder"
begin

text \<open>
  The in-memory namespace of \<^verbatim>\<open>directory.rs\<close>: a tree of directories, each a tree from component names
  to inode numbers, with insertion, removal, lookup, counting and the check against an inode table.
  The trees are ordered as \<^verbatim>\<open>BTreeMap<InodeId, BTreeMap<String, InodeId>>\<close> is: names compare by their bytes.
  Shown are the refinement of the operations to a finite map from parent and name to target, the
  exactness of the check, and that it accepts every namespace a disciplined client can reach.
\<close>

section \<open>The order of names\<close>

instantiation rust_string :: linorder
begin

definition less_eq_rust_string :: "rust_string \<Rightarrow> rust_string \<Rightarrow> bool" where
  "less_eq_rust_string s t \<longleftrightarrow> as_bytes s \<le> as_bytes t"

definition less_rust_string :: "rust_string \<Rightarrow> rust_string \<Rightarrow> bool" where
  "less_rust_string s t \<longleftrightarrow> as_bytes s < as_bytes t"

instance
  by standard (auto simp: less_eq_rust_string_def less_rust_string_def as_bytes_eq_iff [symmetric])

end

section \<open>The table and its operations\<close>

datatype directory_error =
  ParentNotFound u64
| ParentNotDirectory u64
| TargetNotFound u64
| InvalidName rust_string
| EntryAlreadyExists u64 rust_string
| EntryNotFound u64 rust_string

datatype directory_invariant_error =
  ParentMissing u64
| NamespaceParentNotDirectory u64
| NamespaceInvalidName u64 rust_string
| DanglingTarget u64 rust_string u64

record directory_table =
  dt_entries :: "(u64, (rust_string, u64) RBT.rbt) RBT.rbt"

definition directory_table_new :: directory_table where
  "directory_table_new = \<lparr>dt_entries = RBT.empty\<rparr>"

definition valid_name :: "rust_string \<Rightarrow> bool" where
  "valid_name name \<longleftrightarrow>
     as_bytes name \<noteq> [] \<and> as_bytes name \<noteq> [46] \<and> as_bytes name \<noteq> [46, 46] \<and>
     47 \<notin> set (as_bytes name) \<and> 0 \<notin> set (as_bytes name)"

definition validate_parent :: "u64 \<Rightarrow> inode_table \<Rightarrow> directory_error + unit" where
  "validate_parent parent inodes =
     (case inode_get inodes parent of
        None \<Rightarrow> Inl (ParentNotFound parent)
      | Some node \<Rightarrow> if in_kind node \<noteq> Directory then Inl (ParentNotDirectory parent) else Inr ())"

definition directory_insert ::
  "u64 \<Rightarrow> rust_string \<Rightarrow> u64 \<Rightarrow> inode_table \<Rightarrow> directory_table \<Rightarrow> (directory_error + unit) \<times> directory_table" where
  "directory_insert parent name target inodes t =
     (case validate_parent parent inodes of
        Inl e \<Rightarrow> (Inl e, t)
      | Inr _ \<Rightarrow>
          if inode_get inodes target = None then (Inl (TargetNotFound target), t)
          else if \<not> valid_name name then (Inl (InvalidName name), t)
          else
            let directory = (case RBT.lookup (dt_entries t) parent of None \<Rightarrow> RBT.empty | Some d \<Rightarrow> d)
            in if RBT.lookup directory name \<noteq> None
               then (Inl (EntryAlreadyExists parent name), t\<lparr>dt_entries := RBT.insert parent directory (dt_entries t)\<rparr>)
               else (Inr (), t\<lparr>dt_entries := RBT.insert parent (RBT.insert name target directory) (dt_entries t)\<rparr>))"

definition directory_remove ::
  "u64 \<Rightarrow> rust_string \<Rightarrow> inode_table \<Rightarrow> directory_table \<Rightarrow> (directory_error + u64) \<times> directory_table" where
  "directory_remove parent name inodes t =
     (case validate_parent parent inodes of
        Inl e \<Rightarrow> (Inl e, t)
      | Inr _ \<Rightarrow>
          if \<not> valid_name name then (Inl (InvalidName name), t)
          else
            case RBT.lookup (dt_entries t) parent of
              None \<Rightarrow> (Inl (EntryNotFound parent name), t)
            | Some directory \<Rightarrow>
                case RBT.lookup directory name of
                  None \<Rightarrow> (Inl (EntryNotFound parent name), t)
                | Some target \<Rightarrow>
                    let directory = RBT.delete name directory
                    in (Inr target,
                        if RBT.is_empty directory then t\<lparr>dt_entries := RBT.delete parent (dt_entries t)\<rparr>
                        else t\<lparr>dt_entries := RBT.insert parent directory (dt_entries t)\<rparr>))"

definition directory_lookup :: "directory_table \<Rightarrow> u64 \<Rightarrow> rust_string \<Rightarrow> u64 option" where
  "directory_lookup t parent name =
     Option.bind (RBT.lookup (dt_entries t) parent) (\<lambda>directory. RBT.lookup directory name)"

definition entry_count :: "directory_table \<Rightarrow> u64 \<Rightarrow> nat" where
  "entry_count t parent =
     (case RBT.lookup (dt_entries t) parent of None \<Rightarrow> 0 | Some directory \<Rightarrow> length (RBT.keys directory))"

text \<open>The two nested loops of \<^verbatim>\<open>validate\<close>.\<close>

definition validate_target ::
  "inode_table \<Rightarrow> u64 \<Rightarrow> rust_string \<times> u64 \<Rightarrow> unit \<Rightarrow> directory_invariant_error + unit" where
  "validate_target inodes parent pair _ =
     (case pair of (name, target) \<Rightarrow>
        if \<not> valid_name name then Inl (NamespaceInvalidName parent name)
        else if inode_get inodes target = None then Inl (DanglingTarget parent name target)
        else Inr ())"

definition validate_directory ::
  "inode_table \<Rightarrow> u64 \<times> (rust_string, u64) RBT.rbt \<Rightarrow> unit \<Rightarrow> directory_invariant_error + unit" where
  "validate_directory inodes pair _ =
     (case pair of (parent, directory) \<Rightarrow>
        case inode_get inodes parent of
          None \<Rightarrow> Inl (ParentMissing parent)
        | Some parent_inode \<Rightarrow>
            if in_kind parent_inode \<noteq> Directory then Inl (NamespaceParentNotDirectory parent)
            else iterR (validate_target inodes parent) (RBT.entries directory) ())"

definition directory_validate :: "directory_table \<Rightarrow> inode_table \<Rightarrow> directory_invariant_error + unit" where
  "directory_validate t inodes = iterR (validate_directory inodes) (RBT.entries (dt_entries t)) ()"

section \<open>The namespace as a map\<close>

text \<open>A stored directory is never empty: \<^verbatim>\<open>insert\<close> fills the one it creates, \<^verbatim>\<open>remove\<close> drops the one it empties.\<close>

definition no_empty_directory :: "directory_table \<Rightarrow> bool" where
  "no_empty_directory t \<longleftrightarrow> (\<forall>p d. RBT.lookup (dt_entries t) p = Some d \<longrightarrow> \<not> RBT.is_empty d)"

definition entry_map :: "directory_table \<Rightarrow> u64 \<times> rust_string \<rightharpoonup> u64" where
  "entry_map t = (\<lambda>(p, n). directory_lookup t p n)"

definition directory_alive :: "inode_table \<Rightarrow> u64 \<Rightarrow> bool" where
  "directory_alive inodes p \<longleftrightarrow> (\<exists>node. inode_get inodes p = Some node \<and> in_kind node = Directory)"

text \<open>The two updates on the map itself, with their errors in the order in which they are detected.\<close>

definition map_insert ::
  "u64 \<Rightarrow> rust_string \<Rightarrow> u64 \<Rightarrow> inode_table \<Rightarrow> (u64 \<times> rust_string \<rightharpoonup> u64) \<Rightarrow>
   (directory_error + unit) \<times> (u64 \<times> rust_string \<rightharpoonup> u64)" where
  "map_insert p n g inodes m =
     (if inode_get inodes p = None then (Inl (ParentNotFound p), m)
      else if \<not> directory_alive inodes p then (Inl (ParentNotDirectory p), m)
      else if inode_get inodes g = None then (Inl (TargetNotFound g), m)
      else if \<not> valid_name n then (Inl (InvalidName n), m)
      else if m (p, n) \<noteq> None then (Inl (EntryAlreadyExists p n), m)
      else (Inr (), m((p, n) \<mapsto> g)))"

definition map_remove ::
  "u64 \<Rightarrow> rust_string \<Rightarrow> inode_table \<Rightarrow> (u64 \<times> rust_string \<rightharpoonup> u64) \<Rightarrow>
   (directory_error + u64) \<times> (u64 \<times> rust_string \<rightharpoonup> u64)" where
  "map_remove p n inodes m =
     (if inode_get inodes p = None then (Inl (ParentNotFound p), m)
      else if \<not> directory_alive inodes p then (Inl (ParentNotDirectory p), m)
      else if \<not> valid_name n then (Inl (InvalidName n), m)
      else case m (p, n) of None \<Rightarrow> (Inl (EntryNotFound p n), m) | Some g \<Rightarrow> (Inr g, m((p, n) := None)))"

lemma validate_parent_cases:
  "validate_parent p inodes =
     (if inode_get inodes p = None then Inl (ParentNotFound p)
      else if \<not> directory_alive inodes p then Inl (ParentNotDirectory p) else Inr ())"
  by (auto simp: validate_parent_def directory_alive_def split: option.splits)

lemma rbt_empty_iff: "RBT.is_empty d \<longleftrightarrow> (\<forall>n. RBT.lookup d n = None)"
  by (metis RBT.is_empty_empty RBT.lookup_empty_empty ext)

lemma entry_map_insert:
  assumes "d = (case RBT.lookup (dt_entries t) p of None \<Rightarrow> RBT.empty | Some d \<Rightarrow> d)"
  shows "entry_map (t\<lparr>dt_entries := RBT.insert p (RBT.insert n g d) (dt_entries t)\<rparr>) = (entry_map t)((p, n) \<mapsto> g)"
    and "entry_map (t\<lparr>dt_entries := RBT.insert p d (dt_entries t)\<rparr>) = entry_map t"
    and "RBT.lookup d n = entry_map t (p, n)"
  using assms by (auto simp: entry_map_def directory_lookup_def fun_eq_iff split: option.splits)

lemma entry_map_remove:
  assumes "RBT.lookup (dt_entries t) p = Some d" and "d' = RBT.delete n d"
  shows "entry_map (if RBT.is_empty d' then t\<lparr>dt_entries := RBT.delete p (dt_entries t)\<rparr>
      else t\<lparr>dt_entries := RBT.insert p d' (dt_entries t)\<rparr>) = (entry_map t)((p, n) := None)"
proof -
  have "RBT.lookup d b = None" if "RBT.is_empty d'" and "b \<noteq> n" for b
  proof -
    have "RBT.lookup d' b = None" using that(1) rbt_empty_iff by blast
    then show ?thesis using that(2) assms(2) by (simp add: restrict_map_def)
  qed
  then show ?thesis
    using assms by (auto simp: entry_map_def directory_lookup_def fun_eq_iff restrict_map_def)
qed

lemma insert_map: "apsnd entry_map (directory_insert p n g inodes t) = map_insert p n g inodes (entry_map t)"
proof -
  obtain d where d: "d = (case RBT.lookup (dt_entries t) p of None \<Rightarrow> RBT.empty | Some d \<Rightarrow> d)" by blast
  show ?thesis
    unfolding directory_insert_def d [symmetric] Let_def entry_map_insert(3) [OF d]
    using entry_map_insert(1,2) [OF d] by (simp add: map_insert_def validate_parent_cases)
qed

lemma remove_map: "apsnd entry_map (directory_remove p n inodes t) = map_remove p n inodes (entry_map t)"
proof (cases "RBT.lookup (dt_entries t) p")
  case None
  then show ?thesis
    by (simp add: directory_remove_def map_remove_def validate_parent_cases entry_map_def directory_lookup_def)
next
  case (Some d)
  have "entry_map t (p, n) = RBT.lookup d n" using Some by (simp add: entry_map_def directory_lookup_def)
  then show ?thesis
    using Some entry_map_remove [OF Some refl, of n]
    by (auto simp: directory_remove_def map_remove_def validate_parent_cases Let_def split: option.split)
qed

lemma entry_count_card: "entry_count t p = card {n. entry_map t (p, n) \<noteq> None}"
proof (cases "RBT.lookup (dt_entries t) p")
  case (Some d)
  then have "{n. entry_map t (p, n) \<noteq> None} = set (RBT.keys d)"
    by (auto simp: entry_map_def directory_lookup_def RBT.lookup_keys [symmetric])
  then show ?thesis using Some by (simp add: entry_count_def distinct_card RBT.distinct_keys)
qed (simp add: entry_count_def entry_map_def directory_lookup_def)

text \<open>C30. The in-memory namespace refines a finite map from parent and name to target: a fresh table is
  the empty map, lookup reads it, insertion and removal return the result of the update on the map,
  error by error, and change the map as it does, and the entry count of a directory is the number of
  its names.\<close>

theorem directory_table_refines_map:
  "entry_map directory_table_new = Map.empty \<and>
   directory_lookup t p n = entry_map t (p, n) \<and>
   apsnd entry_map (directory_insert p n g inodes t) = map_insert p n g inodes (entry_map t) \<and>
   apsnd entry_map (directory_remove p n inodes t) = map_remove p n inodes (entry_map t) \<and>
   entry_count t p = card {n. entry_map t (p, n) \<noteq> None}"
  by (simp add: insert_map remove_map entry_count_card)
    (simp add: entry_map_def directory_lookup_def directory_table_new_def fun_eq_iff)

section \<open>The check is exact\<close>

lemma no_empty_update:
  assumes "no_empty_directory t"
  shows "\<not> RBT.is_empty d \<Longrightarrow> no_empty_directory (t\<lparr>dt_entries := RBT.insert p d (dt_entries t)\<rparr>)"
    and "no_empty_directory (t\<lparr>dt_entries := RBT.delete p (dt_entries t)\<rparr>)"
  using assms unfolding no_empty_directory_def by (simp_all add: restrict_map_def)

lemma insert_keeps_nonempty:
  assumes "no_empty_directory t" and "directory_insert p n g inodes t = (r, t')"
  shows "no_empty_directory t'"
proof -
  obtain d where d: "d = (case RBT.lookup (dt_entries t) p of None \<Rightarrow> RBT.empty | Some d \<Rightarrow> d)" by blast
  note def = assms(2) [unfolded directory_insert_def, folded d, unfolded Let_def]
  have "\<not> RBT.is_empty (RBT.insert n g d)" unfolding rbt_empty_iff by (simp add: exI [of _ n])
  moreover have "\<not> RBT.is_empty d" if "RBT.lookup d n \<noteq> None" unfolding rbt_empty_iff using that by (rule contrapos_nn) (rule spec)
  ultimately show ?thesis
    using def no_empty_update(1) [OF assms(1)] assms(1)
    by (simp split: sum.splits if_splits del: RBT.is_empty_empty) (metis option.distinct(1))+
qed

lemma remove_keeps_nonempty:
  assumes "no_empty_directory t" and "directory_remove p n inodes t = (r, t')"
  shows "no_empty_directory t'"
  using assms(2) no_empty_update [OF assms(1)] assms(1)
  by (auto simp: directory_remove_def Let_def split: sum.splits if_splits option.splits)

definition entries_alive :: "inode_table \<Rightarrow> directory_table \<Rightarrow> bool" where
  "entries_alive inodes t \<longleftrightarrow>
     (\<forall>p n g. entry_map t (p, n) = Some g \<longrightarrow> directory_alive inodes p \<and> valid_name n \<and> inode_get inodes g \<noteq> None)"

lemma validate_targets:
  "iterR (validate_target inodes p) es () = Inr () \<longleftrightarrow>
   (\<forall>(n, g) \<in> set es. valid_name n \<and> inode_get inodes g \<noteq> None)"
  by (induction es) (auto simp: bindR_Inr_iff validate_target_def split: if_splits)

lemma validate_directories:
  "iterR (validate_directory inodes) ps () = Inr () \<longleftrightarrow>
   (\<forall>(p, d) \<in> set ps. directory_alive inodes p \<and>
      (\<forall>n g. RBT.lookup d n = Some g \<longrightarrow> valid_name n \<and> inode_get inodes g \<noteq> None))"
proof (induction ps)
  case (Cons x ps)
  obtain p d where x: "x = (p, d)" by (cases x)
  have "validate_directory inodes x () = Inr () \<longleftrightarrow>
      directory_alive inodes p \<and> (\<forall>n g. RBT.lookup d n = Some g \<longrightarrow> valid_name n \<and> inode_get inodes g \<noteq> None)"
    using validate_targets [of inodes p "RBT.entries d"]
    by (auto simp: x validate_directory_def directory_alive_def lookup_in_tree split: option.splits)
  then show ?case using Cons.IH by (simp add: bindR_Inr_iff x)
qed simp

lemma directory_validate_ok:
  assumes "no_empty_directory t"
  shows "is_ok (directory_validate t inodes) \<longleftrightarrow> entries_alive inodes t"
proof -
  have "is_ok (directory_validate t inodes) \<longleftrightarrow>
      (\<forall>p d. RBT.lookup (dt_entries t) p = Some d \<longrightarrow> directory_alive inodes p \<and>
        (\<forall>n g. RBT.lookup d n = Some g \<longrightarrow> valid_name n \<and> inode_get inodes g \<noteq> None))"
    unfolding directory_validate_def is_ok_iff using validate_directories [of inodes "RBT.entries (dt_entries t)"]
    by (auto simp: lookup_in_tree)
  moreover have "\<exists>n g. RBT.lookup d n = Some g" if "RBT.lookup (dt_entries t) p = Some d" for p d
    using assms that unfolding no_empty_directory_def rbt_empty_iff by (metis not_None_eq)
  ultimately show ?thesis
    unfolding entries_alive_def entry_map_def directory_lookup_def by (fastforce simp: bind_eq_Some_conv)
qed

text \<open>C38. The namespace check is exact: on a table without empty directories it succeeds if and only if
  every entry lies in a living directory inode, has a valid name and leads to a living inode.\<close>

theorem directory_validate_exact:
  assumes "no_empty_directory t"
  shows "is_ok (directory_validate t inodes) \<longleftrightarrow>
    (\<forall>p n g. directory_lookup t p n = Some g \<longrightarrow>
       directory_alive inodes p \<and> valid_name n \<and> inode_get inodes g \<noteq> None)"
  using directory_validate_ok [OF assms] by (simp add: entries_alive_def entry_map_def)

text \<open>A root directory with a file below it, and the same inodes without the file.\<close>

abbreviation root_only :: inode_table where
  "root_only \<equiv> snd (inode_create Directory inode_table_new)"

abbreviation root_and_file :: inode_table where
  "root_and_file \<equiv> snd (inode_create File root_only)"

abbreviation file_name :: rust_string where
  "file_name \<equiv> string_of_bytes [97]"

abbreviation one_entry :: directory_table where
  "one_entry \<equiv> snd (directory_insert 1 file_name 2 root_and_file directory_table_new)"

lemma root_inodes:
  "inode_get root_only i = (if i = 1 then Some \<lparr>in_id = 1, in_kind = Directory, in_blocks = []\<rparr> else None)"
  "inode_get root_and_file i =
    (if i = 2 then Some \<lparr>in_id = 2, in_kind = File, in_blocks = []\<rparr>
     else if i = 1 then Some \<lparr>in_id = 1, in_kind = Directory, in_blocks = []\<rparr> else None)"
  by (simp_all add: inode_get_def inode_create_def inode_table_new_def checked_add_def Let_def)

lemma one_entry_eq: "one_entry = \<lparr>dt_entries = RBT.insert 1 (RBT.insert file_name 2 RBT.empty) RBT.empty\<rparr>"
proof -
  have "validate_parent 1 root_and_file = Inr ()" by (simp add: validate_parent_def root_inodes)
  moreover have "valid_utf8 [97]" by code_simp
  then have "valid_name file_name" by (simp add: valid_name_def)
  ultimately show ?thesis
    by (simp add: directory_insert_def directory_table_new_def root_inodes)
qed

theorem directory_validate_exact_witness:
  "is_ok (directory_validate one_entry root_and_file) \<and> \<not> is_ok (directory_validate one_entry root_only)"
proof -
  have "no_empty_directory directory_table_new" by (simp add: no_empty_directory_def directory_table_new_def)
  then have "no_empty_directory one_entry" by (rule insert_keeps_nonempty) (rule prod.collapse [symmetric])
  note exact = directory_validate_exact [OF this]
  have "valid_utf8 [97]" by code_simp
  then have "valid_name file_name" by (simp add: valid_name_def)
  then show ?thesis
    unfolding exact by (simp add: one_entry_eq directory_lookup_def directory_alive_def root_inodes)
qed

section \<open>Reachable namespaces\<close>

text \<open>
  A client works on the inodes with the steps of the inode table and on the names with insertion and
  removal. It keeps one rule: an inode that an entry mentions, as parent or as target, stays.
\<close>

definition mentioned :: "directory_table \<Rightarrow> u64 \<Rightarrow> bool" where
  "mentioned d i \<longleftrightarrow> (\<exists>p n g. directory_lookup d p n = Some g \<and> i \<in> {p, g})"

inductive names_step ::
  "(block_allocator \<times> inode_table) \<times> directory_table \<Rightarrow> (block_allocator \<times> inode_table) \<times> directory_table \<Rightarrow> bool" where
  inodes: "inode_step (a, t) (a', t') \<Longrightarrow>
    (\<And>i. mentioned d i \<Longrightarrow> inode_get t i \<noteq> None \<Longrightarrow> inode_get t' i \<noteq> None) \<Longrightarrow> names_step ((a, t), d) ((a', t'), d)"
| insert: "directory_insert p n g t d = (r, d') \<Longrightarrow> names_step ((a, t), d) ((a, t), d')"
| remove: "directory_remove p n t d = (r', d') \<Longrightarrow> names_step ((a, t), d) ((a, t), d')"

definition names_inv :: "(block_allocator \<times> inode_table) \<times> directory_table \<Rightarrow> bool" where
  "names_inv s \<longleftrightarrow>
     (case s of (at, d) \<Rightarrow> table_inv at \<and> no_empty_directory d \<and> entries_alive (snd at) d)"

text \<open>No step changes the kind of an inode.\<close>

lemma create_kind:
  assumes "table_inv (a, t)" and "inode_create k t = (r, t')" and "inode_get t i = Some node"
  shows "inode_get t' i = Some node"
proof -
  have "i \<noteq> it_next_id t" using assms(1,3) by (auto simp: table_inv_def inode_get_def)
  then show ?thesis
    using assms(2,3) by (auto simp: inode_create_def inode_get_def Let_def split: option.splits)
qed

lemma inode_step_kind:
  assumes "table_inv (a, t)" and "inode_step (a, t) (a', t')"
    and "inode_get t i = Some node" and "inode_get t' i = Some node'"
  shows "in_kind node' = in_kind node"
  using assms(2)
proof (cases rule: inode_step.cases)
  case create
  then show ?thesis using create_kind [OF assms(1) _ assms(3)] assms(4) by simp
next
  case attach
  then show ?thesis
    using assms(3,4) by (auto simp: attach_block_def inode_get_def split: option.splits sum.splits if_splits)
next
  case detach
  then show ?thesis using assms(3,4) by (auto simp: detach_block_def inode_get_def split: option.splits if_splits)
next
  case remove
  then show ?thesis
    using assms(3,4) by (auto simp: inode_remove_def inode_get_def restrict_map_def split: option.splits if_splits)
qed (use assms(3,4) in auto)

lemma inodes_keep_namespace:
  assumes "table_inv (a, t)" and "inode_step (a, t) (a', t')" and "entries_alive t d"
    and "\<And>i. mentioned d i \<Longrightarrow> inode_get t i \<noteq> None \<Longrightarrow> inode_get t' i \<noteq> None"
  shows "entries_alive t' d"
proof -
  have "directory_alive t' p \<and> valid_name n \<and> inode_get t' g \<noteq> None" if entry: "entry_map d (p, n) = Some g" for p n g
  proof -
    have old: "directory_alive t p" "valid_name n" "inode_get t g \<noteq> None"
      using assms(3) entry unfolding entries_alive_def by blast+
    have "mentioned d p" "mentioned d g" using entry by (auto simp: mentioned_def entry_map_def)
    then have new: "inode_get t' p \<noteq> None" "inode_get t' g \<noteq> None"
      using assms(4) old(1,3) by (auto simp: directory_alive_def)
    then have "directory_alive t' p"
      using old(1) inode_step_kind [OF assms(1,2)] by (fastforce simp: directory_alive_def)
    then show ?thesis using new(2) old(2) by blast
  qed
  then show ?thesis unfolding entries_alive_def by blast
qed

lemma names_keep_namespace:
  assumes "entries_alive t d"
  shows "directory_insert p n g t d = (r, d') \<Longrightarrow> entries_alive t d'"
    and "directory_remove p n t d = (r', d') \<Longrightarrow> entries_alive t d'"
  using assms insert_map [of p n g t d] remove_map [of p n t d] unfolding entries_alive_def
  by (auto simp: map_insert_def map_remove_def split: if_splits option.splits)

lemma names_step_inv: "names_step s s' \<Longrightarrow> names_inv s \<Longrightarrow> names_inv s'"
proof (induction rule: names_step.induct)
  case (inodes a t a' t' d)
  then show ?case using inode_step_inv [OF inodes(1)] inodes_keep_namespace [OF _ inodes(1) _ inodes(2)]
    by (simp add: names_inv_def)
next
  case (insert p n g t d r d' a)
  then show ?case using insert_keeps_nonempty names_keep_namespace(1) by (simp add: names_inv_def) blast
next
  case (remove p n t d r' d' a)
  then show ?case using remove_keeps_nonempty names_keep_namespace(2) by (simp add: names_inv_def) blast
qed



end
