(* ===== verification/Spec2Isabelle.thy ===== *)
theory Spec2Isabelle
  imports FS_Session FS_Cache FS_Directory_Memory
begin

text \<open>
  A verification development of \<^verbatim>\<open>projects/filesystem-lab\<close>, a crash-consistent file system written
  in Rust over a block device. File names below are relative to its \<^verbatim>\<open>src\<close> directory.

  \<^bold>\<open>The program.\<close> A device is divided into a superblock, a journal region, an allocation bitmap, an
  inode table, a directory table and data blocks (\<^verbatim>\<open>format.rs\<close>). Every update of the file system
  follows one path: it loads the tables, computes the new ones, renders them on an in-memory capture
  device (\<^verbatim>\<open>transaction_image.rs\<close>), collects the blocks that differ, records them as one transaction in
  a fresh log (\<^verbatim>\<open>journal.rs\<close>), stores the log in the journal region and flushes
  (\<^verbatim>\<open>journal_region.rs\<close>, \<^verbatim>\<open>journal_codec.rs\<close>), lets recovery copy the blocks to their homes
  (\<^verbatim>\<open>recovery.rs\<close>) and clears the journal (\<^verbatim>\<open>journal_checkpoint.rs\<close>). After a crash the same
  recovery runs first. The namespace and file operations differ only in how they compute the new
  tables and blocks; \<^verbatim>\<open>fsck.rs\<close> says which tables make sense together.

  \<^bold>\<open>Conventions\<close> (\<^verbatim>\<open>FS_Prelude\<close>, \<^verbatim>\<open>FS_IO\<close>). Fixed-width integers are words; \<^verbatim>\<open>usize\<close> is a natural number
  whose checked additions and multiplications fail at \<open>2 ^ 64\<close>; \<^verbatim>\<open>io::Result\<close> is a sum type with
  the error kind on the left, the texts of messages being left out. Code that uses a device is a
  function from the device to a result and the device; a failing program keeps the device it has
  reached. \<^verbatim>\<open>FS_IO\<close> is a weakest-precondition calculus for such programs. \<^verbatim>\<open>?\<close>, \<^verbatim>\<open>for\<close> and \<^verbatim>\<open>ok_or\<close> are
  \<open>bindR\<close>, \<open>iterR\<close> and \<open>ok_or\<close>. A \<^verbatim>\<open>BTreeMap\<close> is a red-black tree where its order is visible.

  \<^bold>\<open>Devices.\<close>
  \<^item> \<^verbatim>\<open>FS_Block\<close>: the trait \<^verbatim>\<open>BlockDevice\<close> as a record of operations, the file-backed device of
    \<^verbatim>\<open>block.rs\<close>, and the locale \<open>block_dev\<close> with the contract of a device: its current and its durable
    contents, what reads, writes and flushes do to them, and whether it may crash. Programs over
    any device are verified once, inside this locale.
  \<^item> \<^verbatim>\<open>FS_Capture\<close>: the capture device and the collection of changed blocks.
  \<^item> \<^verbatim>\<open>FS_Crash_Device\<close>: the crash-injecting device of \<^verbatim>\<open>tests/support/crash_device.rs\<close>; it loses its
    volatile writes before a chosen mutation. All three devices interpret \<open>block_dev\<close>.
  \<^item> \<^verbatim>\<open>FS_Cache\<close>: the write-back buffer cache of \<^verbatim>\<open>cache.rs\<close> over any device of the contract. Through the
    cache one sees one array of blocks whatever is written back, flushed or evicted meanwhile;
    a successful flush makes it durable.

  \<^bold>\<open>Formats.\<close>
  \<^item> \<^verbatim>\<open>FS_Checksum\<close>: the CRC-32 loops; a change of one byte changes the checksum.
  \<^item> \<^verbatim>\<open>FS_Records\<close>: the locale \<open>record_stream\<close>, scanning a concatenation of self-delimiting records.
  \<^item> \<^verbatim>\<open>FS_Format\<close>: superblock, geometry constructors, ranges, encoder and decoder; the regions
    partition the metadata and the codec is exact.
  \<^item> \<^verbatim>\<open>FS_Journal_Codec\<close>, \<^verbatim>\<open>FS_Journal_Region\<close>: journal records and the journal region; exact codecs, torn
    streams, detected corruption, store and load.
  \<^item> \<^verbatim>\<open>FS_Region\<close>, \<^verbatim>\<open>FS_Table\<close>: images over several blocks and the table format shared by
    \<^verbatim>\<open>inode_table.rs\<close> and \<^verbatim>\<open>directory_table.rs\<close>, with the locales \<open>record_table\<close>, \<open>meta_region\<close> and \<open>file_table\<close>.
  \<^item> \<^verbatim>\<open>FS_Allocation_Disk\<close>, \<^verbatim>\<open>FS_Inode_Codec\<close>, \<^verbatim>\<open>FS_Inode_Table\<close>, \<^verbatim>\<open>FS_Directory_Codec\<close>,
    \<^verbatim>\<open>FS_Directory_Table\<close>: the three tables on disk (\<^verbatim>\<open>allocation_disk.rs\<close>, \<^verbatim>\<open>inode_codec.rs\<close>,
    \<^verbatim>\<open>inode_table.rs\<close>, \<^verbatim>\<open>directory_codec.rs\<close>, \<^verbatim>\<open>directory_table.rs\<close>); what is stored is loaded again, and
    only canonical images load.

  \<^bold>\<open>In-memory tables.\<close>
  \<^item> \<^verbatim>\<open>FS_Allocation\<close>: the allocator of \<^verbatim>\<open>allocation.rs\<close> refines a set of blocks with first-fit choice.
  \<^item> \<^verbatim>\<open>FS_Inode_Memory\<close>, \<^verbatim>\<open>FS_Directory_Memory\<close>: the inode table of \<^verbatim>\<open>inode.rs\<close> and the namespace of
    \<^verbatim>\<open>directory.rs\<close>; their checks are exact, every table a client reaches passes them, and the
    namespace refines a finite map.

  \<^bold>\<open>Transactions.\<close>
  \<^item> \<^verbatim>\<open>FS_Journal\<close>: the log handle as a state machine, crash prefixes and \<^verbatim>\<open>replay_into\<close>.
  \<^item> \<^verbatim>\<open>FS_Recovery\<close>: recovery refines replay on a block map; recovery with checkpoint settles.
  \<^item> \<^verbatim>\<open>FS_Transaction\<close>: publishing one transaction, its atomicity under crashes, restarted recovery
    and histories of transactions.
  \<^item> \<^verbatim>\<open>FS_State\<close>: the file system a device stands for (\<open>mounted\<close>), and what it means that a program
    implements a function on that state on every device, or is crash safe.
  \<^item> \<^verbatim>\<open>FS_Metadata_Tx\<close>, \<^verbatim>\<open>FS_Format_Device\<close>: \<^verbatim>\<open>create_tx.rs\<close>, \<^verbatim>\<open>allocation_tx.rs\<close>, \<^verbatim>\<open>inode_tx.rs\<close>,
    \<^verbatim>\<open>directory_tx.rs\<close>, \<^verbatim>\<open>metadata_tx.rs\<close>, and \<^verbatim>\<open>format_device\<close> with \<^verbatim>\<open>read_superblock\<close>.

  \<^bold>\<open>Operations.\<close>
  \<^item> \<^verbatim>\<open>FS_Search\<close>, \<^verbatim>\<open>FS_Fsck\<close>: the graph searches, and \<^verbatim>\<open>check_device\<close>, which accepts exactly the
    \<open>consistent\<close> states.
  \<^item> \<^verbatim>\<open>FS_Namespace_Tx\<close>, \<^verbatim>\<open>FS_Namespace\<close>, \<^verbatim>\<open>FS_Namespace_Laws\<close>: \<^verbatim>\<open>rename_tx.rs\<close>, \<^verbatim>\<open>hard_link_tx.rs\<close>,
    \<^verbatim>\<open>hard_unlink_tx.rs\<close>, \<^verbatim>\<open>rename_overwrite_tx.rs\<close>, \<^verbatim>\<open>rename_exchange_tx.rs\<close>, \<^verbatim>\<open>unlink_tx.rs\<close>; what
    each does to the map from names to inodes, that it keeps the state consistent, and crash atomicity.
  \<^item> \<^verbatim>\<open>FS_File_Data\<close>, \<^verbatim>\<open>FS_File_Spec\<close>, \<^verbatim>\<open>FS_File_Laws\<close>: \<^verbatim>\<open>file_data.rs\<close>, \<^verbatim>\<open>file_overwrite_batch.rs\<close>,
    \<^verbatim>\<open>file_append_batch.rs\<close>, \<^verbatim>\<open>file_range_read.rs\<close>, \<^verbatim>\<open>file_copy_range.rs\<close>, \<^verbatim>\<open>file_zero_range.rs\<close>,
    \<^verbatim>\<open>file_insert.rs\<close>, \<^verbatim>\<open>truncate_tx.rs\<close>; a file is a list of blocks and every operation is a list operation.
  \<^item> \<^verbatim>\<open>FS_Example\<close>: a populated file system on which the theorems are exercised.
  \<^item> \<^verbatim>\<open>FS_Session\<close>: all journaled operations as one datatype, their steps on what a user sees, and
    sessions on a crash-prone device. The theorem of this file puts everything together.

  \<^bold>\<open>Bounds and termination.\<close> There is no fuel: every loop is structural recursion, or has a termination
  proof whose measure is what is left of the byte stream, of the worklist or of the unvisited part
  of the graph. The loops over worklists are defined on any table, consistent or not. Devices have up to
  \<open>2 ^ 64 - 1\<close> blocks of 4096 bytes. A crash is the failure of one mutation, a write or a flush, after which every
  mutation fails until the reboot; as in the crash matrices of the repository, blocks are written whole.

  \<^bold>\<open>Not modelled.\<close> \<^verbatim>\<open>lib.rs\<close> holds module declarations only. The texts of errors and the \<^verbatim>\<open>Display\<close>
  implementations are left out, and so are trivial accessors of private fields. Real system calls under
  \<^verbatim>\<open>std::fs::File\<close> appear as a byte-list file with a durable copy. Sector tearing and controller reordering are
  outside of the fault model, as the documentation of the crate says. The unit and integration tests
  are not modelled, except for the crash device they use. The other projects of the repository
  (hypervisor, TCP/IP stack, kernel, container runtime, conformance lab) are separate programs.
\<close>



end
